(* ===== verification/Prelude.thy ===== *)
theory Prelude
  imports Main "HOL-Library.Word"
begin

section \<open>Shared vocabulary: results, checked integers, bytes\<close>

text \<open>
  What every component of the development uses: the machine integers of the Rust code, the
  result type of fallible functions with Rust's \<open>?\<close> as \<open>and_then\<close>, arithmetic under
  \<open>overflow-checks = true\<close> (the workspace's release and dev profiles), the \<open>checked_*\<close> and
  \<open>saturating_*\<close> methods of the standard library, and little-endian bytes with slices.

  A panic (an overflow, an index or a slice out of bounds) is the value \<open>Panic\<close> of the error
  type, so that "the code does not panic" is a statement about values. A \<open>usize\<close> is a \<open>nat\<close>;
  the bound \<open>2 ^ 64\<close> is written out where the code depends on it. A \<open>[u8; 32]\<close> (a public key,
  a seed, a hash) is a \<open>256 word\<close> whose little-endian bytes are the array.
\<close>

unbundle bit_operations_syntax

type_synonym u8 = "8 word"
type_synonym u32 = "32 word"
type_synonym u64 = "64 word"
type_synonym i64 = "64 word"
type_synonym bytes = "u8 list"
type_synonym bytes32 = "256 word"
type_synonym pubkey = bytes32

named_theorems result_simps \<open>rewriting of successful results\<close>
named_theorems codec_simps \<open>lengths and inverses of byte encodings\<close>

subsection \<open>Errors and results\<close>

text \<open>
  The variants of \<open>pinocchio::program_error::ProgramError\<close> that the program constructs,
  \<open>External\<close> for an error that a call to another program or to a sysvar returns, and \<open>Panic\<close>.
\<close>

datatype program_error =
    Custom u32
  | ArithmeticOverflow
  | NotEnoughAccountKeys
  | InvalidInstructionData
  | External nat
  | Panic

type_synonym 'a result = "program_error + 'a"

primrec and_then :: "'e + 'a \<Rightarrow> ('a \<Rightarrow> 'e + 'b) \<Rightarrow> 'e + 'b" where
  "and_then (Inl e) f = Inl e"
| "and_then (Inr x) f = f x"

definition ok_or :: "'a option \<Rightarrow> 'e \<Rightarrow> 'e + 'a" where
  "ok_or x e = (case x of None \<Rightarrow> Inl e | Some v \<Rightarrow> Inr v)"

primrec map_res :: "('a \<Rightarrow> 'e + 'b) \<Rightarrow> 'a list \<Rightarrow> 'e + 'b list" where
  "map_res f [] = Inr []"
| "map_res f (x # xs) = and_then (f x) (\<lambda>y. and_then (map_res f xs) (\<lambda>ys. Inr (y # ys)))"

primrec fold_res :: "('s \<Rightarrow> 'a \<Rightarrow> 'e + 's) \<Rightarrow> 's \<Rightarrow> 'a list \<Rightarrow> 'e + 's" where
  "fold_res f s [] = Inr s"
| "fold_res f s (x # xs) = and_then (f s x) (\<lambda>s'. fold_res f s' xs)"

lemma and_then_cong [fundef_cong]:
  "m = m' \<Longrightarrow> (\<And>x. m' = Inr x \<Longrightarrow> f x = f' x) \<Longrightarrow> and_then m f = and_then m' f'"
  by (cases m') auto

lemma and_then_Inr_iff [simp, result_simps]:
  "and_then m f = Inr y \<longleftrightarrow> (\<exists>x. m = Inr x \<and> f x = Inr y)"
  by (cases m) auto

lemma and_then_Inl_iff:
  "and_then m f = Inl e \<longleftrightarrow> m = Inl e \<or> (\<exists>x. m = Inr x \<and> f x = Inl e)"
  by (cases m) auto

lemma and_then_assoc: "and_then (and_then m f) g = and_then m (\<lambda>x. and_then (f x) g)"
  by (cases m) auto

lemma ok_or_Inr [simp, result_simps]: "ok_or x e = Inr v \<longleftrightarrow> x = Some v"
  by (auto simp: ok_or_def split: option.splits)

lemma ok_or_Some [simp]: "ok_or (Some v) e = Inr v"
  and ok_or_None [simp]: "ok_or None e = Inl e"
  by (simp_all add: ok_or_def)

lemma ok_or_Inl: "ok_or x e = Inl e' \<longleftrightarrow> x = None \<and> e' = e"
  by (auto simp: ok_or_def split: option.splits)

lemma if_Inl_Inr [simp]: "(if b then Inl e else m) = Inr y \<longleftrightarrow> \<not> b \<and> m = Inr y"
  by auto

lemma map_res_Inr: "(\<And>x. x \<in> set xs \<Longrightarrow> f x = Inr (g x)) \<Longrightarrow> map_res f xs = Inr (map g xs)"
  by (induction xs) auto

lemma map_res_InrD: "map_res f xs = Inr ys \<Longrightarrow> list_all2 (\<lambda>x y. f x = Inr y) xs ys"
  by (induction xs arbitrary: ys) auto

lemma map_res_cong [fundef_cong]:
  "xs = ys \<Longrightarrow> (\<And>x. x \<in> set ys \<Longrightarrow> f x = g x) \<Longrightarrow> map_res f xs = map_res g ys"
  by (induction xs arbitrary: ys) auto

lemma fold_res_append:
  "fold_res f s (xs @ ys) = and_then (fold_res f s xs) (\<lambda>s'. fold_res f s' ys)"
  by (induction xs arbitrary: s) (auto simp: and_then_assoc)

subsection \<open>Machine integers with overflow checks\<close>

text \<open>\<open>a + b\<close>, \<open>a - b\<close>, \<open>a * b\<close> panic on overflow; \<open>checked_*\<close> return \<open>None\<close>.\<close>

definition add_ov :: "'a::len word \<Rightarrow> 'a word \<Rightarrow> 'a word result" where
  "add_ov a b = (if unat a + unat b < 2 ^ LENGTH('a) then Inr (a + b) else Inl Panic)"

definition sub_ov :: "'a::len word \<Rightarrow> 'a word \<Rightarrow> 'a word result" where
  "sub_ov a b = (if unat b \<le> unat a then Inr (a - b) else Inl Panic)"

definition checked_add :: "'a::len word \<Rightarrow> 'a word \<Rightarrow> 'a word option" where
  "checked_add a b = (if unat a + unat b < 2 ^ LENGTH('a) then Some (a + b) else None)"

definition checked_sub :: "'a::len word \<Rightarrow> 'a word \<Rightarrow> 'a word option" where
  "checked_sub a b = (if unat b \<le> unat a then Some (a - b) else None)"

definition checked_mul :: "'a::len word \<Rightarrow> 'a word \<Rightarrow> 'a word option" where
  "checked_mul a b = (if unat a * unat b < 2 ^ LENGTH('a) then Some (a * b) else None)"

definition saturating_sub :: "'a::len word \<Rightarrow> 'a word \<Rightarrow> 'a word" where
  "saturating_sub a b = (if unat b \<le> unat a then a - b else 0)"

text \<open>The same for \<open>usize\<close> (64 bits on the target), a \<open>nat\<close> below \<open>2 ^ 64\<close>.\<close>

definition add_usize :: "nat \<Rightarrow> nat \<Rightarrow> nat result" where
  "add_usize a b = (if a + b < 2 ^ 64 then Inr (a + b) else Inl Panic)"

definition sub_usize :: "nat \<Rightarrow> nat \<Rightarrow> nat result" where
  "sub_usize a b = (if b \<le> a then Inr (a - b) else Inl Panic)"

definition wrapping_neg_usize :: "nat \<Rightarrow> nat" where
  "wrapping_neg_usize n = (2 ^ 64 - n mod 2 ^ 64) mod 2 ^ 64"

lemma unat_bound [simp]: "unat (a :: 'a::len word) < 2 ^ LENGTH('a)"
  by (rule unsigned_less)

lemma add_ov_Inr: "add_ov a b = Inr c \<longleftrightarrow> unat c = unat a + unat b"
proof
  assume "add_ov a b = Inr c"
  then show "unat c = unat a + unat b"
    by (auto simp: add_ov_def unat_word_ariths split: if_splits)
next
  assume c: "unat c = unat a + unat b"
  then have "unat a + unat b < 2 ^ LENGTH('a)" by (metis unat_bound)
  moreover from this c have "c = a + b"
    by (intro word_unat_eq_iff [THEN iffD2]) (simp add: unat_word_ariths)
  ultimately show "add_ov a b = Inr c" by (simp add: add_ov_def)
qed

lemma sub_ov_Inr: "sub_ov a b = Inr c \<longleftrightarrow> unat b \<le> unat a \<and> unat c = unat a - unat b"
  by (auto simp: sub_ov_def unat_sub word_le_nat_alt split: if_splits intro!: word_unat_eq_iff [THEN iffD2])

lemma checked_add_Some: "checked_add a b = Some c \<longleftrightarrow> unat c = unat a + unat b"
  using add_ov_Inr [of a b c] by (auto simp: checked_add_def add_ov_def split: if_splits)

lemma checked_sub_Some: "checked_sub a b = Some c \<longleftrightarrow> unat b \<le> unat a \<and> unat c = unat a - unat b"
  using sub_ov_Inr [of a b c] by (auto simp: checked_sub_def sub_ov_def split: if_splits)

lemma checked_mul_Some: "checked_mul a b = Some c \<longleftrightarrow> unat c = unat a * unat b"
proof
  assume "checked_mul a b = Some c"
  then show "unat c = unat a * unat b"
    by (auto simp: checked_mul_def unat_word_ariths split: if_splits)
next
  assume c: "unat c = unat a * unat b"
  then have "unat a * unat b < 2 ^ LENGTH('a)" by (metis unat_bound)
  moreover from this c have "c = a * b"
    by (intro word_unat_eq_iff [THEN iffD2]) (simp add: unat_word_ariths)
  ultimately show "checked_mul a b = Some c" by (simp add: checked_mul_def)
qed

lemmas checked_Some = checked_add_Some checked_sub_Some checked_mul_Some
lemmas ov_Inr = add_ov_Inr sub_ov_Inr

lemma unat_saturating_sub: "unat (saturating_sub a b) = unat a - unat b"
  by (simp add: saturating_sub_def unat_sub word_le_nat_alt)

lemma add_usize_Inr [simp]: "add_usize a b = Inr c \<longleftrightarrow> c = a + b \<and> c < 2 ^ 64"
  by (auto simp: add_usize_def)

lemma sub_usize_Inr [simp]: "sub_usize a b = Inr c \<longleftrightarrow> b \<le> a \<and> c = a - b"
  by (auto simp: sub_usize_def)

text \<open>Widening (\<open>as u64\<close>, \<open>as usize\<close>) keeps the value, truncation (\<open>as u32\<close>) reduces it.\<close>

lemma unat_u8_bound [simp]: "unat (a :: u8) < 256"
  and unat_u32_bound [simp]: "unat (b :: u32) < 4294967296"
  and unat_u64_bound [simp]: "unat (c :: u64) < 18446744073709551616"
  using unat_bound [of a] unat_bound [of b] unat_bound [of c] by simp_all

lemma unat_ucast_widen [simp]:
  "unat (ucast (a :: u8) :: u32) = unat a" "unat (ucast (a :: u8) :: u64) = unat a"
  "unat (ucast (b :: u32) :: u64) = unat b"
  by (simp_all add: unsigned_ucast_eq take_bit_nat_eq_self_iff less_trans [OF unat_u8_bound]
      less_trans [OF unat_u32_bound])

lemma unat_ucast_truncate: "unat (ucast (c :: u64) :: u32) = unat c mod 2 ^ 32"
  by (simp add: unsigned_ucast_eq take_bit_eq_mod)

definition sum_ov :: "'a::len word list \<Rightarrow> 'a word result" where
  "sum_ov xs = fold_res add_ov 0 xs"

lemma fold_add_ov:
  "unat s + sum_list (map unat xs) < 2 ^ LENGTH('a) \<Longrightarrow>
   fold_res add_ov (s :: 'a::len word) xs = Inr (s + sum_list xs) \<and>
   unat (s + sum_list xs) = unat s + sum_list (map unat xs)"
proof (induction xs arbitrary: s)
  case (Cons x xs)
  then have "unat (s + x) = unat s + unat x" by (simp add: unat_word_ariths)
  with Cons.prems Cons.IH [of "s + x"] show ?case by (simp add: add_ov_def add.assoc)
qed simp

text \<open>\<open>Iterator::sum\<close> panics on overflow; below the bound it is the sum.\<close>

lemma sum_ov_eq:
  assumes "sum_list (map unat xs) < 2 ^ LENGTH('a)"
  shows "sum_ov (xs :: 'a::len word list) = Inr (sum_list xs)"
    and "unat (sum_list xs) = sum_list (map unat xs)"
  using fold_add_ov [of 0 xs] assms by (simp_all add: sum_ov_def)

lemma sum_ov_Inr: "sum_ov xs = Inr r \<Longrightarrow> unat r = sum_list (map unat xs)"
proof -
  have "fold_res add_ov s xs = Inr r \<Longrightarrow> unat r = unat s + sum_list (map unat xs)" for s
    by (induction xs arbitrary: s) (auto simp: add_ov_Inr)
  then show "sum_ov xs = Inr r \<Longrightarrow> ?thesis" by (auto simp: sum_ov_def)
qed

lemma sum_list_le_bound:
  "(\<And>x. x \<in> set xs \<Longrightarrow> f x \<le> b) \<Longrightarrow> sum_list (map f xs) \<le> length xs * (b :: nat)"
  by (induction xs) (auto simp: add_mono)

subsection \<open>Bytes\<close>

primrec nat_le :: "nat \<Rightarrow> nat \<Rightarrow> bytes" where
  "nat_le 0 x = []"
| "nat_le (Suc n) x = word_of_nat x # nat_le n (x div 256)"

primrec le_nat :: "bytes \<Rightarrow> nat" where
  "le_nat [] = 0"
| "le_nat (b # bs) = unat b + 256 * le_nat bs"

text \<open>\<open>to_le_bytes\<close> and \<open>from_le_bytes\<close>; at 256 bits, an array and its word.\<close>

definition to_le :: "'a::len word \<Rightarrow> bytes" where
  "to_le w = nat_le (LENGTH('a) div 8) (unat w)"

definition from_le :: "bytes \<Rightarrow> 'a::len word" where
  "from_le bs = word_of_nat (le_nat bs)"

definition slice :: "nat \<Rightarrow> nat \<Rightarrow> 'a list \<Rightarrow> 'a list" where
  "slice off n xs = take n (drop off xs)"

text \<open>\<open>xs[off .. off + new.len()].copy_from_slice(new)\<close>, inside the bounds.\<close>

definition splice_at :: "nat \<Rightarrow> 'a list \<Rightarrow> 'a list \<Rightarrow> 'a list" where
  "splice_at off new xs = take off xs @ new @ drop (off + length new) xs"

lemma length_nat_le [simp]: "length (nat_le n x) = n"
  by (induction n arbitrary: x) auto

lemma le_nat_nat_le: "le_nat (nat_le n x) = x mod 256 ^ n"
proof (induction n arbitrary: x)
  case 0
  then show ?case by simp
next
  case (Suc n)
  have "x mod (256 * 256 ^ n) = 256 * (x div 256 mod 256 ^ n) + x mod 256"
    by (rule mod_mult2_eq)
  with Suc show ?case by (simp add: unat_of_nat)
qed

lemma le_nat_bound: "le_nat bs < 256 ^ length bs"
proof (induction bs)
  case (Cons b bs)
  have "unat b < 256" by simp
  with Cons have "unat b + 256 * le_nat bs < 256 * 256 ^ length bs" by linarith
  then show ?case by simp
qed simp

lemma nat_le_le_nat: "length bs = n \<Longrightarrow> nat_le n (le_nat bs) = bs"
proof (induction n arbitrary: bs)
  case (Suc n)
  then obtain b cs where bs: "bs = b # cs" "length cs = n" by (cases bs) auto
  have b: "unat b < 256" using unat_bound [of b] by simp
  have "word_of_nat (unat b + 256 * le_nat cs) = b"
    by (simp only: word_unat_eq_iff unat_of_nat) (simp add: b)
  moreover have "(unat b + 256 * le_nat cs) div 256 = le_nat cs" using b by simp
  ultimately show ?case using bs Suc.IH by simp
qed simp

lemma nat_le_mod: "nat_le n (x mod 256 ^ n) = nat_le n x"
  by (metis le_nat_nat_le length_nat_le nat_le_le_nat)

lemma le_nat_inject: "length bs = length cs \<Longrightarrow> le_nat bs = le_nat cs \<longleftrightarrow> bs = cs"
  by (metis nat_le_le_nat)

lemma le_nat_replicate_0 [simp]: "le_nat (replicate n 0) = 0"
  by (induction n) auto

lemma length_to_le [simp, codec_simps]: "length (to_le (w :: 'a::len word)) = LENGTH('a) div 8"
  by (simp add: to_le_def)

lemma pow256: "(256::nat) ^ n = 2 ^ (8 * n)"
  by (simp add: power_mult)

lemma from_le_to_le:
  assumes "8 dvd LENGTH('a)"
  shows "from_le (to_le (w :: 'a::len word)) = w"
proof -
  have "(256::nat) ^ (LENGTH('a) div 8) = 2 ^ LENGTH('a)"
    using assms by (simp only: pow256 dvd_mult_div_cancel)
  then show ?thesis by (simp add: from_le_def to_le_def le_nat_nat_le)
qed

lemma to_le_from_le:
  assumes "8 dvd LENGTH('a)" and "length bs = LENGTH('a) div 8"
  shows "to_le (from_le bs :: 'a::len word) = bs"
proof -
  have "(256::nat) ^ (LENGTH('a) div 8) = 2 ^ LENGTH('a)"
    using assms(1) by (simp only: pow256 dvd_mult_div_cancel)
  then have "le_nat bs < 2 ^ LENGTH('a)"
    using le_nat_bound [of bs] assms(2) by simp
  then have "unat (from_le bs :: 'a word) = le_nat bs"
    by (simp add: from_le_def unat_of_nat)
  then show ?thesis using assms(2) by (simp add: to_le_def nat_le_le_nat)
qed

lemma from_le_to_le_widths [simp, codec_simps]:
  "from_le (to_le (a :: u8)) = a" "from_le (to_le (b :: u32)) = b"
  "from_le (to_le (c :: u64)) = c" "from_le (to_le (d :: bytes32)) = d"
  by (rule from_le_to_le, simp)+

lemma to_le_from_le_widths [simp, codec_simps]:
  "length bs = 1 \<Longrightarrow> to_le (from_le bs :: u8) = bs"
  "length bs = 4 \<Longrightarrow> to_le (from_le bs :: u32) = bs"
  "length bs = 8 \<Longrightarrow> to_le (from_le bs :: u64) = bs"
  "length bs = 32 \<Longrightarrow> to_le (from_le bs :: bytes32) = bs"
  by (rule to_le_from_le, simp_all)+

lemma to_le_inject:
  assumes "8 dvd LENGTH('a)"
  shows "to_le (v :: 'a::len word) = to_le w \<longleftrightarrow> v = w"
  by (metis assms from_le_to_le)

lemma unat_from_le_u32: "length bs = 4 \<Longrightarrow> unat (from_le bs :: u32) = le_nat bs"
  using le_nat_bound [of bs] by (simp add: from_le_def unat_of_nat)

lemma length_slice [simp, codec_simps]: "length (slice off n xs) = min n (length xs - off)"
  by (simp add: slice_def)

lemma slice_join: "off + n = off' \<Longrightarrow> slice off n xs @ slice off' m xs = slice off (n + m) xs"
  using take_add [of n m "drop off xs"] by (auto simp: slice_def add.commute)

lemma slice_all: "n = length xs \<Longrightarrow> slice 0 n xs = xs"
  by (simp add: slice_def)

lemma length_splice_at [simp]:
  "off + length new \<le> length xs \<Longrightarrow> length (splice_at off new xs) = length xs"
  by (simp add: splice_at_def)

lemma nth_splice_at:
  "off + length new \<le> length xs \<Longrightarrow> i < length xs \<Longrightarrow>
   splice_at off new xs ! i = (if off \<le> i \<and> i < off + length new then new ! (i - off) else xs ! i)"
  by (auto simp: splice_at_def nth_append min_def)

lemma slice_splice_at_same:
  "n = length new \<Longrightarrow> off + n \<le> length xs \<Longrightarrow> slice off n (splice_at off new xs) = new"
  by (simp add: slice_def splice_at_def)

lemma nth_slice: "i < n \<Longrightarrow> off + n \<le> length xs \<Longrightarrow> slice off n xs ! i = xs ! (off + i)"
  by (simp add: slice_def)

lemma slice_eqI:
  "off + n \<le> length xs \<Longrightarrow> length ys = length xs \<Longrightarrow>
   (\<And>i. off \<le> i \<Longrightarrow> i < off + n \<Longrightarrow> xs ! i = ys ! i) \<Longrightarrow> slice off n xs = slice off n ys"
  by (rule nth_equalityI) (auto simp: nth_slice)

lemma slice_splice_at_other:
  assumes "off + length new \<le> length xs" "off' + n \<le> length xs"
    and "off' + n \<le> off \<or> off + length new \<le> off'"
  shows "slice off' n (splice_at off new xs) = slice off' n xs"
  using assms by (intro slice_eqI) (auto simp: nth_splice_at)

end
