(* ===== verification/Core_Errors.thy ===== *)
theory Core_Errors
  imports Prelude
begin

section \<open>gacha-core: error codes and constants\<close>

text \<open>
  \<open>packages/gacha-core/src/errors.rs\<close> and \<open>constants.rs\<close>: the program's error enum with its
  \<open>#[repr(u32)]\<close> discriminants, the constants of the account layouts and the size of the
  availability index. Constants are abbreviations, so arithmetic over them computes.
\<close>

datatype gacha_error =
    NotMutable | NotSigner | InvalidAccountOwner | InvalidAccountLength | InvalidVersion
  | InvalidPoolParams | InvalidAuthority | InvalidOperator | InvalidTokenAddress
  | InvalidTier | InvalidItem | InvalidCount | NotNextInQueue | InvalidPullStatus
  | InvalidProof | SoldOut | DeadlineNotReached | InvalidOutcome | InsufficientBalance
  | InvalidBuyer | DeadlinePassed | InventoryChanged | InvalidQuote | QuoteExpired
  | InvalidAsset | InvalidPoolStatus | PendingPurchases | InvalidSeeds | AlreadyInitialized
  | PoolMismatch | InvalidItemCount | InvalidEventAuthority

primrec gacha_error_code :: "gacha_error \<Rightarrow> u32" where
  "gacha_error_code NotMutable = 0"
| "gacha_error_code NotSigner = 1"
| "gacha_error_code InvalidAccountOwner = 2"
| "gacha_error_code InvalidAccountLength = 3"
| "gacha_error_code InvalidVersion = 4"
| "gacha_error_code InvalidPoolParams = 5"
| "gacha_error_code InvalidAuthority = 6"
| "gacha_error_code InvalidOperator = 7"
| "gacha_error_code InvalidTokenAddress = 8"
| "gacha_error_code InvalidTier = 9"
| "gacha_error_code InvalidItem = 10"
| "gacha_error_code InvalidCount = 11"
| "gacha_error_code NotNextInQueue = 12"
| "gacha_error_code InvalidPullStatus = 13"
| "gacha_error_code InvalidProof = 14"
| "gacha_error_code SoldOut = 15"
| "gacha_error_code DeadlineNotReached = 16"
| "gacha_error_code InvalidOutcome = 17"
| "gacha_error_code InsufficientBalance = 18"
| "gacha_error_code InvalidBuyer = 19"
| "gacha_error_code DeadlinePassed = 20"
| "gacha_error_code InventoryChanged = 21"
| "gacha_error_code InvalidQuote = 22"
| "gacha_error_code QuoteExpired = 23"
| "gacha_error_code InvalidAsset = 24"
| "gacha_error_code InvalidPoolStatus = 25"
| "gacha_error_code PendingPurchases = 26"
| "gacha_error_code InvalidSeeds = 27"
| "gacha_error_code AlreadyInitialized = 28"
| "gacha_error_code PoolMismatch = 29"
| "gacha_error_code InvalidItemCount = 30"
| "gacha_error_code InvalidEventAuthority = 31"

text \<open>\<open>impl From<GachaError> for ProgramError\<close>.\<close>

definition gerr :: "gacha_error \<Rightarrow> program_error" where
  "gerr e = Custom (gacha_error_code e)"

lemma gacha_error_code_inject [simp]: "gacha_error_code e = gacha_error_code e' \<longleftrightarrow> e = e'"
  by (cases e; cases e') simp_all

lemma gerr_inject [simp]: "gerr e = gerr e' \<longleftrightarrow> e = e'"
  by (simp add: gerr_def)

lemma gerr_distinct [simp]:
  "gerr e \<noteq> Panic" "Panic \<noteq> gerr e"
  "gerr e \<noteq> ArithmeticOverflow" "ArithmeticOverflow \<noteq> gerr e"
  "gerr e \<noteq> NotEnoughAccountKeys" "NotEnoughAccountKeys \<noteq> gerr e"
  "gerr e \<noteq> InvalidInstructionData" "InvalidInstructionData \<noteq> gerr e"
  "gerr e \<noteq> External n" "External n \<noteq> gerr e"
  by (simp_all add: gerr_def)

text \<open>Error codes are ordered as their discriminants are.\<close>

instantiation gacha_error :: linorder
begin

definition less_eq_gacha_error :: "gacha_error \<Rightarrow> gacha_error \<Rightarrow> bool" where
  "less_eq_gacha_error a b \<longleftrightarrow> gacha_error_code a \<le> gacha_error_code b"

definition less_gacha_error :: "gacha_error \<Rightarrow> gacha_error \<Rightarrow> bool" where
  "less_gacha_error a b \<longleftrightarrow> gacha_error_code a < gacha_error_code b"

instance
  by standard (auto simp: less_eq_gacha_error_def less_gacha_error_def order_less_le)

end

subsection \<open>Constants\<close>

abbreviation (input) POOL_VERSION :: u8 where "POOL_VERSION \<equiv> 1"
abbreviation (input) ITEM_VERSION :: u8 where "ITEM_VERSION \<equiv> 1"
abbreviation (input) PULL_VERSION :: u8 where "PULL_VERSION \<equiv> 1"

abbreviation (input) POOL_PAUSED :: u8 where "POOL_PAUSED \<equiv> 0"
abbreviation (input) POOL_ACTIVE :: u8 where "POOL_ACTIVE \<equiv> 1"
abbreviation (input) POOL_RETIRED :: u8 where "POOL_RETIRED \<equiv> 2"

text \<open>The byte strings \<open>b"pool"\<close>, \<open>b"item"\<close>, \<open>b"pull"\<close> and \<open>b"__event_authority"\<close>.\<close>

definition POOL_SEED :: bytes where
  "POOL_SEED = [112, 111, 111, 108]"

definition ITEM_SEED :: bytes where
  "ITEM_SEED = [105, 116, 101, 109]"

definition PULL_SEED :: bytes where
  "PULL_SEED = [112, 117, 108, 108]"

definition EVENT_AUTHORITY_SEED :: bytes where
  "EVENT_AUTHORITY_SEED =
     [95, 95, 101, 118, 101, 110, 116, 95, 97, 117, 116, 104, 111, 114, 105, 116, 121]"

definition EVENT_AUTHORITY :: pubkey where
  "EVENT_AUTHORITY = from_le
    [192, 247, 135, 119, 0, 6, 222, 140, 33, 33, 148, 202, 138, 73, 98, 34, 75, 178, 173, 186,
     91, 23, 18, 107, 166, 29, 116, 219, 149, 151, 122, 175]"

abbreviation (input) EVENT_AUTHORITY_BUMP :: u8 where "EVENT_AUTHORITY_BUMP \<equiv> 254"
abbreviation (input) EVENT_DISCRIMINATOR :: u8 where "EVENT_DISCRIMINATOR \<equiv> 255"

abbreviation (input) MAX_TIERS :: nat where "MAX_TIERS \<equiv> 8"
abbreviation (input) MAX_COUNT :: nat where "MAX_COUNT \<equiv> 10"

abbreviation (input) TIER_LEN :: nat where "TIER_LEN \<equiv> 8"
abbreviation (input) POOL_LEN :: nat where "POOL_LEN \<equiv> 256"
abbreviation (input) ITEM_LEN :: nat where "ITEM_LEN \<equiv> 72"
abbreviation (input) OUTCOME_LEN :: nat where "OUTCOME_LEN \<equiv> 33"
abbreviation (input) PULL_LEN :: nat where "PULL_LEN \<equiv> 450"

lemma layout_lengths:
  "POOL_LEN = 192 + MAX_TIERS * TIER_LEN" "PULL_LEN = 120 + MAX_COUNT * OUTCOME_LEN"
  by simp_all

abbreviation (input) STATUS_PENDING :: u8 where "STATUS_PENDING \<equiv> 0"
abbreviation (input) STATUS_SETTLED :: u8 where "STATUS_SETTLED \<equiv> 1"
abbreviation (input) DELIVERED :: u8 where "DELIVERED \<equiv> 255"

abbreviation (input) INVENTORY_TAGS_PER_BLOCK :: nat where "INVENTORY_TAGS_PER_BLOCK \<equiv> 64"
abbreviation (input) INVENTORY_COUNTS_LEN :: nat where "INVENTORY_COUNTS_LEN \<equiv> 32"
abbreviation (input) INVENTORY_BLOCK_LEN :: nat where "INVENTORY_BLOCK_LEN \<equiv> 96"

definition div_ceil :: "nat \<Rightarrow> nat \<Rightarrow> nat" where
  "div_ceil a b = a div b + (if a mod b = 0 then 0 else 1)"

definition inventory_space :: "u32 \<Rightarrow> nat" where
  "inventory_space positions = div_ceil (unat positions) INVENTORY_TAGS_PER_BLOCK * INVENTORY_BLOCK_LEN"

text \<open>The program's address (\<open>ID\<close>) and the Metaplex Core program's (\<open>CORE_ID\<close>).\<close>

definition ID :: pubkey where
  "ID = from_le
    [52, 75, 105, 245, 14, 203, 44, 28, 98, 103, 57, 95, 179, 60, 144, 131,
     15, 254, 88, 75, 149, 8, 242, 117, 191, 44, 23, 139, 124, 104, 165, 255]"

definition CORE_ID :: pubkey where
  "CORE_ID = from_le
    [175, 84, 171, 16, 189, 151, 165, 66, 160, 158, 247, 179, 152, 137, 221, 12, 211, 148, 164,
     204, 233, 223, 166, 205, 201, 126, 190, 45, 35, 91, 167, 72]"

end
