(* ===== verification/Core_Asset.thy ===== *)
theory Core_Asset
  imports Core_Errors
begin

section \<open>gacha-core: Core assets and the buyback quote\<close>

text \<open>
  \<open>CoreAsset::from_account\<close> (\<open>packages/gacha-core/src/asset.rs\<close>), the header of a Metaplex Core
  asset that routes transfers, and \<open>buyback_message\<close> (\<open>lib.rs\<close>), the bytes that the pool authority
  signs. The message is a fixed-width concatenation, so it determines every term of the quote.
\<close>

record core_asset =
  asset_owner :: pubkey
  asset_collection :: "pubkey option"

text \<open>\<open>data.get(34..66)\<close> is \<open>None\<close> when the slice is out of bounds.\<close>

definition core_asset_from_account :: "pubkey \<Rightarrow> bytes \<Rightarrow> gacha_error + core_asset" where
  "core_asset_from_account owner data =
     (if owner \<noteq> CORE_ID \<or> length data < 34 \<or> data ! 0 \<noteq> 1 then Inl InvalidAsset
      else and_then
        (let kind = data ! 33 in
         if kind = 0 then Inr None
         else if kind = 1 \<or> kind = 2 then
           and_then (ok_or (if 66 \<le> length data then Some (slice 34 32 data) else None) InvalidAsset)
             (\<lambda>key. Inr (if kind = 2 then Some (from_le key) else None))
         else Inl InvalidAsset)
        (\<lambda>collection. Inr \<lparr>asset_owner = from_le (slice 1 32 data), asset_collection = collection\<rparr>))"

text \<open>The bytes of \<open>b"gacha:buyback:v1"\<close>.\<close>

definition BUYBACK_DOMAIN :: bytes where
  "BUYBACK_DOMAIN = [103, 97, 99, 104, 97, 58, 98, 117, 121, 98, 97, 99, 107, 58, 118, 49]"

definition buyback_message :: "pubkey \<Rightarrow> pubkey \<Rightarrow> u64 \<Rightarrow> i64 \<Rightarrow> u8 \<Rightarrow> bytes" where
  "buyback_message pool asset price expires_at tier =
     BUYBACK_DOMAIN @ to_le ID @ to_le pool @ to_le asset @ to_le price @ to_le expires_at @ [tier]"

lemma to_le_inject_u64: "to_le (a :: u64) = to_le b \<longleftrightarrow> a = b"
  by (metis from_le_to_le_widths(3))

lemma to_le_inject_u32: "to_le (a :: u32) = to_le b \<longleftrightarrow> a = b"
  by (metis from_le_to_le_widths(2))

lemma to_le_inject_key: "to_le (a :: bytes32) = to_le b \<longleftrightarrow> a = b"
  by (metis from_le_to_le_widths(4))

text \<open>
  C32: a quote cannot be replayed with other terms. The signed message is 129 bytes, and two messages
  are equal only if pool, asset, price, expiry and tier all agree.
\<close>

theorem buyback_message_injective:
  "length (buyback_message pool asset price expires_at tier) = 129 \<and>
   (buyback_message pool asset price expires_at tier = buyback_message pool' asset' price' expires_at' tier' \<longleftrightarrow>
    pool = pool' \<and> asset = asset' \<and> price = price' \<and> expires_at = expires_at' \<and> tier = tier')"
  by (auto simp: buyback_message_def BUYBACK_DOMAIN_def to_le_inject_u64 to_le_inject_key)

text \<open>
  The header of an AssetV1 account: the key byte 1, the owner and the update authority, which is
  none, an address or a collection. Only a collection routes the transfer.
\<close>

datatype update_authority = No_Authority | Address pubkey | Collection pubkey

primrec authority_bytes :: "update_authority \<Rightarrow> bytes" where
  "authority_bytes No_Authority = [0]"
| "authority_bytes (Address key) = 1 # to_le key"
| "authority_bytes (Collection key) = 2 # to_le key"

primrec routed_collection :: "update_authority \<Rightarrow> pubkey option" where
  "routed_collection No_Authority = None"
| "routed_collection (Address key) = None"
| "routed_collection (Collection key) = Some key"

definition core_header :: "pubkey \<Rightarrow> update_authority \<Rightarrow> bytes" where
  "core_header owner authority = 1 # to_le owner @ authority_bytes authority"

lemma core_header_accepted:
  "core_asset_from_account CORE_ID (core_header who authority @ rest) =
   Inr \<lparr>asset_owner = who, asset_collection = routed_collection authority\<rparr>"
  by (cases authority)
    (simp_all add: core_asset_from_account_def core_header_def Let_def slice_def nth_append nth_Cons')

text \<open>Thirty-two bytes inside the data are the bytes of the key that they decode to.\<close>

lemma key_bytes: "off + 32 \<le> length data \<Longrightarrow> drop off data = to_le (from_le (slice off 32 data) :: bytes32) @ drop (off + 32) data"
  by (simp add: slice_def add.commute [of off] flip: drop_drop)

lemma core_asset_accepted:
  assumes "core_asset_from_account owner data = Inr a"
  shows "owner = CORE_ID \<and>
    (\<exists>authority rest. data = core_header (asset_owner a) authority @ rest \<and> asset_collection a = routed_collection authority)"
proof -
  from assms have own: "owner = CORE_ID" "34 \<le> length data" "data ! 0 = 1"
    by (auto simp: core_asset_from_account_def split: if_splits)
  then have "data \<noteq> []" by auto
  then have data: "data = 1 # to_le (from_le (slice 1 32 data) :: bytes32) @ data ! 33 # drop 34 data"
    using own key_bytes [of 1 data] Cons_nth_drop_Suc [of 0 data] Cons_nth_drop_Suc [of 33 data] by simp
  have who: "asset_owner a = from_le (slice 1 32 data)"
    using assms by (auto simp: core_asset_from_account_def split: if_splits)
  consider "data ! 33 = 0" "asset_collection a = None"
    | "data ! 33 = 1" "66 \<le> length data" "asset_collection a = None"
    | "data ! 33 = 2" "66 \<le> length data" "asset_collection a = Some (from_le (slice 34 32 data))"
    using assms by (auto simp: core_asset_from_account_def Let_def split: if_splits)
  then obtain authority rest where
    "data ! 33 # drop 34 data = authority_bytes authority @ rest" "asset_collection a = routed_collection authority"
  proof cases
    case 1
    then show thesis using that [of No_Authority "drop 34 data"] by simp
  next
    case 2
    then show thesis using that [of "Address (from_le (slice 34 32 data))" "drop 66 data"] key_bytes [of 34 data] by simp
  next
    case 3
    then show thesis using that [of "Collection (from_le (slice 34 32 data))" "drop 66 data"] key_bytes [of 34 data] by simp
  qed
  then have "data = core_header (asset_owner a) authority @ rest" using data who by (simp add: core_header_def)
  then show ?thesis using own(1) \<open>asset_collection a = routed_collection authority\<close> by blast
qed

lemma core_asset_error: "core_asset_from_account owner data = Inl e \<Longrightarrow> e = InvalidAsset"
  by (auto simp: core_asset_from_account_def Let_def split: if_splits)

text \<open>
  C33: the view of a Core asset accepts exactly the AssetV1 accounts and reads back what they say. It
  succeeds if and only if the account belongs to the Core program and starts with an AssetV1 header,
  whatever follows; owner and collection are the header's, and an update authority that is an address
  routes no collection. Every other account is \<open>InvalidAsset\<close>: another program, another key byte, an
  unknown kind of authority or a header that is cut short.
\<close>

theorem core_asset_roundtrip:
  "(core_asset_from_account owner data = Inr a \<longleftrightarrow>
     owner = CORE_ID \<and> (\<exists>authority rest. data = core_header (asset_owner a) authority @ rest \<and>
       asset_collection a = routed_collection authority)) \<and>
   (core_asset_from_account owner data = Inl e \<longleftrightarrow>
     e = InvalidAsset \<and> \<not> (owner = CORE_ID \<and> (\<exists>who authority rest. data = core_header who authority @ rest)))"
proof
  show iff: "core_asset_from_account owner data = Inr a \<longleftrightarrow>
     owner = CORE_ID \<and> (\<exists>authority rest. data = core_header (asset_owner a) authority @ rest \<and>
       asset_collection a = routed_collection authority)" for a
    using core_asset_accepted [of owner data a] core_header_accepted [of "asset_owner a"] by (cases a) auto
  show "core_asset_from_account owner data = Inl e \<longleftrightarrow>
     e = InvalidAsset \<and> \<not> (owner = CORE_ID \<and> (\<exists>who authority rest. data = core_header who authority @ rest))"
    using core_asset_error [of owner data] core_header_accepted core_asset_accepted [of owner data]
    by (cases "core_asset_from_account owner data") auto
qed

end
