(* ===== verification/Fenwick.thy ===== *)
theory Fenwick
  imports Prelude
begin

section \<open>Arithmetic of Fenwick nodes\<close>

text \<open>
  The program walks its availability index with \<open>n & (n - 1)\<close> and \<open>n & n.wrapping_neg()\<close>
  (\<open>program/src/inventory.rs\<close>). Both are expressed through the lowest set bit \<open>lowbit n\<close>: node
  \<open>n\<close> (1-based) covers the blocks from \<open>n - lowbit n\<close> to \<open>n - 1\<close>, and the nodes that cover the
  block before node \<open>i\<close> are exactly \<open>i\<close>, \<open>i + lowbit i\<close>, and so on.
\<close>

fun lowbit :: "nat \<Rightarrow> nat" where
  "lowbit n = (if n = 0 then 0 else if odd n then 1 else 2 * lowbit (n div 2))"

declare lowbit.simps [simp del]

lemma lowbit_odd: "lowbit (2 * c + 1) = 1"
  by (subst lowbit.simps) simp

lemma lowbit_double: "lowbit (2 * n) = 2 * lowbit n"
  by (cases "n = 0") (subst lowbit.simps, simp add: lowbit.simps [of 0])+

lemma lowbit_form_eq: "lowbit (2 ^ k * (2 * c + 1)) = 2 ^ k"
  by (induction k) (simp_all only: lowbit_odd lowbit_double power_Suc mult.assoc power_0 mult_1)

lemma lowbit_form:
  assumes "0 < n"
  obtains k c where "n = 2 ^ k * (2 * c + 1)" "lowbit n = 2 ^ k"
proof -
  have "\<exists>k c. n = 2 ^ k * (2 * c + 1)"
    using assms
  proof (induction n rule: less_induct)
    case (less n)
    show ?case
    proof (cases "odd n")
      case True
      then obtain c where "n = 2 ^ 0 * (2 * c + 1)" by (auto elim: oddE)
      then show ?thesis by blast
    next
      case False
      then obtain m where m: "n = 2 * m" by (auto elim: evenE)
      with less.prems have "m < n" "0 < m" by simp_all
      then obtain k c where "m = 2 ^ k * (2 * c + 1)" using less.IH by blast
      with m have "n = 2 ^ Suc k * (2 * c + 1)" by simp
      then show ?thesis by blast
    qed
  qed
  then show ?thesis using that lowbit_form_eq by blast
qed

lemma lowbit_pos: "0 < n \<Longrightarrow> 0 < lowbit n"
  by (rule lowbit_form) auto

lemma lowbit_le: "lowbit n \<le> n"
  by (cases "n = 0", simp add: lowbit.simps, rule lowbit_form [of n]) auto

subsection \<open>The bit tricks\<close>

lemma and_double: "(2 * a) AND (2 * b) = 2 * (a AND b :: nat)"
  "(2 * a + 1) AND (2 * b) = 2 * (a AND b)"
  "(2 * a) AND (2 * b + 1) = 2 * (a AND b)"
  "(2 * a + 1) AND (2 * b + 1) = 2 * (a AND b) + 1"
  by (subst and_rec, simp)+

lemma and_pred: "n AND (n - 1) = n - lowbit n"
proof (induction n rule: less_induct)
  case (less n)
  show ?case
  proof (cases "odd n")
    case True
    then obtain c where n: "n = 2 * c + 1" by (rule oddE)
    have "(2 * c + 1) AND (2 * c) = 2 * c" by (simp only: and_double and.idem)
    then show ?thesis using n lowbit_odd [of c] by simp
  next
    case False
    then obtain m where n: "n = 2 * m" by (auto elim: evenE)
    show ?thesis
    proof (cases "m = 0")
      case True
      with n show ?thesis by simp
    next
      case m: False
      then have "2 * m - 1 = 2 * (m - 1) + 1" by simp
      then have "(2 * m) AND (2 * m - 1) = 2 * (m AND (m - 1))" by (simp only: and_double)
      also have "m AND (m - 1) = m - lowbit m" using less [of m] n m by simp
      finally show ?thesis using n by (simp add: lowbit_double)
    qed
  qed
qed

lemma and_pred_less: "0 < n \<Longrightarrow> n AND (n - 1) < (n :: nat)"
  using and_pred [of n] lowbit_pos [of n] by simp

lemma and_complement: "m < 2 ^ j \<Longrightarrow> m AND (2 ^ j - 1 - m) = (0 :: nat)"
proof (induction j arbitrary: m)
  case (Suc j)
  let ?h = "m div 2"
  have h: "?h < 2 ^ j" using Suc.prems by (simp add: less_mult_imp_div_less)
  show ?case
  proof (cases "odd m")
    case True
    then have m: "m = 2 * ?h + 1" by simp
    have "2 ^ Suc j - 1 - m = 2 * (2 ^ j - 1 - ?h)" using h m by (simp add: algebra_simps)
    then have "m AND (2 ^ Suc j - 1 - m) = 2 * (?h AND (2 ^ j - 1 - ?h))"
      using and_double(2) [of ?h "2 ^ j - 1 - ?h"] m by simp
    with Suc.IH [OF h] show ?thesis by simp
  next
    case False
    then have m: "m = 2 * ?h" by simp
    have "2 ^ Suc j - 1 - m = 2 * (2 ^ j - 1 - ?h) + 1" using h m by (simp add: algebra_simps)
    then have "m AND (2 ^ Suc j - 1 - m) = 2 * (?h AND (2 ^ j - 1 - ?h))"
      using and_double(3) [of ?h "2 ^ j - 1 - ?h"] m by simp
    with Suc.IH [OF h] show ?thesis by simp
  qed
qed simp

lemma and_neg: "0 < n \<Longrightarrow> n < 2 ^ k \<Longrightarrow> n AND (2 ^ k - n) = lowbit n"
proof (induction k arbitrary: n)
  case (Suc k)
  show ?case
  proof (cases "odd n")
    case True
    then obtain c where n: "n = 2 * c + 1" by (rule oddE)
    with Suc.prems have c: "c < 2 ^ k" by simp
    then have "2 ^ Suc k - n = 2 * (2 ^ k - 1 - c) + 1" using n by (simp add: algebra_simps)
    then have "n AND (2 ^ Suc k - n) = 2 * (c AND (2 ^ k - 1 - c)) + 1"
      using and_double(4) [of c "2 ^ k - 1 - c"] n by simp
    then show ?thesis using and_complement [OF c] n lowbit_odd [of c] by simp
  next
    case False
    then obtain c where n: "n = 2 * c" by (auto elim: evenE)
    with Suc.prems have c: "0 < c" "c < 2 ^ k" by simp_all
    have "2 ^ Suc k - n = 2 * (2 ^ k - c)" using n by simp
    then have "n AND (2 ^ Suc k - n) = 2 * (c AND (2 ^ k - c))"
      using and_double(1) [of c "2 ^ k - c"] n by simp
    then show ?thesis using Suc.IH [OF c] n by (simp add: lowbit_double)
  qed
qed simp

lemma and_wrapping_neg:
  assumes "0 < n" "n < 2 ^ 64"
  shows "n AND wrapping_neg_usize n = lowbit n"
proof -
  have "wrapping_neg_usize n = 2 ^ 64 - n"
    unfolding wrapping_neg_usize_def using assms by (subst (2) mod_less) auto
  then show ?thesis using and_neg [OF assms] by simp
qed

subsection \<open>Which nodes cover a block\<close>

text \<open>\<open>covers m i\<close>: node \<open>m\<close> counts block \<open>i - 1\<close>.\<close>

definition covers :: "nat \<Rightarrow> nat \<Rightarrow> bool" where
  "covers m i \<longleftrightarrow> m - lowbit m < i \<and> i \<le> m"

lemma covers_self: "0 < i \<Longrightarrow> covers i i"
  by (simp add: covers_def lowbit_pos)

lemma covers_above: "i < j \<Longrightarrow> \<not> covers i j"
  by (simp add: covers_def)

lemma covers_step_up:
  assumes "0 < i" "i < m" "covers m i"
  shows "covers m (i + lowbit i)"
proof -
  from assms(1,2) obtain k c where m: "m = 2 ^ k * (2 * c + 1)" "lowbit m = 2 ^ k"
    by (elim lowbit_form [of m, rotated]) simp
  obtain j e where i: "i = 2 ^ j * (2 * e + 1)" "lowbit i = 2 ^ j"
    using lowbit_form [OF assms(1)] by blast
  have lo: "2 ^ k * (2 * c) < i" using assms(3) m by (simp add: covers_def algebra_simps)
  have "j < k"
  proof (rule ccontr)
    assume "\<not> j < k"
    then have "2 ^ j = (2 ^ k * 2 ^ (j - k) :: nat)" by (simp flip: power_add)
    then have "i = 2 ^ k * (2 ^ (j - k) * (2 * e + 1))" using i(1) by (simp only: mult.assoc)
    then obtain x where x: "i = 2 ^ k * x" by blast
    with lo have "2 * c < x" by simp
    moreover have "2 ^ k * x < 2 ^ k * (2 * c + 1)" using x m(1) assms(2) by metis
    then have "x < 2 * c + 1" by (simp only: nat_mult_less_cancel_disj)
    ultimately show False by simp
  qed
  then have "2 ^ k = (2 ^ Suc j * 2 ^ (k - Suc j) :: nat)"
    by (metis Suc_leI le_add_diff_inverse power_add)
  then have "2 ^ k = 2 ^ j * (2 * 2 ^ (k - Suc j) :: nat)" by simp
  then have "m = 2 ^ j * (2 * (2 ^ (k - Suc j) * (2 * c + 1)))"
    using m(1) by (simp only: mult.assoc)
  then obtain M where M: "m = 2 ^ j * (2 * M)" by blast
  then have "2 ^ j * (2 * e + 1) < 2 ^ j * (2 * M)" using assms(2) i(1) by metis
  then have "2 * e + 1 < 2 * M" by (simp only: nat_mult_less_cancel_disj)
  then have "2 * e + 2 \<le> 2 * M" by simp
  then have "2 ^ j * (2 * e + 2) \<le> m" unfolding M by (rule mult_le_mono2)
  moreover have "i + lowbit i = 2 ^ j * (2 * e + 2)" using i by (simp add: algebra_simps)
  ultimately show ?thesis using assms(3) by (simp add: covers_def)
qed

lemma covers_step_down:
  assumes "0 < i" "covers m (i + lowbit i)"
  shows "covers m i \<and> i < m"
proof -
  have "0 < m" using assms by (simp add: covers_def)
  then obtain k c where m: "m = 2 ^ k * (2 * c + 1)" "lowbit m = 2 ^ k"
    using lowbit_form by blast
  obtain j e where i: "i = 2 ^ j * (2 * e + 1)" "lowbit i = 2 ^ j"
    using lowbit_form [OF assms(1)] by blast
  have nxt: "i + lowbit i = 2 ^ Suc j * (e + 1)" using i by (simp add: algebra_simps)
  have lo: "2 ^ Suc k * c < 2 ^ Suc j * (e + 1)" and hi: "2 ^ Suc j * (e + 1) \<le> m"
    using assms(2) m nxt by (simp_all add: covers_def algebra_simps)
  have jk: "j < k"
  proof (rule ccontr)
    assume "\<not> j < k"
    then have "2 ^ Suc j = (2 ^ Suc k * 2 ^ (j - k) :: nat)" by (simp flip: power_add)
    then have "2 ^ Suc j * (e + 1) = 2 ^ Suc k * (2 ^ (j - k) * (e + 1))"
      by (simp only: mult.assoc)
    then obtain x where x: "2 ^ Suc j * (e + 1) = 2 ^ Suc k * x" by blast
    then have "c < x" using lo by (metis mult_less_cancel1)
    moreover have "2 ^ k * (2 * x) \<le> 2 ^ k * (2 * c + 1)" using x hi m(1) by simp
    then have "2 * x \<le> 2 * c + 1" by (simp only: nat_mult_le_cancel_disj) simp
    ultimately show False by simp
  qed
  have "2 ^ Suc k = (2 ^ Suc j * 2 ^ (k - j) :: nat)" using jk by (simp flip: power_add)
  then have "2 ^ Suc k * c = 2 ^ Suc j * (2 ^ (k - j) * c)" by (simp only: mult.assoc)
  then obtain y where y: "2 ^ Suc k * c = 2 ^ Suc j * y" by blast
  then have "y < e + 1" using lo by (metis mult_less_cancel1)
  then have "2 ^ Suc j * y \<le> 2 ^ j * (2 * e)" by simp
  also have "\<dots> < i" using i(1) by simp
  finally have "m - lowbit m < i" using y m by (simp add: algebra_simps)
  moreover have "i < m" using assms hi nxt lowbit_pos [OF assms(1)] by simp
  ultimately show ?thesis by (simp add: covers_def)
qed

lemma covers_step: "0 < i \<Longrightarrow> covers m i \<longleftrightarrow> m = i \<or> covers m (i + lowbit i)"
  using covers_step_up [of i m] covers_step_down [of i m] covers_self [of i] by (auto simp: covers_def)

subsection \<open>The node of a given size that covers a block\<close>

lemma lowbit_node: "lowbit (2 ^ s * (2 * c) + 2 ^ s) = 2 ^ s"
  using lowbit_form_eq [of s c] by (simp add: algebra_simps)

lemma div_pow_Suc: "b div 2 ^ Suc s = (b div 2 ^ s) div (2 :: nat)"
  by (simp add: div_mult2_eq [symmetric] mult.commute)

lemma covers_size:
  assumes "lowbit m = 2 ^ s" "0 < m" "covers m (b + 1)"
  shows "m = 2 ^ Suc s * (b div 2 ^ Suc s) + 2 ^ s"
proof -
  obtain k c where m: "m = 2 ^ k * (2 * c + 1)" "lowbit m = 2 ^ k"
    using lowbit_form [OF assms(2)] by blast
  then have ks: "k = s" using assms(1) by simp
  with m assms(3) have "2 ^ Suc s * c \<le> b" "b < 2 ^ Suc s * c + 2 ^ s"
    by (simp_all add: covers_def algebra_simps)
  then have "b div 2 ^ Suc s = c"
    by (intro div_nat_eqI) (simp_all add: algebra_simps)
  with m ks show ?thesis by (simp add: algebra_simps)
qed

fun next_power_of_two :: "nat \<Rightarrow> nat" where
  "next_power_of_two n = (if n \<le> 1 then 1 else 2 * next_power_of_two ((n + 1) div 2))"

declare next_power_of_two.simps [simp del]

lemma next_power_of_two:
  obtains s where "next_power_of_two n = 2 ^ s" "n \<le> 2 ^ s"
proof -
  have "\<exists>s. next_power_of_two n = 2 ^ s \<and> n \<le> 2 ^ s"
  proof (induction n rule: next_power_of_two.induct)
    case (1 n)
    show ?case
    proof (cases "n \<le> 1")
      case True
      then show ?thesis by (intro exI [of _ 0]) (simp add: next_power_of_two.simps [of n])
    next
      case False
      then obtain s where "next_power_of_two ((n + 1) div 2) = 2 ^ s" "(n + 1) div 2 \<le> 2 ^ s"
        using "1.IH" by blast
      moreover from this have "n \<le> 2 ^ Suc s" by simp
      ultimately show ?thesis using False
        by (intro exI [of _ "Suc s"]) (simp add: next_power_of_two.simps [of n])
    qed
  qed
  then show ?thesis using that by blast
qed

end
