(* ===== verification/Inventory.thy ===== *)
theory Inventory
  imports Fenwick Core_Errors
begin

section \<open>The availability index\<close>

text \<open>
  \<open>struct Inventory\<close> of \<open>program/src/inventory.rs\<close>: the bytes that follow the pool header. Each
  96-byte block holds eight 32-bit Fenwick counts, one per tier, and 64 tier tags (zero for a
  removed or unused position). The operations are translated over the bytes, with every slice
  that can be out of bounds and every overflow a \<open>Panic\<close>; \<open>&mut self\<close> is the returned bytes.
\<close>

definition index_blocks :: "bytes \<Rightarrow> nat" where
  "index_blocks d = length d div INVENTORY_BLOCK_LEN"

definition node_count :: "bytes \<Rightarrow> nat \<Rightarrow> nat \<Rightarrow> u32 result" where
  "node_count d node tier =
     and_then (sub_usize node 1) (\<lambda>n.
     let start = n * INVENTORY_BLOCK_LEN + tier * 4 in
     if start + 4 \<le> length d then Inr (from_le (slice start 4 d)) else Inl Panic)"

definition set_node_count :: "bytes \<Rightarrow> nat \<Rightarrow> nat \<Rightarrow> u32 \<Rightarrow> bytes result" where
  "set_node_count d node tier count =
     and_then (sub_usize node 1) (\<lambda>n.
     let start = n * INVENTORY_BLOCK_LEN + tier * 4 in
     if start + 4 \<le> length d then Inr (splice_at start (to_le count) d) else Inl Panic)"

text \<open>The inner \<open>for\<close> of \<open>prefix_counts\<close>, then its \<open>while\<close>.\<close>

definition add_node_counts :: "bytes \<Rightarrow> nat \<Rightarrow> u32 list \<Rightarrow> u32 list result" where
  "add_node_counts d node counts =
     map_res (\<lambda>(tier, count). and_then (node_count d node tier) (add_ov count)) (enumerate 0 counts)"

function prefix_loop :: "bytes \<Rightarrow> nat \<Rightarrow> u32 list \<Rightarrow> u32 list result" where
  "prefix_loop d blocks counts =
     (if blocks = 0 then Inr counts
      else and_then (add_node_counts d blocks counts) (\<lambda>counts.
        prefix_loop d (blocks AND (blocks - 1)) counts))"
  by pat_completeness auto
termination
  by (relation "measure (\<lambda>(d, blocks, counts). blocks)") (simp_all add: and_pred_less del: One_nat_def)

definition prefix_counts :: "bytes \<Rightarrow> nat \<Rightarrow> u32 list result" where
  "prefix_counts d blocks = prefix_loop d blocks (replicate MAX_TIERS 0)"

definition count_tag :: "u32 list \<Rightarrow> u8 \<Rightarrow> u32 list result" where
  "count_tag counts tag =
     (if tag = 0 then Inr counts
      else let i = unat tag - 1 in
        if i < length counts then and_then (add_ov (counts ! i) 1) (\<lambda>c. Inr (counts[i := c]))
        else Inl Panic)"

definition index_counts :: "bytes \<Rightarrow> u32 \<Rightarrow> u32 list result" where
  "index_counts d cutoff =
     (let blocks = unat cutoff div INVENTORY_TAGS_PER_BLOCK;
          tail = unat cutoff mod INVENTORY_TAGS_PER_BLOCK in
      and_then (prefix_counts d blocks) (\<lambda>counts.
      let start = blocks * INVENTORY_BLOCK_LEN + INVENTORY_COUNTS_LEN in
      if 0 < tail
      then (if start + tail \<le> length d then fold_res count_tag counts (slice start tail d) else Inl Panic)
      else Inr counts))"

text \<open>\<open>append\<close>: a new block's node is first set to the counts of the older blocks it covers.\<close>

definition init_node :: "bytes \<Rightarrow> nat \<Rightarrow> bytes result" where
  "init_node d block =
     (let node = block + 1 in
      and_then (prefix_counts d block) (\<lambda>end_counts.
      and_then (prefix_counts d (node AND (node - 1))) (\<lambda>start_counts.
      fold_res (\<lambda>d tier.
        if tier < length end_counts \<and> tier < length start_counts
        then and_then (sub_ov (end_counts ! tier) (start_counts ! tier)) (set_node_count d node tier)
        else Inl Panic) d [0..<MAX_TIERS])))"

lemma length_set_node_count: "set_node_count d node tier c = Inr d' \<Longrightarrow> length d' = length d"
  by (auto simp: set_node_count_def Let_def split: if_splits)

lemma chain_decreases:
  assumes "node + (node AND wrapping_neg_usize node) < 18446744073709551616" "Suc 0 \<le> node"
    and "node \<le> blocks"
  shows "Suc blocks - (node + (node AND wrapping_neg_usize node)) < Suc blocks - node"
  using assms and_wrapping_neg [of node] lowbit_pos [of node] by simp

function increment_chain :: "bytes \<Rightarrow> nat \<Rightarrow> nat \<Rightarrow> bytes result" where
  "increment_chain d node tier =
     (if node \<le> index_blocks d
      then and_then (node_count d node tier) (\<lambda>c.
           and_then (add_ov c 1) (\<lambda>c.
           and_then (set_node_count d node tier c) (\<lambda>d.
           and_then (add_usize node (node AND wrapping_neg_usize node)) (\<lambda>node.
           increment_chain d node tier))))
      else Inr d)"
  by pat_completeness auto
termination
  by (relation "measure (\<lambda>(d, node, tier). Suc (index_blocks d) - node)")
     (auto simp: index_blocks_def node_count_def Let_def dest!: length_set_node_count
       split: if_splits intro!: chain_decreases)

definition index_append :: "bytes \<Rightarrow> u32 \<Rightarrow> u8 \<Rightarrow> bytes result" where
  "index_append d position tier =
     (let block = unat position div INVENTORY_TAGS_PER_BLOCK;
          offset = unat position mod INVENTORY_TAGS_PER_BLOCK;
          node = block + 1 in
      and_then (if offset = 0 then init_node d block else Inr d) (\<lambda>d.
      and_then (add_ov tier 1) (\<lambda>tag.
      let at = block * INVENTORY_BLOCK_LEN + INVENTORY_COUNTS_LEN + offset in
      if at < length d then increment_chain (d[at := tag]) node (unat tier) else Inl Panic)))"

text \<open>\<open>take\<close>: the Fenwick descent, then the scan of the selected block's tags.\<close>

function descend :: "bytes \<Rightarrow> nat \<Rightarrow> u32 \<Rightarrow> nat \<Rightarrow> nat \<Rightarrow> (bytes \<times> nat \<times> u32) result" where
  "descend d node rank step tier =
     (if step = 0 then Inr (d, node, rank)
      else and_then (add_usize node step) (\<lambda>nxt.
        and_then
          (if nxt \<le> index_blocks d
           then and_then (node_count d nxt tier) (\<lambda>count.
             if count \<le> rank
             then and_then (sub_ov rank count) (\<lambda>rank. Inr (d, nxt, rank))
             else and_then (sub_ov count 1) (\<lambda>count.
                  and_then (set_node_count d nxt tier count) (\<lambda>d. Inr (d, node, rank))))
           else Inr (d, node, rank))
          (\<lambda>(d, node, rank). descend d node rank (step div 2) tier)))"
  by pat_completeness auto
termination
  by (relation "measure (\<lambda>(d, node, rank, step, tier). step)") auto

fun scan_tags :: "bytes \<Rightarrow> u8 \<Rightarrow> u32 \<Rightarrow> nat \<Rightarrow> nat result" where
  "scan_tags [] tier rank offset = Inl (gerr InvalidItem)"
| "scan_tags (tag # tags) tier rank offset =
     and_then (add_ov tier 1) (\<lambda>wanted.
     if tag \<noteq> wanted then scan_tags tags tier rank (Suc offset)
     else if rank \<noteq> 0 then and_then (sub_ov rank 1) (\<lambda>rank. scan_tags tags tier rank (Suc offset))
     else Inr offset)"

definition index_take :: "bytes \<Rightarrow> u8 \<Rightarrow> u32 \<Rightarrow> (bytes \<times> u32) result" where
  "index_take d tier rank =
     (let blocks = index_blocks d in
      and_then (descend d 0 rank (next_power_of_two blocks) (unat tier)) (\<lambda>(d, node, rank).
      if node = blocks then Inl (gerr InvalidItem)
      else let start = node * INVENTORY_BLOCK_LEN + INVENTORY_COUNTS_LEN in
        if start + INVENTORY_TAGS_PER_BLOCK \<le> length d
        then and_then (scan_tags (slice start INVENTORY_TAGS_PER_BLOCK d) tier rank 0) (\<lambda>offset.
             Inr (d[start + offset := 0], word_of_nat (node * INVENTORY_TAGS_PER_BLOCK + offset)))
        else Inl Panic))"

text \<open>\<open>remove\<close>: \<open>get_mut\<close> and \<open>checked_sub\<close> turn a miss into \<open>InvalidItem\<close>.\<close>

function decrement_chain :: "bytes \<Rightarrow> nat \<Rightarrow> nat \<Rightarrow> bytes result" where
  "decrement_chain d node tier =
     (if node \<le> index_blocks d
      then and_then (node_count d node tier) (\<lambda>c.
           and_then (ok_or (checked_sub c 1) (gerr InvalidItem)) (\<lambda>c.
           and_then (set_node_count d node tier c) (\<lambda>d.
           and_then (add_usize node (node AND wrapping_neg_usize node)) (\<lambda>node.
           decrement_chain d node tier))))
      else Inr d)"
  by pat_completeness auto
termination
  by (relation "measure (\<lambda>(d, node, tier). Suc (index_blocks d) - node)")
     (auto simp: index_blocks_def node_count_def Let_def dest!: length_set_node_count
       split: if_splits intro!: chain_decreases)

definition index_remove :: "bytes \<Rightarrow> u32 \<Rightarrow> u8 \<Rightarrow> bytes result" where
  "index_remove d position tier =
     (let block = unat position div INVENTORY_TAGS_PER_BLOCK;
          offset = unat position mod INVENTORY_TAGS_PER_BLOCK;
          at = block * INVENTORY_BLOCK_LEN + INVENTORY_COUNTS_LEN + offset in
      if length d \<le> at then Inl (gerr InvalidItem)
      else and_then (add_ov tier 1) (\<lambda>wanted.
        if d ! at \<noteq> wanted then Inl (gerr InvalidItem)
        else decrement_chain (d[at := 0]) (block + 1) (unat tier)))"

declare prefix_loop.simps [simp del] increment_chain.simps [simp del]
  decrement_chain.simps [simp del] descend.simps [simp del]

end
