(* ===== verification/Inventory_Correct.thy ===== *)
theory Inventory_Correct
  imports Inventory
begin

section \<open>The availability index is a list of tags\<close>

text \<open>
  The abstract index is the list of tier tags by position (zero once removed). \<open>index_inv\<close>
  relates the bytes to it: every tag is at its place, and every Fenwick node holds, per tier, the
  number of available positions of the blocks it covers. Each operation of \<open>Inventory\<close> refines
  the corresponding operation of lists and keeps the relation, without a panic.
\<close>

definition tier_tag :: "nat \<Rightarrow> u8" where
  "tier_tag t = word_of_nat (t + 1)"

definition prefix_count :: "u8 list \<Rightarrow> nat \<Rightarrow> nat \<Rightarrow> nat" where
  "prefix_count tags t b = count_list (take b tags) (tier_tag t)"

definition node_cnt :: "bytes \<Rightarrow> nat \<Rightarrow> nat \<Rightarrow> u32" where
  "node_cnt d n t = from_le (slice ((n - 1) * 96 + t * 4) 4 d)"

definition write_cnt :: "bytes \<Rightarrow> nat \<Rightarrow> nat \<Rightarrow> u32 \<Rightarrow> bytes" where
  "write_cnt d n t c = splice_at ((n - 1) * 96 + t * 4) (to_le c) d"

definition tag_index :: "nat \<Rightarrow> nat" where
  "tag_index p = p div 64 * 96 + 32 + p mod 64"

definition nodes_ok :: "bytes \<Rightarrow> u8 list \<Rightarrow> nat \<Rightarrow> bool" where
  "nodes_ok d tags b \<longleftrightarrow> (\<forall>n t. 0 < n \<longrightarrow> n \<le> b \<longrightarrow> t < 8 \<longrightarrow>
     prefix_count tags t (64 * (n - lowbit n)) + unat (node_cnt d n t) = prefix_count tags t (64 * n))"

definition tags_ok :: "bytes \<Rightarrow> u8 list \<Rightarrow> bool" where
  "tags_ok d tags \<longleftrightarrow> length tags \<le> 64 * index_blocks d \<and> (\<forall>p < 64 * index_blocks d.
     d ! tag_index p = (if p < length tags then tags ! p else 0))"

definition index_inv :: "bytes \<Rightarrow> u8 list \<Rightarrow> bool" where
  "index_inv d tags \<longleftrightarrow>
     length d = 96 * index_blocks d \<and> length tags < 2 ^ 32 \<and> index_blocks d < 2 ^ 32 \<and>
     (\<forall>x \<in> set tags. unat x \<le> 8) \<and> tags_ok d tags \<and> nodes_ok d tags (index_blocks d)"

subsection \<open>Tags and prefix counts\<close>

lemma unat_tier_tag [simp]: "t < 8 \<Longrightarrow> unat (tier_tag t) = t + 1"
  by (simp add: tier_tag_def unat_of_nat del: of_nat_add of_nat_Suc)

lemma tier_tag_inject [simp]: "t < 8 \<Longrightarrow> s < 8 \<Longrightarrow> tier_tag t = tier_tag s \<longleftrightarrow> t = s"
  by (metis add_right_cancel unat_tier_tag)

lemma tier_tag_nonzero [simp]: "t < 8 \<Longrightarrow> tier_tag t \<noteq> 0" "t < 8 \<Longrightarrow> 0 \<noteq> tier_tag t"
  by (metis unat_0 unat_tier_tag Suc_eq_plus1 nat.distinct(1))+

lemma tag_cases: "unat (x :: u8) \<le> 8 \<Longrightarrow> x = 0 \<or> (\<exists>t < 8. x = tier_tag t \<and> unat x - 1 = t)"
proof -
  assume x: "unat x \<le> 8"
  show ?thesis
  proof (cases "x = 0")
    case False
    then have "0 < unat x" by (simp add: unat_gt_0)
    with x show ?thesis
      by (intro disjI2 exI [of _ "unat x - 1"]) (simp add: word_unat_eq_iff)
  qed simp
qed

lemma add_ov_tier: "unat tier < 8 \<Longrightarrow> add_ov tier 1 = Inr (tier_tag (unat tier))"
  by (simp add: add_ov_Inr)

lemma prefix_count_le: "prefix_count tags t b \<le> length tags"
  unfolding prefix_count_def by (rule le_trans [OF count_le_length]) simp

lemma prefix_count_0 [simp]: "prefix_count tags t 0 = 0"
  by (simp add: prefix_count_def)

lemma prefix_count_add:
  "prefix_count tags t (a + b) = prefix_count tags t a + count_list (take b (drop a tags)) (tier_tag t)"
  by (simp add: prefix_count_def take_add)

lemma prefix_count_mono: "a \<le> b \<Longrightarrow> prefix_count tags t a \<le> prefix_count tags t b"
  using prefix_count_add [of tags t a "b - a"] by simp

lemma prefix_count_Suc:
  "p < length tags \<Longrightarrow> prefix_count tags t (Suc p) = prefix_count tags t p + of_bool (tags ! p = tier_tag t)"
  by (simp add: prefix_count_def take_Suc_conv_app_nth)

lemma prefix_count_beyond: "length tags \<le> b \<Longrightarrow> prefix_count tags t b = count_list tags (tier_tag t)"
  by (simp add: prefix_count_def)

lemma prefix_count_append:
  "prefix_count (tags @ [x]) t b = prefix_count tags t b + of_bool (x = tier_tag t \<and> length tags < b)"
  by (cases "length tags < b") (auto simp: prefix_count_def)

lemma count_list_update:
  "p < length xs \<Longrightarrow> count_list (xs[p := y]) c + of_bool (xs ! p = c) = count_list xs c + of_bool (y = c)"
proof (induction xs arbitrary: p)
  case (Cons x xs)
  then show ?case by (cases p) auto
qed simp

lemma prefix_count_clear:
  assumes "p < length tags" "tags ! p = tier_tag s" "s < 8" "t < 8"
  shows "prefix_count (tags[p := 0]) t b + of_bool (t = s \<and> p < b) = prefix_count tags t b"
proof (cases "p < b")
  case True
  with assms count_list_update [of p "take b tags" 0 "tier_tag t"] show ?thesis
    by (auto simp: prefix_count_def take_update_swap)
next
  case False
  then show ?thesis by (simp add: prefix_count_def)
qed

subsection \<open>The bytes as an array of counts and tags\<close>

lemma index_blocks_le: "n \<le> index_blocks d \<Longrightarrow> 96 * n \<le> length d"
  by (simp add: index_blocks_def less_eq_div_iff_mult_less_eq mult.commute)

lemma node_in_range: "0 < n \<Longrightarrow> n \<le> index_blocks d \<Longrightarrow> t < 8 \<Longrightarrow> (n - 1) * 96 + t * 4 + 4 \<le> length d"
  using index_blocks_le [of n d] by (cases n) simp_all

lemma block_offset:
  assumes "r < (64 :: nat)"
  shows "96 * (q + 1) \<le> len \<Longrightarrow> q * 96 + 32 + r < len"
    and "(q * 96 + 32 + r) div 96 = q" and "(q * 96 + 32 + r) mod 96 = 32 + r"
  using assms mod_mult_self3 [of q 96 "32 + r"] by (simp_all add: add.assoc)

lemma tag_index_less: "p < 64 * index_blocks d \<Longrightarrow> tag_index p < length d"
proof -
  assume "p < 64 * index_blocks d"
  then have "p div 64 + 1 \<le> index_blocks d" by (simp add: less_mult_imp_div_less mult.commute)
  then have "96 * (p div 64 + 1) \<le> length d" by (rule index_blocks_le)
  then show ?thesis unfolding tag_index_def by (rule block_offset(1) [rotated]) simp
qed

lemma node_count_eq: "0 < n \<Longrightarrow> n \<le> index_blocks d \<Longrightarrow> t < 8 \<Longrightarrow> node_count d n t = Inr (node_cnt d n t)"
  using node_in_range [of n d t] by (simp add: node_count_def node_cnt_def Let_def sub_usize_def)

lemma set_node_count_eq:
  "0 < n \<Longrightarrow> n \<le> index_blocks d \<Longrightarrow> t < 8 \<Longrightarrow> set_node_count d n t c = Inr (write_cnt d n t c)"
  using node_in_range [of n d t] by (simp add: set_node_count_def write_cnt_def Let_def sub_usize_def)

lemma length_write_cnt [simp]:
  "0 < n \<Longrightarrow> n \<le> index_blocks d \<Longrightarrow> t < 8 \<Longrightarrow> length (write_cnt d n t c) = length d"
  using node_in_range [of n d t] by (simp add: write_cnt_def)

lemma index_blocks_write_cnt [simp]:
  "0 < n \<Longrightarrow> n \<le> index_blocks d \<Longrightarrow> t < 8 \<Longrightarrow> index_blocks (write_cnt d n t c) = index_blocks d"
  by (simp add: index_blocks_def [of "write_cnt d n t c"]) (simp add: index_blocks_def)

lemma node_cnt_write_cnt:
  assumes "0 < n" "n \<le> index_blocks d" "t < 8" "0 < m" "m \<le> index_blocks d" "s < 8"
  shows "node_cnt (write_cnt d n t c) m s = (if m = n \<and> s = t then c else node_cnt d m s)"
proof (cases "m = n \<and> s = t")
  case True
  then show ?thesis using node_in_range [OF assms(1-3)]
    by (simp add: node_cnt_def write_cnt_def slice_splice_at_same)
next
  case False
  then consider "m < n" | "n < m" | "m = n" "s < t" | "m = n" "t < s" by linarith
  then have "(m - 1) * 96 + s * 4 + 4 \<le> (n - 1) * 96 + t * 4 \<or> (n - 1) * 96 + t * 4 + 4 \<le> (m - 1) * 96 + s * 4"
    using assms by cases (cases m; cases n; simp)+
  then have "node_cnt (write_cnt d n t c) m s = node_cnt d m s"
    using node_in_range [OF assms(1-3)] node_in_range [OF assms(4-6)]
    unfolding node_cnt_def write_cnt_def by (subst slice_splice_at_other) auto
  with False show ?thesis by metis
qed

lemma tag_write_cnt:
  assumes "0 < n" "n \<le> index_blocks d" "t < 8" "p < 64 * index_blocks d"
  shows "write_cnt d n t c ! tag_index p = d ! tag_index p"
proof -
  have "\<not> ((n - 1) * 96 + t * 4 \<le> tag_index p \<and> tag_index p < (n - 1) * 96 + t * 4 + 4)"
  proof -
    consider "p div 64 < n - 1" | "p div 64 = n - 1" | "n - 1 < p div 64" by linarith
    then show ?thesis
    proof cases
      case 1
      then have "p div 64 * 96 + 96 \<le> (n - 1) * 96" by simp
      moreover have "p mod 64 < 64" by simp
      ultimately show ?thesis unfolding tag_index_def by linarith
    next
      case 2
      with assms(3) show ?thesis unfolding tag_index_def by simp
    next
      case 3
      then have "(n - 1) * 96 + 96 \<le> p div 64 * 96" by simp
      with assms(3) show ?thesis unfolding tag_index_def by linarith
    qed
  qed
  then show ?thesis using node_in_range [OF assms(1-3)] tag_index_less [OF assms(4)]
    unfolding write_cnt_def by (subst nth_splice_at) auto
qed

lemma tag_index_inject: "tag_index p = tag_index q \<longleftrightarrow> p = q"
proof
  assume h: "tag_index p = tag_index q"
  have "tag_index p div 96 = p div 64" "tag_index p mod 96 = 32 + p mod 64"
    "tag_index q div 96 = q div 64" "tag_index q mod 96 = 32 + q mod 64"
    unfolding tag_index_def by (rule block_offset, simp)+
  with h have "p div 64 = q div 64" "p mod 64 = q mod 64" by simp_all
  then show "p = q" by (metis div_mult_mod_eq)
qed simp

lemma node_cnt_set_tag:
  assumes "0 < n" "n \<le> index_blocks d" "t < 8" "p < 64 * index_blocks d"
  shows "node_cnt (d[tag_index p := x]) n t = node_cnt d n t"
proof -
  have "slice ((n - 1) * 96 + t * 4) 4 (d[tag_index p := x]) = slice ((n - 1) * 96 + t * 4) 4 d"
  proof (rule slice_eqI)
    show "(n - 1) * 96 + t * 4 + 4 \<le> length (d[tag_index p := x])"
      using node_in_range [OF assms(1-3)] by simp
    fix i assume i: "(n - 1) * 96 + t * 4 \<le> i" "i < (n - 1) * 96 + t * 4 + 4"
    consider "p div 64 < n - 1" | "p div 64 = n - 1" | "n - 1 < p div 64" by linarith
    then have "i \<noteq> tag_index p"
    proof cases
      case 1
      then have "p div 64 * 96 + 96 \<le> (n - 1) * 96" by simp
      moreover have "p mod 64 < 64" by simp
      ultimately show ?thesis using i unfolding tag_index_def by linarith
    next
      case 2
      with i assms(3) show ?thesis unfolding tag_index_def by simp
    next
      case 3
      then have "(n - 1) * 96 + 96 \<le> p div 64 * 96" by simp
      with i assms(3) show ?thesis unfolding tag_index_def by linarith
    qed
    then show "d[tag_index p := x] ! i = d ! i" by simp
  qed simp
  then show ?thesis by (simp add: node_cnt_def)
qed

lemma index_blocks_update [simp]: "index_blocks (d[i := x]) = index_blocks d"
  by (simp add: index_blocks_def)

lemma tag_set_tag:
  assumes "p < 64 * index_blocks d"
  shows "d[tag_index p := x] ! tag_index q = (if q = p then x else d ! tag_index q)"
  using tag_index_less [OF assms] by (auto simp: tag_index_inject)

subsection \<open>Prefix counts\<close>

lemma index_invD:
  assumes "index_inv d tags"
  shows "length d = 96 * index_blocks d" "length tags < 2 ^ 32" "index_blocks d < 2 ^ 32"
    "\<forall>x \<in> set tags. unat x \<le> 8" "length tags \<le> 64 * index_blocks d"
    "\<And>p. p < 64 * index_blocks d \<Longrightarrow> d ! tag_index p = (if p < length tags then tags ! p else 0)"
    "nodes_ok d tags (index_blocks d)"
  using assms by (auto simp: index_inv_def tags_ok_def)

lemma nodes_okD:
  "nodes_ok d tags b \<Longrightarrow> 0 < n \<Longrightarrow> n \<le> b \<Longrightarrow> t < 8 \<Longrightarrow>
   prefix_count tags t (64 * (n - lowbit n)) + unat (node_cnt d n t) = prefix_count tags t (64 * n)"
  by (simp add: nodes_ok_def)

lemma enumerate_counts: "length counts = 8 \<Longrightarrow> enumerate 0 counts = map (\<lambda>t. (t, counts ! t)) [0..<8]"
  by (simp add: enumerate_eq_zip list_eq_iff_nth_eq)

lemma add_node_counts_eq:
  assumes "0 < b" "b \<le> index_blocks d" "length counts = 8"
    and "\<And>t. t < 8 \<Longrightarrow> unat (counts ! t) + unat (node_cnt d b t) < 2 ^ 32"
  shows "add_node_counts d b counts = Inr (map (\<lambda>t. counts ! t + node_cnt d b t) [0..<8])"
proof -
  have "map_res (\<lambda>(tier, count). and_then (node_count d b tier) (add_ov count)) (map (\<lambda>t. (t, counts ! t)) [0..<8]) =
      Inr (map (\<lambda>(tier, count). count + node_cnt d b tier) (map (\<lambda>t. (t, counts ! t)) [0..<8]))"
    by (rule map_res_Inr) (use assms in \<open>auto simp: node_count_eq add_ov_def\<close>)
  then show ?thesis using assms(3)
    by (simp add: add_node_counts_def enumerate_counts comp_def del: upt_conv_Cons)
qed

lemma unat_add_small: "unat (a :: u32) + unat b < 2 ^ 32 \<Longrightarrow> unat (a + b) = unat a + unat b"
  by (simp add: unat_word_ariths)

lemma prefix_loop_eq:
  assumes "nodes_ok d tags b" "b \<le> index_blocks d" "length counts = 8"
    and "\<And>t. t < 8 \<Longrightarrow> unat (counts ! t) + prefix_count tags t (64 * b) < 2 ^ 32"
  shows "\<exists>r. prefix_loop d b counts = Inr r \<and> length r = 8 \<and>
    (\<forall>t < 8. unat (r ! t) = unat (counts ! t) + prefix_count tags t (64 * b))"
  using assms
proof (induction b arbitrary: counts rule: less_induct)
  case (less b)
  show ?case
  proof (cases "b = 0")
    case True
    with less.prems show ?thesis by (simp add: prefix_loop.simps [of d 0])
  next
    case False
    let ?b' = "b - lowbit b"
    let ?c = "map (\<lambda>t. counts ! t + node_cnt d b t) [0..<8]"
    have node: "prefix_count tags t (64 * ?b') + unat (node_cnt d b t) = prefix_count tags t (64 * b)"
      if "t < 8" for t using nodes_okD [OF less.prems(1)] False that by simp
    then have small: "unat (counts ! t) + unat (node_cnt d b t) < 2 ^ 32" if "t < 8" for t
      using less.prems(4) [OF that] node [OF that] by linarith
    have c: "unat (?c ! t) = unat (counts ! t) + unat (node_cnt d b t)" if "t < 8" for t
      using unat_add_small [OF small [OF that]] that by (simp del: upt_conv_Cons)
    have "nodes_ok d tags ?b'" using less.prems(1) by (auto simp: nodes_ok_def)
    moreover have "unat (?c ! t) + prefix_count tags t (64 * ?b') < 2 ^ 32" if "t < 8" for t
      using node [OF that] c [OF that] less.prems(4) [OF that] by linarith
    moreover have "?b' < b" using False lowbit_pos by simp
    ultimately obtain r where r: "prefix_loop d ?b' ?c = Inr r" "length r = 8"
      "\<forall>t < 8. unat (r ! t) = unat (?c ! t) + prefix_count tags t (64 * ?b')"
      using less.IH [of ?b' ?c] less.prems(2) by auto
    have "prefix_loop d b counts = Inr r"
      using False r(1) less.prems(2,3) small
      by (simp add: prefix_loop.simps [of d b] add_node_counts_eq and_pred [of b, simplified] del: upt_conv_Cons)
    moreover have "unat (r ! t) = unat (counts ! t) + prefix_count tags t (64 * b)" if "t < 8" for t
      using r(3) c [OF that] node [OF that] that by simp
    ultimately show ?thesis using r(2) by blast
  qed
qed

lemma prefix_counts_eq:
  assumes "nodes_ok d tags b" "b \<le> index_blocks d" "length tags < 2 ^ 32"
  obtains r where "prefix_counts d b = Inr r" "length r = 8"
    "\<And>t. t < 8 \<Longrightarrow> unat (r ! t) = prefix_count tags t (64 * b)"
proof -
  have "unat (replicate 8 (0 :: u32) ! t) + prefix_count tags t (64 * b) < 2 ^ 32" if "t < 8" for t
    using prefix_count_le [of tags t "64 * b"] assms(3) that by simp
  from prefix_loop_eq [OF assms(1,2) _ this] show ?thesis
    using that by (auto simp: prefix_counts_def)
qed

lemma count_tags_eq:
  assumes "length counts = 8" "\<forall>x \<in> set xs. unat x \<le> 8"
    and "\<And>t. t < 8 \<Longrightarrow> unat (counts ! t) + count_list xs (tier_tag t) < 2 ^ 32"
  shows "\<exists>r. fold_res count_tag counts xs = Inr r \<and> length r = 8 \<and>
    (\<forall>t < 8. unat (r ! t) = unat (counts ! t) + count_list xs (tier_tag t))"
  using assms
proof (induction xs arbitrary: counts)
  case (Cons x xs)
  from Cons.prems(2) tag_cases [of x] consider "x = 0" | s where "s < 8" "x = tier_tag s" by auto
  then show ?case
  proof cases
    case 1
    have "\<exists>r. fold_res count_tag counts xs = Inr r \<and> length r = 8 \<and>
        (\<forall>t < 8. unat (r ! t) = unat (counts ! t) + count_list xs (tier_tag t))"
      using Cons.prems 1 by (intro Cons.IH) force+
    moreover have "count_tag counts 0 = Inr counts" by (simp add: count_tag_def)
    ultimately show ?thesis using 1 by simp
  next
    case 2
    let ?c = "counts[s := counts ! s + 1]"
    have small: "unat (counts ! s) + 1 < 2 ^ 32" using Cons.prems(3) [OF 2(1)] 2 by simp
    then have one: "unat (counts ! s + 1) = unat (counts ! s) + 1" by (simp add: unat_word_ariths)
    have step: "count_tag counts x = Inr ?c"
      using 2 Cons.prems(1) small by (simp add: count_tag_def add_ov_def)
    have c: "unat (?c ! t) = unat (counts ! t) + of_bool (t = s)" if "t < 8" for t
      using that one Cons.prems(1) by (cases "t = s") auto
    have "\<exists>r. fold_res count_tag ?c xs = Inr r \<and> length r = 8 \<and>
        (\<forall>t < 8. unat (r ! t) = unat (?c ! t) + count_list xs (tier_tag t))"
    proof (rule Cons.IH)
      fix t :: nat
      assume t: "t < 8"
      have "count_list (x # xs) (tier_tag t) = of_bool (t = s) + count_list xs (tier_tag t)"
        using 2 t by auto
      with Cons.prems(3) [OF t] c [OF t]
      show "unat (?c ! t) + count_list xs (tier_tag t) < 2 ^ 32" by linarith
    qed (use Cons.prems in auto)
    then show ?thesis using step c 2 by auto
  qed
qed simp

lemma div64_le: "c \<le> 64 * n \<Longrightarrow> c div 64 \<le> (n :: nat)"
  by (simp add: div_le_mono [of c "64 * n" 64, simplified])

lemma slice_tags:
  assumes "index_inv d tags" "b * 64 + tail \<le> length tags" "tail \<le> 64" "b < index_blocks d"
  shows "slice (b * 96 + 32) tail d = take tail (drop (b * 64) tags)"
    and "b * 96 + 32 + tail \<le> length d"
proof -
  show len: "b * 96 + 32 + tail \<le> length d"
    using index_blocks_le [of "Suc b" d] assms(3,4) by simp
  show "slice (b * 96 + 32) tail d = take tail (drop (b * 64) tags)"
  proof (rule nth_equalityI)
    show "length (slice (b * 96 + 32) tail d) = length (take tail (drop (b * 64) tags))"
      using len assms(2) by simp
    fix i assume "i < length (slice (b * 96 + 32) tail d)"
    then have i: "i < tail" by simp
    have p: "b * 64 + i < 64 * index_blocks d" using i assms(3,4) by linarith
    have "tag_index (b * 64 + i) = b * 96 + 32 + i"
      using i assms(3) by (simp add: tag_index_def)
    with index_invD(6) [OF assms(1) p] i assms(2) len
    show "slice (b * 96 + 32) tail d ! i = take tail (drop (b * 64) tags) ! i"
      by (simp add: nth_slice)
  qed
qed

text \<open>\<open>counts(cutoff)\<close> is the number of available positions below the cutoff, per tier.\<close>

lemma index_counts_eq:
  assumes inv: "index_inv d tags" and cutoff: "unat cutoff \<le> length tags"
  obtains r where "index_counts d cutoff = Inr r" "length r = 8"
    "\<And>t. t < 8 \<Longrightarrow> unat (r ! t) = prefix_count tags t (unat cutoff)"
proof -
  let ?b = "unat cutoff div 64" and ?tail = "unat cutoff mod 64"
  have split: "unat cutoff = 64 * ?b + ?tail" by simp
  have b: "?b \<le> index_blocks d"
    using cutoff index_invD(5) [OF inv] by (intro div64_le) simp
  have "nodes_ok d tags ?b" using index_invD(7) [OF inv] b by (auto simp: nodes_ok_def)
  then obtain c where c: "prefix_counts d ?b = Inr c" "length c = 8"
    "\<And>t. t < 8 \<Longrightarrow> unat (c ! t) = prefix_count tags t (64 * ?b)"
    using prefix_counts_eq [OF _ b index_invD(2) [OF inv]] by metis
  have total: "prefix_count tags t (unat cutoff) =
      prefix_count tags t (64 * ?b) + count_list (take ?tail (drop (64 * ?b) tags)) (tier_tag t)" for t
    using prefix_count_add [of tags t "64 * ?b" ?tail] split by simp
  show thesis
  proof (cases "0 < ?tail")
    case False
    with c total show ?thesis by (intro that [of c]) (simp_all add: index_counts_def Let_def)
  next
    case True
    have "?b < index_blocks d"
      using True cutoff index_invD(5) [OF inv] split by linarith
    then have sl: "slice (?b * 96 + 32) ?tail d = take ?tail (drop (64 * ?b) tags)"
      "?b * 96 + 32 + ?tail \<le> length d"
      using slice_tags [OF inv, of ?b ?tail] cutoff split by (simp_all add: mult.commute)
    have "\<exists>r. fold_res count_tag c (take ?tail (drop (64 * ?b) tags)) = Inr r \<and> length r = 8 \<and>
      (\<forall>t < 8. unat (r ! t) = unat (c ! t) + count_list (take ?tail (drop (64 * ?b) tags)) (tier_tag t))"
    proof (rule count_tags_eq)
      show "\<forall>x \<in> set (take ?tail (drop (64 * ?b) tags)). unat x \<le> 8"
        using index_invD(4) [OF inv] by (meson in_set_dropD in_set_takeD)
      fix t :: nat assume "t < 8"
      then show "unat (c ! t) + count_list (take ?tail (drop (64 * ?b) tags)) (tier_tag t) < 2 ^ 32"
        using c(3) total [of t] prefix_count_le [of tags t "unat cutoff"] index_invD(2) [OF inv] by simp
    qed (rule c(2))
    then obtain r where "fold_res count_tag c (take ?tail (drop (64 * ?b) tags)) = Inr r" "length r = 8"
      "\<forall>t < 8. unat (r ! t) = unat (c ! t) + count_list (take ?tail (drop (64 * ?b) tags)) (tier_tag t)"
      by blast
    with True c sl total show ?thesis
      by (intro that [of r]) (simp_all add: index_counts_def Let_def)
  qed
qed

end
