(* ===== verification/Inventory_Refine.thy ===== *)
theory Inventory_Refine
  imports Inventory_Correct
begin

section \<open>Append, take and remove refine list operations\<close>

text \<open>
  A chain of updates from node \<open>i\<close> changes exactly the nodes that cover block \<open>i - 1\<close>, and the
  descent of \<open>take\<close> decrements exactly the nodes that cover the block it stops at. With these,
  \<open>append\<close> adds a tag at the end, \<open>take\<close> clears the position of the requested rank and \<open>remove\<close>
  clears the requested position.
\<close>

subsection \<open>Chains of updates\<close>

text \<open>\<open>d'\<close> differs from \<open>d\<close> in counts of tier \<open>t\<close> only.\<close>

definition same_tags :: "bytes \<Rightarrow> bytes \<Rightarrow> bool" where
  "same_tags d d' \<longleftrightarrow> length d' = length d \<and>
     (\<forall>p < 64 * index_blocks d. d' ! tag_index p = d ! tag_index p)"

lemma same_tags_refl [simp]: "same_tags d d"
  by (simp add: same_tags_def)

lemma same_tags_blocks: "same_tags d d' \<Longrightarrow> index_blocks d' = index_blocks d"
  by (simp add: same_tags_def index_blocks_def)

lemma same_tags_trans: "same_tags d d' \<Longrightarrow> same_tags d' d'' \<Longrightarrow> same_tags d d''"
  by (frule same_tags_blocks) (auto simp: same_tags_def)

lemma same_tags_write:
  "0 < n \<Longrightarrow> n \<le> index_blocks d \<Longrightarrow> t < 8 \<Longrightarrow> same_tags d (write_cnt d n t c)"
  by (simp add: same_tags_def tag_write_cnt)

text \<open>The counts of the nodes over block \<open>i - 1\<close> rose by \<open>up\<close> or fell by \<open>dn\<close>, and nothing else changed.\<close>

definition shifted :: "nat \<Rightarrow> nat \<Rightarrow> bytes \<Rightarrow> nat \<Rightarrow> nat \<Rightarrow> bytes \<Rightarrow> bool" where
  "shifted up dn d t i d' \<longleftrightarrow> same_tags d d' \<and> (\<forall>m s. 0 < m \<longrightarrow> m \<le> index_blocks d \<longrightarrow> s < 8 \<longrightarrow>
     unat (node_cnt d' m s) + (if s = t \<and> covers m i then dn else 0) =
       unat (node_cnt d m s) + (if s = t \<and> covers m i then up else 0))"

lemma shiftedD:
  "shifted up dn d t i d' \<Longrightarrow> 0 < m \<Longrightarrow> m \<le> index_blocks d \<Longrightarrow> s < 8 \<Longrightarrow>
   unat (node_cnt d' m s) + (if s = t \<and> covers m i then dn else 0) =
     unat (node_cnt d m s) + (if s = t \<and> covers m i then up else 0)"
  by (simp add: shifted_def)

lemma shifted_stop: "index_blocks d < i \<Longrightarrow> shifted up dn d t i d"
  by (auto simp: shifted_def covers_def)

lemma shifted_step:
  assumes i: "0 < i" "i \<le> index_blocks d" "t < 8" and c: "unat c + dn = unat (node_cnt d i t) + up"
    and rest: "shifted up dn (write_cnt d i t c) t (i + lowbit i) d'"
  shows "shifted up dn d t i d'"
proof -
  have "unat (node_cnt d' m s) + (if s = t \<and> covers m i then dn else 0) =
      unat (node_cnt d m s) + (if s = t \<and> covers m i then up else 0)"
    if m: "0 < m" "m \<le> index_blocks d" "s < 8" for m s
  proof -
    have later: "unat (node_cnt d' m s) + (if s = t \<and> covers m (i + lowbit i) then dn else 0) =
        unat (node_cnt (write_cnt d i t c) m s) + (if s = t \<and> covers m (i + lowbit i) then up else 0)"
      using rest m i by (simp add: shifted_def)
    show ?thesis
    proof (cases "m = i \<and> s = t")
      case True
      then have "\<not> covers m (i + lowbit i)" using lowbit_pos [OF i(1)] by (simp add: covers_def)
      then show ?thesis using later c True i node_cnt_write_cnt [OF i m, of c] covers_self by simp
    next
      case False
      then show ?thesis using later node_cnt_write_cnt [OF i m, of c] covers_step [OF i(1), of m] by auto
    qed
  qed
  moreover have "same_tags d d'" using rest same_tags_trans [OF same_tags_write [OF i]] unfolding shifted_def by blast
  ultimately show ?thesis by (simp add: shifted_def)
qed

text \<open>The nodes of the rest of a chain are untouched by its first write.\<close>

lemma chain_rest:
  assumes i: "0 < i" "i \<le> index_blocks d" "t < 8" and m: "covers m (i + lowbit i)" "m \<le> index_blocks d"
  shows "covers m i" "node_cnt (write_cnt d i t c) m t = node_cnt d m t"
  using covers_step_down [OF i(1) m(1)] node_cnt_write_cnt [OF i _ m(2) i(3), of c] by simp_all

lemma chain_index:
  assumes "i \<le> index_blocks d" "index_blocks d < 2 ^ 32"
  shows "i < 2 ^ 64" "i + lowbit i < 2 ^ 64"
  using assms lowbit_le [of i] by simp_all

lemma increment_chain_shifted:
  assumes "0 < i" "t < 8" "index_blocks d < 2 ^ 32"
    and "\<And>m. covers m i \<Longrightarrow> m \<le> index_blocks d \<Longrightarrow> unat (node_cnt d m t) + 1 < 2 ^ 32"
  shows "\<exists>d'. increment_chain d i t = Inr d' \<and> shifted 1 0 d t i d'"
  using assms
proof (induction "Suc (index_blocks d) - i" arbitrary: d i rule: less_induct)
  case less
  show ?case
  proof (cases "i \<le> index_blocks d")
    case False
    then show ?thesis using shifted_stop [of d i 1 0 t] by (simp add: increment_chain.simps [of d i])
  next
    case True
    let ?c = "node_cnt d i t"
    let ?d = "write_cnt d i t (?c + 1)"
    note i = less.prems(1) True less.prems(2) and b = chain_index [OF True less.prems(3)]
    have small: "unat ?c + 1 < 2 ^ 32" using less.prems(4) covers_self i by blast
    have "increment_chain d i t = increment_chain ?d (i + lowbit i) t"
      using i small b(2)
      by (simp add: increment_chain.simps [of d i] node_count_eq set_node_count_eq add_ov_def
          add_usize_def and_wrapping_neg [OF i(1) b(1), simplified])
    moreover have "\<exists>d'. increment_chain ?d (i + lowbit i) t = Inr d' \<and> shifted 1 0 ?d t (i + lowbit i) d'"
      using True lowbit_pos [OF i(1)] less.prems(3) i chain_rest [OF i] less.prems(4) by (intro less.hyps) simp_all
    moreover have "unat (?c + 1) + 0 = unat ?c + 1" using small by (simp add: unat_word_ariths)
    ultimately show ?thesis using shifted_step [OF i] by metis
  qed
qed

lemma increment_chain_eq:
  assumes "0 < i" "t < 8" "index_blocks d < 2 ^ 32"
    and "\<And>m. covers m i \<Longrightarrow> m \<le> index_blocks d \<Longrightarrow> unat (node_cnt d m t) + 1 < 2 ^ 32"
  shows "\<exists>d'. increment_chain d i t = Inr d' \<and> same_tags d d' \<and>
    (\<forall>m s. 0 < m \<longrightarrow> m \<le> index_blocks d \<longrightarrow> s < 8 \<longrightarrow>
      unat (node_cnt d' m s) = unat (node_cnt d m s) + of_bool (s = t \<and> covers m i))"
proof -
  obtain d' where d': "increment_chain d i t = Inr d'" "shifted 1 0 d t i d'"
    using increment_chain_shifted [OF assms] by blast
  have "unat (node_cnt d' m s) = unat (node_cnt d m s) + of_bool (s = t \<and> covers m i)"
    if "0 < m" "m \<le> index_blocks d" "s < 8" for m s
    using shiftedD [OF d'(2) that] by (auto split: if_splits)
  then show ?thesis using d' by (auto simp: shifted_def)
qed

lemma decrement_chain_shifted:
  assumes "0 < i" "t < 8" "index_blocks d < 2 ^ 32"
    and "\<And>m. covers m i \<Longrightarrow> m \<le> index_blocks d \<Longrightarrow> 0 < unat (node_cnt d m t)"
  shows "\<exists>d'. decrement_chain d i t = Inr d' \<and> shifted 0 1 d t i d'"
  using assms
proof (induction "Suc (index_blocks d) - i" arbitrary: d i rule: less_induct)
  case less
  show ?case
  proof (cases "i \<le> index_blocks d")
    case False
    then show ?thesis using shifted_stop [of d i 0 1 t] by (simp add: decrement_chain.simps [of d i])
  next
    case True
    let ?c = "node_cnt d i t"
    let ?d = "write_cnt d i t (?c - 1)"
    note i = less.prems(1) True less.prems(2) and b = chain_index [OF True less.prems(3)]
    have pos: "0 < unat ?c" using less.prems(4) covers_self i by blast
    have "decrement_chain d i t = decrement_chain ?d (i + lowbit i) t"
      using i pos b(2)
      by (simp add: decrement_chain.simps [of d i] node_count_eq set_node_count_eq checked_sub_def
          add_usize_def and_wrapping_neg [OF i(1) b(1), simplified] Suc_le_eq)
    moreover have "\<exists>d'. decrement_chain ?d (i + lowbit i) t = Inr d' \<and> shifted 0 1 ?d t (i + lowbit i) d'"
      using True lowbit_pos [OF i(1)] less.prems(3) i chain_rest [OF i] less.prems(4) by (intro less.hyps) simp_all
    moreover have "unat (?c - 1) + 1 = unat ?c + 0" using pos by (simp add: unat_sub word_le_nat_alt)
    ultimately show ?thesis using shifted_step [OF i] by metis
  qed
qed

lemma decrement_chain_eq:
  assumes "0 < i" "t < 8" "index_blocks d < 2 ^ 32"
    and "\<And>m. covers m i \<Longrightarrow> m \<le> index_blocks d \<Longrightarrow> 0 < unat (node_cnt d m t)"
  shows "\<exists>d'. decrement_chain d i t = Inr d' \<and> same_tags d d' \<and>
    (\<forall>m s. 0 < m \<longrightarrow> m \<le> index_blocks d \<longrightarrow> s < 8 \<longrightarrow>
      unat (node_cnt d' m s) + of_bool (s = t \<and> covers m i) = unat (node_cnt d m s))"
proof -
  obtain d' where d': "decrement_chain d i t = Inr d'" "shifted 0 1 d t i d'"
    using decrement_chain_shifted [OF assms] by blast
  have "unat (node_cnt d' m s) + of_bool (s = t \<and> covers m i) = unat (node_cnt d m s)"
    if "0 < m" "m \<le> index_blocks d" "s < 8" for m s
    using shiftedD [OF d'(2) that] by (auto split: if_splits)
  then show ?thesis using d' by (auto simp: shifted_def)
qed

subsection \<open>Restoring the invariant\<close>

lemma covers_block:
  assumes "0 < n"
  shows "covers n (p div 64 + 1) \<longleftrightarrow> 64 * (n - lowbit n) \<le> p \<and> p < 64 * n"
proof -
  have "n - lowbit n < p div 64 + 1 \<longleftrightarrow> 64 * (n - lowbit n) \<le> p"
    by (metis Suc_eq_plus1 less_Suc_eq_le less_eq_div_iff_mult_less_eq mult.commute zero_less_numeral)
  moreover have "p div 64 + 1 \<le> n \<longleftrightarrow> p < 64 * n"
    by (metis Suc_eq_plus1 Suc_le_eq div_less_iff_less_mult mult.commute zero_less_numeral)
  ultimately show ?thesis by (simp add: covers_def)
qed

lemma set_list_update_tags: "\<forall>x \<in> set tags. unat (x :: u8) \<le> 8 \<Longrightarrow> \<forall>x \<in> set (tags[p := 0]). unat x \<le> 8"
  using set_update_subset_insert [of tags p 0] by auto

text \<open>Clearing a tag whose covering nodes have been decremented.\<close>

lemma index_inv_clear:
  assumes inv: "index_inv d tags" and p: "p < length tags" "tags ! p = tier_tag t" "t < 8"
    and tags: "same_tags (d[tag_index p := 0]) d'"
    and cnt: "\<And>m s. 0 < m \<Longrightarrow> m \<le> index_blocks d \<Longrightarrow> s < 8 \<Longrightarrow>
      unat (node_cnt d' m s) + of_bool (s = t \<and> covers m (p div 64 + 1)) = unat (node_cnt d m s)"
  shows "index_inv d' (tags[p := 0])"
proof -
  have nb: "index_blocks d' = index_blocks d" using same_tags_blocks [OF tags] by simp
  have len: "length d' = length d" using tags by (simp add: same_tags_def)
  have pb: "p < 64 * index_blocks d" using p(1) index_invD(5) [OF inv] by simp
  have t_ok: "tags_ok d' (tags[p := 0])"
    using tags index_invD(5,6) [OF inv] p(1)
    by (simp add: tags_ok_def nb same_tags_def tag_set_tag [OF pb] nth_list_update)
  have n_ok: "nodes_ok d' (tags[p := 0]) (index_blocks d)"
    unfolding nodes_ok_def
  proof (intro allI impI)
    fix n s :: nat
    assume n: "0 < n" "n \<le> index_blocks d" "s < 8"
    have "prefix_count (tags[p := 0]) s b + of_bool (s = t \<and> p < b) = prefix_count tags s b" for b
      by (rule prefix_count_clear) (use p n in auto)
    from this [of "64 * (n - lowbit n)"] this [of "64 * n"] cnt [OF n] covers_block [OF n(1), of p]
      nodes_okD [OF index_invD(7) [OF inv] n]
    show "prefix_count (tags[p := 0]) s (64 * (n - lowbit n)) + unat (node_cnt d' n s) =
        prefix_count (tags[p := 0]) s (64 * n)"
      by (cases "s = t"; cases "p < 64 * n"; cases "64 * (n - lowbit n) \<le> p") auto
  qed
  show ?thesis
    using index_invD(1-4) [OF inv] t_ok n_ok set_list_update_tags [of tags p]
    by (simp add: index_inv_def nb len)
qed

text \<open>A node that covers an available position counts it.\<close>

lemma covering_node_positive:
  assumes inv: "index_inv d tags" and p: "p < length tags" "tags ! p = tier_tag t" "t < 8"
    and m: "covers m (p div 64 + 1)" "m \<le> index_blocks d"
  shows "0 < unat (node_cnt d m t)"
proof -
  have m0: "0 < m" using m(1) by (simp add: covers_def)
  then have r: "64 * (m - lowbit m) \<le> p" "p < 64 * m" using covers_block m(1) by blast+
  have "prefix_count tags t (64 * (m - lowbit m)) \<le> prefix_count tags t p"
    using r(1) by (rule prefix_count_mono)
  moreover have "prefix_count tags t (Suc p) \<le> prefix_count tags t (64 * m)"
    using r(2) by (intro prefix_count_mono) simp
  moreover have "prefix_count tags t (Suc p) = prefix_count tags t p + 1"
    using p by (simp add: prefix_count_Suc)
  ultimately show ?thesis using nodes_okD [OF index_invD(7) [OF inv] m0 m(2) p(3)] by linarith
qed

subsection \<open>remove\<close>

lemma unat_word_position: "p < 2 ^ 32 \<Longrightarrow> unat (word_of_nat p :: u32) = p"
  by (simp add: unat_of_nat)

lemma index_remove_eq:
  assumes inv: "index_inv d tags" and p: "unat position < length tags" "unat tier < 8"
    and tag: "tags ! unat position = tier_tag (unat tier)"
  obtains d' where "index_remove d position tier = Inr d'" "length d' = length d"
    "index_inv d' (tags[unat position := 0])"
proof -
  let ?p = "unat position" and ?t = "unat tier"
  have pb: "?p < 64 * index_blocks d" using p(1) index_invD(5) [OF inv] by simp
  have at: "tag_index ?p < length d" using pb by (rule tag_index_less)
  have dt: "d ! tag_index ?p = tier_tag ?t" using index_invD(6) [OF inv pb] p(1) tag by simp
  let ?d = "d[tag_index ?p := 0]"
  have cnt: "node_cnt ?d m s = node_cnt d m s" if "0 < m" "m \<le> index_blocks d" "s < 8" for m s
    using node_cnt_set_tag that pb by blast
  have "\<exists>d'. decrement_chain ?d (?p div 64 + 1) ?t = Inr d' \<and> same_tags ?d d' \<and>
    (\<forall>m s. 0 < m \<longrightarrow> m \<le> index_blocks ?d \<longrightarrow> s < 8 \<longrightarrow>
      unat (node_cnt d' m s) + of_bool (s = ?t \<and> covers m (?p div 64 + 1)) = unat (node_cnt ?d m s))"
  proof (rule decrement_chain_eq)
    fix m assume m: "covers m (?p div 64 + 1)" "m \<le> index_blocks ?d"
    then have "0 < m" by (simp add: covers_def)
    then show "0 < unat (node_cnt ?d m ?t)"
      using covering_node_positive [OF inv p(1) tag p(2) m(1)] m(2) cnt p(2) by simp
  qed (use p index_invD(3) [OF inv] in simp_all)
  then obtain d' where d': "decrement_chain ?d (?p div 64 + 1) ?t = Inr d'" "same_tags ?d d'"
    "\<And>m s. 0 < m \<Longrightarrow> m \<le> index_blocks d \<Longrightarrow> s < 8 \<Longrightarrow>
      unat (node_cnt d' m s) + of_bool (s = ?t \<and> covers m (?p div 64 + 1)) = unat (node_cnt ?d m s)"
    by auto
  have "index_inv d' (tags[?p := 0])"
    by (rule index_inv_clear [OF inv p(1) tag p(2) d'(2)]) (use d'(3) cnt in simp)
  moreover have "index_remove d position tier = Inr d'"
    using at dt d'(1) add_ov_tier [OF p(2)] by (simp add: index_remove_def Let_def tag_index_def)
  ultimately show ?thesis using d'(2) that by (simp add: same_tags_def)
qed

text \<open>Removing a position that is not available in that tier is \<open>InvalidItem\<close>.\<close>

lemma index_remove_missing:
  assumes inv: "index_inv d tags" and tier: "unat tier < 8"
    and missing: "unat position < length tags \<longrightarrow> tags ! unat position \<noteq> tier_tag (unat tier)"
  shows "index_remove d position tier = Inl (gerr InvalidItem)"
proof (cases "unat position < 64 * index_blocks d")
  case True
  then have "tag_index (unat position) < length d" by (rule tag_index_less)
  moreover have "d ! tag_index (unat position) \<noteq> tier_tag (unat tier)"
    using index_invD(6) [OF inv True] missing tier by auto
  ultimately show ?thesis using add_ov_tier [OF tier]
    by (simp add: index_remove_def Let_def tag_index_def)
next
  case False
  then have "index_blocks d \<le> unat position div 64" by simp
  then have "length d \<le> unat position div 64 * 96" using index_invD(1) [OF inv] by simp
  then show ?thesis by (simp add: index_remove_def Let_def)
qed

subsection \<open>append\<close>

text \<open>The next position fits into the blocks, and the nodes below a fresh block are in order.\<close>

definition index_grown :: "bytes \<Rightarrow> u8 list \<Rightarrow> bool" where
  "index_grown d tags \<longleftrightarrow>
     length d = 96 * index_blocks d \<and> length tags + 1 < 2 ^ 32 \<and> index_blocks d < 2 ^ 32 \<and>
     (\<forall>x \<in> set tags. unat x \<le> 8) \<and> tags_ok d tags \<and> length tags < 64 * index_blocks d \<and>
     index_blocks d = length tags div 64 + 1 \<and>
     nodes_ok d tags (if length tags mod 64 = 0 then length tags div 64 else index_blocks d)"

definition grow_index :: "bytes \<Rightarrow> nat \<Rightarrow> bytes" where
  "grow_index d n = d @ replicate (n - length d) 0"

lemma index_inv_grow:
  assumes inv: "index_inv d tags" and len: "length d = div_ceil (length tags) 64 * 96"
    and room: "length tags + 1 < 2 ^ 32"
  shows "index_grown (grow_index d (div_ceil (length tags + 1) 64 * 96)) tags"
proof -
  let ?n = "length tags"
  let ?d = "grow_index d (div_ceil (?n + 1) 64 * 96)"
  have up: "div_ceil (?n + 1) 64 = ?n div 64 + 1"
    unfolding div_ceil_def by (auto simp: mod_Suc div_Suc)
  have nb: "index_blocks d = div_ceil ?n 64" using len by (simp add: index_blocks_def)
  have low: "div_ceil ?n 64 = (if ?n mod 64 = 0 then ?n div 64 else ?n div 64 + 1)"
    by (simp add: div_ceil_def)
  have len': "length ?d = 96 * (?n div 64 + 1)" using len up low by (simp add: grow_index_def)
  then have nb': "index_blocks ?d = ?n div 64 + 1" by (simp add: index_blocks_def)
  have cnt: "node_cnt ?d m s = node_cnt d m s" if "0 < m" "m \<le> index_blocks d" "s < 8" for m s
    using node_in_range [OF that] by (simp add: node_cnt_def grow_index_def slice_def)
  have tag: "?d ! tag_index p = (if p < ?n then tags ! p else 0)" if p: "p < 64 * index_blocks ?d" for p
  proof (cases "p < 64 * index_blocks d")
    case True
    with index_invD(6) [OF inv True] tag_index_less [OF True] show ?thesis
      by (simp add: grow_index_def nth_append)
  next
    case False
    then have pn: "\<not> p < ?n" using index_invD(5) [OF inv] by simp
    have "index_blocks d * 96 \<le> p div 64 * 96" using False by simp
    then have "length d \<le> tag_index p" using len nb by (simp add: tag_index_def)
    with pn tag_index_less [OF p] len' show ?thesis
      by (simp add: grow_index_def nth_append)
  qed
  have "nodes_ok ?d tags (if ?n mod 64 = 0 then ?n div 64 else index_blocks ?d)"
    unfolding nodes_ok_def
  proof (intro allI impI)
    fix m s assume m: "0 < m" "m \<le> (if ?n mod 64 = 0 then ?n div 64 else index_blocks ?d)" "s < (8 :: nat)"
    then have "m \<le> index_blocks d" using nb nb' low by (auto split: if_splits)
    with m cnt nodes_okD [OF index_invD(7) [OF inv] m(1) _ m(3)]
    show "prefix_count tags s (64 * (m - lowbit m)) + unat (node_cnt ?d m s) = prefix_count tags s (64 * m)"
      by simp
  qed
  moreover have "?n < 64 * (?n div 64 + 1)" by (metis Suc_eq_plus1 lessI less_mult_imp_div_less
      div_less_iff_less_mult mult.commute zero_less_numeral)
  ultimately show ?thesis
    using len' nb' room index_invD(4) [OF inv] tag
    by (auto simp: index_grown_def tags_ok_def)
qed

text \<open>The node of a fresh block gets the counts of the older blocks that it covers.\<close>

lemma write_nodes_eq:
  assumes "0 < n" "n \<le> index_blocks d" "k \<le> 8"
  shows "\<exists>d'. fold_res (\<lambda>d tier. set_node_count d n tier (v tier)) d [0..<k] = Inr d' \<and> same_tags d d' \<and>
    (\<forall>m s. 0 < m \<longrightarrow> m \<le> index_blocks d \<longrightarrow> s < 8 \<longrightarrow>
      node_cnt d' m s = (if m = n \<and> s < k then v s else node_cnt d m s))"
  using assms(3)
proof (induction k)
  case 0
  then show ?case by simp
next
  case (Suc k)
  then obtain d' where d': "fold_res (\<lambda>d tier. set_node_count d n tier (v tier)) d [0..<k] = Inr d'"
    "same_tags d d'" "\<And>m s. 0 < m \<Longrightarrow> m \<le> index_blocks d \<Longrightarrow> s < 8 \<Longrightarrow>
      node_cnt d' m s = (if m = n \<and> s < k then v s else node_cnt d m s)"
    by auto
  have nb: "index_blocks d' = index_blocks d" using d'(2) by (rule same_tags_blocks)
  have k: "k < 8" using Suc.prems by simp
  have "set_node_count d' n k (v k) = Inr (write_cnt d' n k (v k))"
    using set_node_count_eq assms(1,2) k nb by simp
  moreover have "same_tags d (write_cnt d' n k (v k))"
    using same_tags_trans [OF d'(2) same_tags_write] assms(1,2) k nb by simp
  moreover have "node_cnt (write_cnt d' n k (v k)) m s = (if m = n \<and> s < Suc k then v s else node_cnt d m s)"
    if "0 < m" "m \<le> index_blocks d" "s < 8" for m s
    using node_cnt_write_cnt [of n d' k m s] assms(1,2) k nb that d'(3) [OF that] by (auto simp: less_Suc_eq)
  ultimately show ?case using d'(1) by (simp add: fold_res_append)
qed

lemma fold_res_cong:
  "(\<And>x s. x \<in> set xs \<Longrightarrow> f s x = g s x) \<Longrightarrow> fold_res f s xs = fold_res g s xs"
  by (induction xs arbitrary: s) (auto intro!: and_then_cong)

text \<open>A new last node over an empty block: what its range holds is the difference of two prefixes.\<close>

lemma nodes_ok_new:
  assumes ok: "nodes_ok d tags b" and full: "length tags = 64 * b" and B: "index_blocks d = b + 1"
    and c: "\<And>r. r < 8 \<Longrightarrow> prefix_count tags r (64 * (b + 1 - lowbit (b + 1))) + unat (c r) = prefix_count tags r (64 * b)"
    and d': "\<And>m r. 0 < m \<Longrightarrow> m \<le> index_blocks d \<Longrightarrow> r < 8 \<Longrightarrow> node_cnt d' m r = (if m = b + 1 then c r else node_cnt d m r)"
  shows "nodes_ok d' tags (index_blocks d)"
  unfolding nodes_ok_def
proof (intro allI impI)
  fix m r :: nat assume m: "0 < m" "m \<le> index_blocks d" "r < 8"
  show "prefix_count tags r (64 * (m - lowbit m)) + unat (node_cnt d' m r) = prefix_count tags r (64 * m)"
  proof (cases "m = b + 1")
    case True
    have "prefix_count tags r (64 * (b + 1)) = prefix_count tags r (64 * b)" using full by (simp add: prefix_count_beyond)
    then show ?thesis using d' [OF m] c [OF m(3)] True by simp
  next
    case False
    with m B have "m \<le> b" by simp
    with False d' [OF m] nodes_okD [OF ok m(1) _ m(3)] show ?thesis by simp
  qed
qed

lemma init_node_eq:
  assumes g: "index_grown d tags" and fresh: "length tags mod 64 = 0"
  shows "\<exists>d'. init_node d (length tags div 64) = Inr d' \<and> same_tags d d' \<and>
    nodes_ok d' tags (index_blocks d)"
proof -
  let ?b = "length tags div 64"
  let ?n = "?b + 1"
  have nb: "index_blocks d = ?n" and lt: "length tags < 2 ^ 32" and ok: "nodes_ok d tags ?b"
    using g fresh by (auto simp: index_grown_def)
  have full: "length tags = 64 * ?b" using fresh by (metis mult_div_mod_eq add_0_right)
  have nl: "?n AND (?n - 1) = ?n - lowbit ?n" by (rule and_pred)
  have low: "?n - lowbit ?n \<le> ?b" using lowbit_pos [of ?n] by simp
  obtain e where e: "prefix_counts d ?b = Inr e" "length e = 8"
    "\<And>t. t < 8 \<Longrightarrow> unat (e ! t) = prefix_count tags t (64 * ?b)"
    using prefix_counts_eq [OF ok _ lt] nb by (metis le_add1)
  have "nodes_ok d tags (?n - lowbit ?n)" using ok low by (auto simp: nodes_ok_def)
  then obtain s where s: "prefix_counts d (?n - lowbit ?n) = Inr s" "length s = 8"
    "\<And>t. t < 8 \<Longrightarrow> unat (s ! t) = prefix_count tags t (64 * (?n - lowbit ?n))"
    using prefix_counts_eq [of d tags "?n - lowbit ?n"] lt low nb by (metis le_add1 le_trans)
  have le: "unat (s ! t) \<le> unat (e ! t)" if "t < 8" for t
    using e(3) [OF that] s(3) [OF that] prefix_count_mono [of "64 * (?n - lowbit ?n)" "64 * ?b" tags t] low by simp
  have "init_node d ?b = fold_res (\<lambda>d tier. set_node_count d ?n tier (e ! tier - s ! tier)) d [0..<8]"
    using e(1,2) s(1,2) le unfolding init_node_def Let_def nl
    by (simp del: upt_conv_Cons) (rule fold_res_cong, simp add: sub_ov_def)
  moreover obtain d' where d': "fold_res (\<lambda>d tier. set_node_count d ?n tier (e ! tier - s ! tier)) d [0..<8] = Inr d'"
    "same_tags d d'" "\<And>m r. 0 < m \<Longrightarrow> m \<le> index_blocks d \<Longrightarrow> r < 8 \<Longrightarrow>
      node_cnt d' m r = (if m = ?n \<and> r < 8 then e ! r - s ! r else node_cnt d m r)"
    using write_nodes_eq [of ?n d 8 "\<lambda>t. e ! t - s ! t"] nb by auto
  moreover have "prefix_count tags r (64 * (?n - lowbit ?n)) + unat (e ! r - s ! r) = prefix_count tags r (64 * ?b)" if "r < 8" for r
    using le [OF that] e(3) [OF that] s(3) [OF that] by (simp add: unat_sub word_le_nat_alt)
  then have "nodes_ok d' tags (index_blocks d)"
    by (rule nodes_ok_new [OF ok full nb]) (use d'(3) in auto)
  ultimately show ?thesis by auto
qed

text \<open>Adding a tag whose covering nodes have been incremented.\<close>

lemma index_inv_snoc:
  assumes g: "index_grown d tags" and t: "t < 8" and d1: "same_tags d d1" "nodes_ok d1 tags (index_blocks d)"
    and tags: "same_tags (d1[tag_index (length tags) := tier_tag t]) d'"
    and cnt: "\<And>m s. 0 < m \<Longrightarrow> m \<le> index_blocks d \<Longrightarrow> s < 8 \<Longrightarrow>
      unat (node_cnt d' m s) = unat (node_cnt d1 m s) + of_bool (s = t \<and> covers m (length tags div 64 + 1))"
  shows "length d' = length d" "index_inv d' (tags @ [tier_tag t])"
proof -
  let ?p = "length tags"
  note G = g [unfolded index_grown_def]
  have nb1: "index_blocks d1 = index_blocks d" using same_tags_blocks [OF d1(1)] .
  have nb: "index_blocks d' = index_blocks d" using same_tags_blocks [OF tags] nb1 by simp
  show len: "length d' = length d" using tags d1(1) by (simp add: same_tags_def)
  have pb: "?p < 64 * index_blocks d1" using G nb1 by simp
  have t_ok: "tags_ok d' (tags @ [tier_tag t])"
    using G tags d1(1) nb1
    by (simp add: tags_ok_def nb same_tags_def tag_set_tag [OF pb] nth_append less_Suc_eq)
  have n_ok: "nodes_ok d' (tags @ [tier_tag t]) (index_blocks d)"
    unfolding nodes_ok_def
  proof (intro allI impI)
    fix n s :: nat
    assume n: "0 < n" "n \<le> index_blocks d" "s < 8"
    note app = prefix_count_append [of tags "tier_tag t" s]
    from app [of "64 * (n - lowbit n)"] app [of "64 * n"] cnt [OF n] covers_block [OF n(1), of ?p]
      nodes_okD [OF d1(2) n] n(3) t
    show "prefix_count (tags @ [tier_tag t]) s (64 * (n - lowbit n)) + unat (node_cnt d' n s) =
        prefix_count (tags @ [tier_tag t]) s (64 * n)"
      by (cases "s = t"; cases "?p < 64 * n"; cases "64 * (n - lowbit n) \<le> ?p") auto
  qed
  show "index_inv d' (tags @ [tier_tag t])"
    using t_ok n_ok t G len nb by (auto simp: index_inv_def)
qed

text \<open>\<open>append\<close> at the next position adds the tier's tag at the end.\<close>

lemma index_append_eq:
  assumes g: "index_grown d tags" and tier: "unat tier < 8"
    and position: "unat position = length tags"
  obtains d' where "index_append d position tier = Inr d'" "length d' = length d"
    "index_inv d' (tags @ [tier_tag (unat tier)])"
proof -
  let ?p = "length tags" and ?t = "unat tier"
  let ?b = "?p div 64"
  have nb: "index_blocks d = ?b + 1" and lt: "?p + 1 < 2 ^ 32" and room: "?p < 64 * index_blocks d"
    and len: "length d = 96 * index_blocks d" and nb32: "index_blocks d < 2 ^ 32"
    and small: "\<forall>x \<in> set tags. unat x \<le> 8" and tags: "tags_ok d tags"
    using g by (auto simp: index_grown_def)
  have "\<exists>d1. (if ?p mod 64 = 0 then init_node d ?b else Inr d) = Inr d1 \<and> same_tags d d1 \<and>
      nodes_ok d1 tags (index_blocks d)"
  proof (cases "?p mod 64 = 0")
    case True
    with init_node_eq [OF g] show ?thesis by simp
  next
    case False
    have "nodes_ok d tags (index_blocks d)"
      using g False nb unfolding index_grown_def by (metis)
    then show ?thesis using False by (metis same_tags_refl)
  qed
  then obtain d1 where d1: "(if ?p mod 64 = 0 then init_node d ?b else Inr d) = Inr d1"
    "same_tags d d1" "nodes_ok d1 tags (index_blocks d)" by blast
  have nb1: "index_blocks d1 = index_blocks d" and len1: "length d1 = length d"
    using same_tags_blocks [OF d1(2)] d1(2) by (simp_all add: same_tags_def)
  let ?d = "d1[tag_index ?p := tier_tag ?t]"
  have at: "tag_index ?p < length d1" using tag_index_less [of ?p d1] room nb1 by simp
  have cnt: "node_cnt ?d m s = node_cnt d1 m s" if "0 < m" "m \<le> index_blocks d" "s < 8" for m s
    using node_cnt_set_tag that room nb1 by simp
  have "\<exists>d'. increment_chain ?d (?b + 1) ?t = Inr d' \<and> same_tags ?d d' \<and>
    (\<forall>m s. 0 < m \<longrightarrow> m \<le> index_blocks ?d \<longrightarrow> s < 8 \<longrightarrow>
      unat (node_cnt d' m s) = unat (node_cnt ?d m s) + of_bool (s = ?t \<and> covers m (?b + 1)))"
  proof (rule increment_chain_eq)
    fix m assume m: "covers m (?b + 1)" "m \<le> index_blocks ?d"
    then have "0 < m" by (simp add: covers_def)
    then have "unat (node_cnt ?d m ?t) \<le> ?p"
      using nodes_okD [OF d1(3), of m ?t] cnt m(2) nb1 tier prefix_count_le [of tags ?t "64 * m"] by simp
    then show "unat (node_cnt ?d m ?t) + 1 < 2 ^ 32" using lt by simp
  qed (use tier nb1 nb32 in simp_all)
  then obtain d' where d': "increment_chain ?d (?b + 1) ?t = Inr d'" "same_tags ?d d'"
    "\<And>m s. 0 < m \<Longrightarrow> m \<le> index_blocks d \<Longrightarrow> s < 8 \<Longrightarrow>
      unat (node_cnt d' m s) = unat (node_cnt d1 m s) + of_bool (s = ?t \<and> covers m (?b + 1))"
    using cnt nb1 by auto
  note inv = index_inv_snoc [OF g tier d1(2,3) d'(2,3)]
  have "index_append d position tier = Inr d'"
    using d1(1) at d'(1) add_ov_tier [OF tier]
    by (simp add: index_append_def Let_def position tag_index_def)
  then show ?thesis using inv that by blast
qed

end
