(* ===== verification/Inventory_Take.thy ===== *)
theory Inventory_Take
  imports Inventory_Refine
begin

section \<open>take\<close>

text \<open>
  The descent halves its step: with step \<open>2 ^ s\<close> the current node is the largest multiple of
  \<open>2 ^ (s + 1)\<close> that does not exceed the block of the requested position, so the single node of
  size \<open>2 ^ s\<close> that can cover that block is the next one. A rank that no position has ends past
  the last block, with no count changed.
\<close>

lemma next_power_of_two_le: "0 < j \<Longrightarrow> n \<le> 2 ^ j \<Longrightarrow> next_power_of_two n \<le> 2 ^ j"
proof (induction n arbitrary: j rule: next_power_of_two.induct)
  case (1 n)
  show ?case
  proof (cases "n \<le> 1")
    case True
    then show ?thesis by (simp add: next_power_of_two.simps [of n])
  next
    case False
    obtain i where j: "j = Suc i" using "1.prems"(1) by (cases j) auto
    have "next_power_of_two ((n + 1) div 2) \<le> 2 ^ i"
    proof (cases "i = 0")
      case True
      with "1.prems"(2) j False have "n = 2" by simp
      with True show ?thesis by (simp add: next_power_of_two.simps [of "Suc 0"] next_power_of_two.simps [of 2])
    next
      case False2: False
      from "1.prems"(2) j have "(n + 1) div 2 \<le> 2 ^ i" by simp
      with "1.IH" [OF False, of i] False2 show ?thesis by simp
    qed
    with False j show ?thesis by (simp add: next_power_of_two.simps [of n])
  qed
qed

lemma lowbit_less_pow_Suc:
  assumes "0 < m" "lowbit m < 2 ^ Suc s"
  shows "lowbit m < 2 ^ s \<or> lowbit m = 2 ^ s"
proof -
  obtain k c where k: "lowbit m = 2 ^ k" using lowbit_form [OF assms(1)] by blast
  with assms(2) have "k < Suc s" by (metis nat_power_less_imp_less zero_less_numeral)
  then show ?thesis unfolding k by (cases "k = s") simp_all
qed

lemma block_prefix:
  fixes b k :: nat
  defines "node \<equiv> 2 ^ Suc k * (b div 2 ^ Suc k)"
  shows "node \<le> b" "b < node + 2 ^ Suc k"
    "2 ^ k * (b div 2 ^ k) = (if node + 2 ^ k \<le> b then node + 2 ^ k else node)"
proof -
  obtain q x where b: "b = 2 ^ Suc k * q + x" "x < 2 ^ Suc k"
    by (metis mult_div_mod_eq mod_less_divisor zero_less_numeral zero_less_power)
  then have node: "node = 2 ^ Suc k * q" unfolding node_def by (simp del: power_Suc)
  with b show "node \<le> b" "b < node + 2 ^ Suc k" by simp_all
  show "2 ^ k * (b div 2 ^ k) = (if node + 2 ^ k \<le> b then node + 2 ^ k else node)"
  proof (cases "x < 2 ^ k")
    case True
    then have "b div 2 ^ k = 2 * q" using b by (intro div_nat_eqI) simp_all
    with True node b show ?thesis by simp
  next
    case False
    then have "b div 2 ^ k = 2 * q + 1" using b by (intro div_nat_eqI) (simp_all add: algebra_simps)
    with False node b show ?thesis by (simp add: algebra_simps)
  qed
qed

text \<open>The state of the descent: \<open>b\<close> is the block it will stop at.\<close>

definition descent_ok :: "bytes \<Rightarrow> u8 list \<Rightarrow> nat \<Rightarrow> nat \<Rightarrow> nat \<Rightarrow> nat \<Rightarrow> bool" where
  "descent_ok d tags t k b r \<longleftrightarrow> t < 8 \<and> b \<le> index_blocks d \<and> index_blocks d < 2 ^ 32 \<and> k \<le> 33 \<and>
     prefix_count tags t (64 * b) \<le> r \<and> (b < index_blocks d \<longrightarrow> r < prefix_count tags t (64 * (b + 1))) \<and>
     (\<forall>m. 0 < m \<longrightarrow> m \<le> index_blocks d \<longrightarrow> lowbit m < 2 ^ k \<longrightarrow>
       prefix_count tags t (64 * (m - lowbit m)) + unat (node_cnt d m t) = prefix_count tags t (64 * m))"

lemma dec_rank: "rank \<noteq> 0 \<Longrightarrow> unat (rank :: u32) = Suc (unat (rank - 1)) \<and> sub_ov rank 1 = Inr (rank - 1)"
proof -
  assume r: "rank \<noteq> 0"
  then have "0 < unat rank" by (simp add: unat_gt_0)
  then show ?thesis using unat_minus_one [OF r] by (simp add: sub_ov_def)
qed

lemma descend_step:
  "node + 2 ^ k < 2 ^ 64 \<Longrightarrow> descend d node rank (2 ^ Suc k div 2) t =
      and_then
          (if (node + 2 ^ k) \<le> index_blocks d
           then and_then (node_count d (node + 2 ^ k) t) (\<lambda>count.
             if count \<le> rank
             then and_then (sub_ov rank count) (\<lambda>rank. Inr (d, (node + 2 ^ k), rank))
             else and_then (sub_ov count 1) (\<lambda>count.
                  and_then (set_node_count d (node + 2 ^ k) t count) (\<lambda>d. Inr (d, node, rank))))
           else Inr (d, node, rank))
          (\<lambda>(d, node, rank). descend d node rank (2 ^ k div 2) t)"
  by (subst descend.simps) (simp add: add_usize_def)

lemma descend_right:
  assumes "node + 2 ^ k < 2 ^ 64" "node + 2 ^ k \<le> index_blocks d" "t < 8" "node_cnt d (node + 2 ^ k) t \<le> rank"
  shows "descend d node rank (2 ^ Suc k div 2) t =
    descend d (node + 2 ^ k) (rank - node_cnt d (node + 2 ^ k) t) (2 ^ k div 2) t"
  unfolding descend_step [OF assms(1)]
  using assms(2-4) node_count_eq [of "node + 2 ^ k" d t] by (simp add: sub_ov_def word_le_nat_alt)

lemma descend_left:
  assumes "node + 2 ^ k < 2 ^ 64" "node + 2 ^ k \<le> index_blocks d" "t < 8" "rank < node_cnt d (node + 2 ^ k) t"
  shows "descend d node rank (2 ^ Suc k div 2) t =
    descend (write_cnt d (node + 2 ^ k) t (node_cnt d (node + 2 ^ k) t - 1)) node rank (2 ^ k div 2) t"
proof -
  have "sub_ov (node_cnt d (node + 2 ^ k) t) 1 = Inr (node_cnt d (node + 2 ^ k) t - 1)"
    using assms(4) by (simp add: sub_ov_def word_less_nat_alt)
  moreover note assms(2,3) node_count_eq [of "node + 2 ^ k" d t]
    set_node_count_eq [of "node + 2 ^ k" d t "node_cnt d (node + 2 ^ k) t - 1"]
  moreover have "\<not> node_cnt d (node + 2 ^ k) t \<le> rank" using assms(4) by (simp only: not_le not_not)
  ultimately show ?thesis unfolding descend_step [OF assms(1)] by simp
qed

lemma descend_out:
  assumes "node + 2 ^ k < 2 ^ 64" "index_blocks d < node + 2 ^ k"
  shows "descend d node rank (2 ^ Suc k div 2) t = descend d node rank (2 ^ k div 2) t"
  unfolding descend_step [OF assms(1)] using assms(2) by simp

text \<open>The node where the descent stands before the step of size \<open>2 ^ k\<close>, and the one it looks at.\<close>

definition base_node :: "nat \<Rightarrow> nat \<Rightarrow> nat" where
  "base_node k b = 2 ^ k * (b div 2 ^ k)"

definition next_node :: "nat \<Rightarrow> nat \<Rightarrow> nat" where
  "next_node k b = base_node (Suc k) b + 2 ^ k"

lemma base_node: "base_node 0 b = b" "base_node (Suc k) b \<le> b"
  "base_node k b = (if next_node k b \<le> b then next_node k b else base_node (Suc k) b)"
  using block_prefix [of k b] unfolding base_node_def next_node_def by simp_all

lemma next_node_pos [simp]: "0 < next_node k b"
  by (simp add: next_node_def)

lemma lowbit_next_node: "lowbit (next_node k b) = 2 ^ k" "next_node k b - lowbit (next_node k b) = base_node (Suc k) b"
proof -
  show l: "lowbit (next_node k b) = 2 ^ k"
    using lowbit_node [of k "b div 2 ^ Suc k"] by (simp add: next_node_def base_node_def mult.assoc mult.left_commute)
  show "next_node k b - lowbit (next_node k b) = base_node (Suc k) b" unfolding l by (simp add: next_node_def)
qed

lemma next_node_covers: "b < next_node k b \<Longrightarrow> covers (next_node k b) (b + 1)"
  using base_node(2) [of k b] by (simp add: covers_def lowbit_next_node(2))

lemma covers_next_node:
  "0 < m \<Longrightarrow> covers m (b + 1) \<Longrightarrow> lowbit m < 2 ^ Suc k \<Longrightarrow> \<not> lowbit m < 2 ^ k \<Longrightarrow> m = next_node k b"
  using lowbit_less_pow_Suc [of m k] covers_size [of m k b] by (simp add: next_node_def base_node_def)

text \<open>The next step may assume the same with half the size, and the counts of the node add up.\<close>

lemma descent_next:
  assumes ok: "descent_ok d tags t (Suc k) b r"
  shows "descent_ok d tags t k b r" "next_node k b < 2 ^ 64"
    "next_node k b \<le> index_blocks d \<Longrightarrow>
      prefix_count tags t (64 * base_node (Suc k) b) + unat (node_cnt d (next_node k b) t) =
      prefix_count tags t (64 * next_node k b)"
proof -
  have bound: "b \<le> index_blocks d" "index_blocks d < 2 ^ 32" "Suc k \<le> 33"
    and cnt: "\<And>m. 0 < m \<Longrightarrow> m \<le> index_blocks d \<Longrightarrow> lowbit m < 2 ^ Suc k \<Longrightarrow>
       prefix_count tags t (64 * (m - lowbit m)) + unat (node_cnt d m t) = prefix_count tags t (64 * m)"
    using ok by (auto simp: descent_ok_def)
  show "descent_ok d tags t k b r" using ok unfolding descent_ok_def by auto
  have "(2 :: nat) ^ k \<le> 2 ^ 32" using bound(3) by (intro power_increasing) simp_all
  moreover have "base_node (Suc k) b < 2 ^ 32" using base_node(2) [of k b] bound(1,2) by linarith
  ultimately have "next_node k b < 2 ^ 32 + 2 ^ 32" unfolding next_node_def by linarith
  then show "next_node k b < 2 ^ 64" by (rule order.strict_trans) simp
  show "prefix_count tags t (64 * base_node (Suc k) b) + unat (node_cnt d (next_node k b) t) =
      prefix_count tags t (64 * next_node k b)" if "next_node k b \<le> index_blocks d"
    using cnt [OF next_node_pos that] unfolding lowbit_next_node(2) by (simp add: lowbit_next_node(1))
qed

text \<open>What a descent has done: the nodes smaller than \<open>2 ^ k\<close> over the block count one position less.\<close>

definition descended :: "bytes \<Rightarrow> u8 list \<Rightarrow> nat \<Rightarrow> nat \<Rightarrow> nat \<Rightarrow> nat \<Rightarrow> bytes \<Rightarrow> u32 \<Rightarrow> bool" where
  "descended d tags t k b r d' rank \<longleftrightarrow> unat rank + prefix_count tags t (64 * b) = r \<and> same_tags d d' \<and>
    (\<forall>m s. 0 < m \<longrightarrow> m \<le> index_blocks d \<longrightarrow> s < 8 \<longrightarrow>
      unat (node_cnt d' m s) + of_bool (s = t \<and> covers m (b + 1) \<and> lowbit m < 2 ^ k) = unat (node_cnt d m s))"

lemma descended_unwritten:
  assumes "descended d tags t k b r d' rank" "next_node k b \<le> b \<or> index_blocks d < next_node k b"
  shows "descended d tags t (Suc k) b r d' rank"
proof -
  have "(covers m (b + 1) \<and> lowbit m < 2 ^ Suc k) = (covers m (b + 1) \<and> lowbit m < 2 ^ k)"
    if m: "0 < m" "m \<le> index_blocks d" for m
  proof (cases "m = next_node k b")
    case True
    then have "\<not> covers m (b + 1)" using assms(2) m(2) by (auto simp: covers_def)
    then show ?thesis by simp
  next
    case False
    then show ?thesis using covers_next_node [OF m(1), of b k] by auto
  qed
  then show ?thesis using assms(1) unfolding descended_def by simp
qed

lemma descended_written:
  assumes c_def: "c = node_cnt d (next_node k b) t"
    and d: "descended (write_cnt d (next_node k b) t (c - 1)) tags t k b r d' rank" and t: "t < 8" and c: "0 < unat c"
    and n: "b < next_node k b" "next_node k b \<le> index_blocks d"
  shows "descended d tags t (Suc k) b r d' rank"
proof -
  let ?n = "next_node k b"
  let ?d = "write_cnt d ?n t (c - 1)"
  have B: "index_blocks ?d = index_blocks d" using index_blocks_write_cnt [OF next_node_pos n(2) t] .
  have dec: "unat (c - 1) + 1 = unat c" using c dec_rank [of c] by fastforce
  have "unat (node_cnt d' m s) + of_bool (s = t \<and> covers m (b + 1) \<and> lowbit m < 2 ^ Suc k) = unat (node_cnt d m s)"
    if m: "0 < m" "m \<le> index_blocks d" "s < 8" for m s
  proof -
    have old: "unat (node_cnt d' m s) + of_bool (s = t \<and> covers m (b + 1) \<and> lowbit m < 2 ^ k) = unat (node_cnt ?d m s)"
      using d m unfolding descended_def B by blast
    note w = node_cnt_write_cnt [OF next_node_pos n(2) t m, of "c - 1"]
    show ?thesis
    proof (cases "m = ?n")
      case True
      then show ?thesis using old w dec next_node_covers [OF n(1)] c_def by (auto simp: lowbit_next_node(1))
    next
      case False
      then have "(covers m (b + 1) \<and> lowbit m < 2 ^ Suc k) = (covers m (b + 1) \<and> lowbit m < 2 ^ k)"
        using covers_next_node [OF m(1), of b k] by auto
      then show ?thesis using old w False by simp
    qed
  qed
  then show ?thesis
    using d same_tags_trans [OF same_tags_write [OF next_node_pos n(2) t]] unfolding descended_def by blast
qed

lemmas descend_cases = descend_right [where node = "base_node (Suc k) b" and k = k for k b, folded next_node_def]
  descend_left [where node = "base_node (Suc k) b" and k = k for k b, folded next_node_def]
  descend_out [where node = "base_node (Suc k) b" and k = k for k b, folded next_node_def]

lemma descend_descended:
  assumes "descent_ok d tags t k b r" and "unat rank + prefix_count tags t (64 * base_node k b) = r"
  shows "\<exists>d' rank'. descend d (base_node k b) rank (2 ^ k div 2) t = Inr (d', b, rank') \<and>
    descended d tags t k b r d' rank'"
  using assms
proof (induction k arbitrary: d rank)
  case 0
  have "\<not> lowbit m < 1" if "0 < m" for m using lowbit_pos [OF that] by simp
  with 0 show ?case by (simp add: descended_def base_node(1) descend.simps [of d b rank 0])
next
  case (Suc k)
  let ?P = "\<lambda>n. prefix_count tags t (64 * n)" and ?n = "next_node k b"
  let ?c = "node_cnt d ?n t"
  note ok = descent_next [OF Suc.prems(1)] and base = base_node(3) [of k b]
  have t: "t < 8" and bB: "b \<le> index_blocks d" and lo: "?P b \<le> r" and hi: "b < index_blocks d \<Longrightarrow> r < ?P (b + 1)"
    using Suc.prems(1) by (auto simp: descent_ok_def)
  have mono: "?P x \<le> ?P y" if "x \<le> y" for x y using that by (intro prefix_count_mono) simp
  consider (right) "?n \<le> b" | (left) "b < ?n" "?n \<le> index_blocks d" | (out) "b < ?n" "index_blocks d < ?n"
    by linarith
  then show ?case
  proof cases
    case right
    have nB: "?n \<le> index_blocks d" using right bB by simp
    have le: "unat ?c \<le> unat rank" using ok(3) [OF nB] mono [OF right] lo Suc.prems(2) by linarith
    then have c: "?c \<le> rank" "unat (rank - ?c) = unat rank - unat ?c" by (simp_all add: unat_sub word_le_nat_alt)
    have "unat (rank - ?c) + ?P (base_node k b) = r"
      using ok(3) [OF nB] Suc.prems(2) c(2) le base right by simp
    from Suc.IH [OF ok(1) this] base right show ?thesis
      unfolding descend_cases(1) [OF ok(2) nB t c(1)] using descended_unwritten [of d tags t k b r] by auto
  next
    case left
    let ?d = "write_cnt d ?n t (?c - 1)"
    have "?P (b + 1) \<le> ?P ?n" using left(1) by (intro mono) simp
    then have less: "unat rank < unat ?c" using ok(3) [OF left(2)] hi Suc.prems(2) left by linarith
    have "node_cnt ?d m t = node_cnt d m t" if "0 < m" "m \<le> index_blocks d" "lowbit m < 2 ^ k" for m
      using node_cnt_write_cnt [OF next_node_pos left(2) t that(1,2) t] that(3) lowbit_next_node(1) [of k b] by auto
    then have "descent_ok ?d tags t k b r"
      using ok(1) unfolding descent_ok_def index_blocks_write_cnt [OF next_node_pos left(2) t] by auto
    from Suc.IH [OF this, of rank] Suc.prems(2) obtain d' rank' where
      d': "descend ?d (base_node (Suc k) b) rank (2 ^ k div 2) t = Inr (d', b, rank')" "descended ?d tags t k b r d' rank'"
      using base left(1) by auto
    have "descended d tags t (Suc k) b r d' rank'" using descended_written [OF refl d'(2) t _ left] less by simp
    then show ?thesis
      using descend_cases(2) [OF ok(2) left(2) t] less d'(1) unfolding word_less_nat_alt by auto
  next
    case out
    from Suc.IH [OF ok(1), of rank] Suc.prems(2) base out show ?thesis
      unfolding descend_cases(3) [OF ok(2) out(2)] using descended_unwritten [of d tags t k b r] by auto
  qed
qed

subsection \<open>The scan of the block\<close>

text \<open>The available positions of a tier, in order.\<close>

definition available :: "u8 list \<Rightarrow> nat \<Rightarrow> nat list" where
  "available tags t = filter (\<lambda>p. tags ! p = tier_tag t) [0..<length tags]"

lemma available_Cons:
  "available (x # xs) t = (if x = tier_tag t then [0] else []) @ map Suc (available xs t)"
  by (auto simp: available_def upt_conv_Cons filter_map comp_def map_Suc_upt [symmetric] simp del: upt_Suc)

lemma available_snoc:
  "available (xs @ [x]) t = available xs t @ (if x = tier_tag t then [length xs] else [])"
  by (auto simp: available_def nth_append intro!: filter_cong)

lemma length_available [simp]: "length (available tags t) = count_list tags (tier_tag t)"
  by (induction tags rule: rev_induct) (auto simp: available_snoc, simp add: available_def)

lemma set_available: "set (available tags t) = {p. p < length tags \<and> tags ! p = tier_tag t}"
  by (auto simp: available_def)

lemma available_nth:
  "r < count_list tags (tier_tag t) \<Longrightarrow>
   available tags t ! r < length tags \<and> tags ! (available tags t ! r) = tier_tag t \<and>
   count_list (take (available tags t ! r) tags) (tier_tag t) = r"
proof (induction tags arbitrary: r)
  case (Cons x xs)
  show ?case
  proof (cases "x = tier_tag t \<and> r = 0")
    case True
    then show ?thesis by (simp add: available_Cons)
  next
    case False
    define q where "q = r - of_bool (x = tier_tag t)"
    have q: "q < count_list xs (tier_tag t)" "r = q + of_bool (x = tier_tag t)"
      using Cons.prems False by (auto simp: q_def split: if_splits)
    then have "available (x # xs) t ! r = Suc (available xs t ! q)"
      by (auto simp: available_Cons)
    with Cons.IH [OF q(1)] q(2) show ?thesis by auto
  qed
qed simp

lemma scan_tags_found:
  assumes "unat tier < 8" "unat rank < count_list xs (tier_tag (unat tier))"
  shows "scan_tags xs tier rank off = Inr (off + available xs (unat tier) ! unat rank)"
  using assms(2)
proof (induction xs arbitrary: rank off)
  case (Cons x xs)
  let ?t = "tier_tag (unat tier)"
  note tag = add_ov_tier [OF assms(1)]
  consider "x \<noteq> ?t" | "x = ?t" "rank = 0" | "x = ?t" "rank \<noteq> 0" by blast
  then show ?case
  proof cases
    case 3
    with Cons tag dec_rank [OF 3(2)] show ?thesis by (simp add: available_Cons)
  qed (use Cons tag in \<open>simp_all add: available_Cons\<close>)
qed simp

lemma scan_tags_missing:
  assumes "unat tier < 8" "count_list xs (tier_tag (unat tier)) \<le> unat rank"
  shows "scan_tags xs tier rank off = Inl (gerr InvalidItem)"
  using assms(2)
proof (induction xs arbitrary: rank off)
  case (Cons x xs)
  note tag = add_ov_tier [OF assms(1)]
  show ?case
  proof (cases "x = tier_tag (unat tier)")
    case True
    with Cons.prems have "rank \<noteq> 0" by auto
    with Cons True tag dec_rank [of rank] show ?thesis by simp
  qed (use Cons tag in simp)
qed simp

lemma available_append: "available (xs @ ys) t = available xs t @ map ((+) (length xs)) (available ys t)"
  by (induction ys rule: rev_induct)
     (simp_all add: available_snoc append_assoc [symmetric] del: append_assoc, simp add: available_def)

lemma available_zeros: "t < 8 \<Longrightarrow> available (xs @ replicate n 0) t = available xs t"
  by (simp add: available_append) (auto simp: available_def)

text \<open>The 64 tags of a block, zero past the last position.\<close>

definition block_tags :: "u8 list \<Rightarrow> nat \<Rightarrow> u8 list" where
  "block_tags tags b = take 64 (drop (64 * b) tags)"

lemma slice_block:
  assumes inv: "index_inv d tags" and same: "same_tags d d'" and b: "b < index_blocks d"
  shows "b * 96 + 32 + 64 \<le> length d'"
    and "slice (b * 96 + 32) 64 d' = block_tags tags b @ replicate (64 - length (block_tags tags b)) 0"
proof -
  show len: "b * 96 + 32 + 64 \<le> length d'"
    using index_blocks_le [of "Suc b" d] b same by (simp add: same_tags_def)
  show "slice (b * 96 + 32) 64 d' = block_tags tags b @ replicate (64 - length (block_tags tags b)) 0"
  proof (rule nth_equalityI)
    show "length (slice (b * 96 + 32) 64 d') = length (block_tags tags b @ replicate (64 - length (block_tags tags b)) 0)"
      using len by (simp add: block_tags_def)
    fix i assume "i < length (slice (b * 96 + 32) 64 d')"
    then have i: "i < 64" by simp
    then have p: "64 * b + i < 64 * index_blocks d" using b by linarith
    have "tag_index (64 * b + i) = b * 96 + 32 + i" using i by (simp add: tag_index_def)
    then have "d' ! tag_index (64 * b + i) = (if 64 * b + i < length tags then tags ! (64 * b + i) else 0)"
      using same p index_invD(6) [OF inv p] unfolding same_tags_def by metis
    with \<open>tag_index (64 * b + i) = b * 96 + 32 + i\<close> have "d' ! (b * 96 + 32 + i) = (if 64 * b + i < length tags then tags ! (64 * b + i) else 0)"
      by simp
    then show "slice (b * 96 + 32) 64 d' ! i = (block_tags tags b @ replicate (64 - length (block_tags tags b)) 0) ! i"
      using i len by (auto simp: nth_slice block_tags_def nth_append)
  qed
qed

lemma prefix_block:
  "prefix_count tags t (64 * (b + 1)) = prefix_count tags t (64 * b) + count_list (block_tags tags b) (tier_tag t)"
  using prefix_count_add [of tags t "64 * b" 64] by (simp add: block_tags_def add.commute)

lemma available_block:
  assumes "prefix_count tags t (64 * b) \<le> r" "r < prefix_count tags t (64 * (b + 1))"
  shows "available tags t ! r = 64 * b + available (block_tags tags b) t ! (r - prefix_count tags t (64 * b))"
proof -
  let ?pre = "take (64 * b) tags" and ?q = "r - prefix_count tags t (64 * b)"
  have tags: "tags = ?pre @ block_tags tags b @ drop (64 * b + 64) tags"
    by (simp add: block_tags_def add.commute drop_drop [symmetric] del: drop_drop)
  have q: "?q < count_list (block_tags tags b) (tier_tag t)" using assms prefix_block [of tags t b] by linarith
  then have "block_tags tags b \<noteq> []" by auto
  then have len: "length ?pre = 64 * b" by (simp add: block_tags_def)
  have "available tags t ! r = (available ?pre t @ map ((+) (64 * b))
      (available (block_tags tags b @ drop (64 * b + 64) tags) t)) ! r"
    by (subst tags) (simp only: available_append len)
  also have "\<dots> = 64 * b + available (block_tags tags b @ drop (64 * b + 64) tags) t ! ?q"
    using assms(1) q by (simp add: nth_append available_append prefix_count_def)
  also have "available (block_tags tags b @ drop (64 * b + 64) tags) t ! ?q = available (block_tags tags b) t ! ?q"
    using q by (simp add: available_append nth_append)
  finally show ?thesis .
qed

text \<open>The descent from the root, over the whole index.\<close>

lemma descend_root:
  assumes inv: "index_inv d tags" and t: "t < 8" and b: "b \<le> index_blocks d"
    and r: "prefix_count tags t (64 * b) \<le> unat rank"
      "b < index_blocks d \<longrightarrow> unat rank < prefix_count tags t (64 * (b + 1))"
  obtains d' rank' where "descend d 0 rank (next_power_of_two (index_blocks d)) t = Inr (d', b, rank')"
    "unat rank' + prefix_count tags t (64 * b) = unat rank" "same_tags d d'"
    "\<And>m s. 0 < m \<Longrightarrow> m \<le> index_blocks d \<Longrightarrow> s < 8 \<Longrightarrow>
      unat (node_cnt d' m s) + of_bool (s = t \<and> covers m (b + 1)) = unat (node_cnt d m s)"
proof -
  obtain k where k: "next_power_of_two (index_blocks d) = 2 ^ k" "index_blocks d \<le> 2 ^ k"
    using next_power_of_two by blast
  have "next_power_of_two (index_blocks d) \<le> 2 ^ 32"
    using index_invD(3) [OF inv] by (intro next_power_of_two_le) simp_all
  then have "k \<le> 32" unfolding k(1) by (metis numeral_le_iff power_le_imp_le_exp semiring_norm(76) one_less_numeral_iff)
  then have ok: "descent_ok d tags t (Suc k) b (unat rank)"
    using t b r index_invD(3) [OF inv] nodes_okD [OF index_invD(7) [OF inv] _ _ t]
    by (auto simp: descent_ok_def)
  have k2: "index_blocks d < 2 ^ Suc k" using k(2) by (rule order.strict_trans1) simp
  then have "b div 2 ^ Suc k = 0" using b by simp
  then have node: "base_node (Suc k) b = 0" by (simp add: base_node_def)
  have low: "lowbit m < 2 ^ Suc k" if "m \<le> index_blocks d" for m
    using lowbit_le [of m] that k2 by linarith
  from descend_descended [OF ok, of rank, unfolded node descended_def] that low show ?thesis
    unfolding k(1) by auto
qed

subsection \<open>take\<close>

text \<open>The block of the rank-th position, and the scan that finds the position in it.\<close>

lemma rank_block:
  assumes rank: "r < count_list tags (tier_tag t)"
  defines "b \<equiv> available tags t ! r div 64"
  shows "prefix_count tags t (64 * b) \<le> r" "r < prefix_count tags t (64 * (b + 1))"
proof -
  let ?p = "available tags t ! r"
  have p: "?p < length tags" "tags ! ?p = tier_tag t" and cp: "prefix_count tags t ?p = r"
    using available_nth [OF rank] by (simp_all add: prefix_count_def)
  have pb: "64 * b \<le> ?p" "?p < 64 * (b + 1)"
    by (simp_all add: b_def mult.commute [of 64] dividend_less_times_div)
  show "prefix_count tags t (64 * b) \<le> r" using prefix_count_mono [OF pb(1), of tags t] cp by simp
  have "prefix_count tags t (Suc ?p) \<le> prefix_count tags t (64 * (b + 1))" using pb(2) by (intro prefix_count_mono) simp
  then show "r < prefix_count tags t (64 * (b + 1))" using prefix_count_Suc [OF p(1), of t] p(2) cp by simp
qed

lemma scan_block:
  assumes inv: "index_inv d tags" and same: "same_tags d d'" and b: "b < index_blocks d" and tier: "unat tier < 8"
    and lo: "prefix_count tags (unat tier) (64 * b) \<le> r" and hi: "r < prefix_count tags (unat tier) (64 * (b + 1))"
    and r: "unat rank + prefix_count tags (unat tier) (64 * b) = r"
  obtains off where "scan_tags (slice (b * 96 + 32) 64 d') tier rank 0 = Inr off"
    "64 * b + off = available tags (unat tier) ! r" "b * 96 + 32 + off = tag_index (available tags (unat tier) ! r)"
proof -
  let ?blk = "block_tags tags b"
  let ?off = "available ?blk (unat tier) ! unat rank"
  have "unat rank < count_list ?blk (tier_tag (unat tier))" using hi r prefix_block [of tags "unat tier" b] by linarith
  then have scan: "scan_tags (slice (b * 96 + 32) 64 d') tier rank 0 = Inr ?off" and off: "?off < 64"
    using scan_tags_found [OF tier, of rank "slice (b * 96 + 32) 64 d'" 0] slice_block(2) [OF inv same b] tier
      available_nth [of "unat rank" ?blk "unat tier"]
    by (simp_all add: available_zeros block_tags_def)
  moreover have p: "64 * b + ?off = available tags (unat tier) ! r" using available_block [OF lo hi] r by auto
  moreover have "b * 96 + 32 + ?off = tag_index (available tags (unat tier) ! r)"
    unfolding p [symmetric] tag_index_def using off by simp
  ultimately show thesis using that by blast
qed

lemma index_take_eq:
  assumes inv: "index_inv d tags" and tier: "unat tier < 8"
    and rank: "unat rank < count_list tags (tier_tag (unat tier))"
  obtains d' position where "index_take d tier rank = Inr (d', position)" "length d' = length d"
    "unat position = available tags (unat tier) ! unat rank" "index_inv d' (tags[unat position := 0])"
proof -
  let ?t = "unat tier"
  let ?p = "available tags ?t ! unat rank"
  let ?b = "?p div 64"
  have p: "?p < length tags" "tags ! ?p = tier_tag ?t" using available_nth [OF rank] by simp_all
  have b: "?b < index_blocks d" using p(1) index_invD(5) [OF inv] by (simp add: less_mult_imp_div_less mult.commute)
  note block = rank_block [OF rank]
  obtain d1 rank' where d1: "descend d 0 rank (next_power_of_two (index_blocks d)) ?t = Inr (d1, ?b, rank')"
    "unat rank' + prefix_count tags ?t (64 * ?b) = unat rank" "same_tags d d1"
    "\<And>m s. 0 < m \<Longrightarrow> m \<le> index_blocks d \<Longrightarrow> s < 8 \<Longrightarrow>
      unat (node_cnt d1 m s) + of_bool (s = ?t \<and> covers m (?b + 1)) = unat (node_cnt d m s)"
    by (rule descend_root [OF inv tier _ block(1)]) (use b block(2) in auto)
  obtain off where off: "scan_tags (slice (?b * 96 + 32) 64 d1) tier rank' 0 = Inr off" "64 * ?b + off = ?p"
    "?b * 96 + 32 + off = tag_index ?p"
    by (rule scan_block [OF inv d1(3) b tier block d1(2)])
  have eq: "index_take d tier rank = Inr (d1[tag_index ?p := 0], word_of_nat ?p)"
    using d1(1) b slice_block(1) [OF inv d1(3) b] off unfolding index_take_def Let_def
    by (simp add: mult.commute [of _ "64 :: nat"] del: of_nat_add)
  have pos: "unat (word_of_nat ?p :: u32) = ?p"
    using p(1) index_invD(2) [OF inv] by (intro unat_word_position) simp
  have pB: "?p < 64 * index_blocks d" using p(1) index_invD(5) [OF inv] by simp
  have B1: "index_blocks d1 = index_blocks d" using same_tags_blocks [OF d1(3)] .
  have "same_tags (d[tag_index ?p := 0]) (d1[tag_index ?p := 0])"
    using d1(3) tag_set_tag [OF pB] tag_set_tag [of ?p d1] pB B1 by (simp add: same_tags_def)
  then have "index_inv (d1[tag_index ?p := 0]) (tags[?p := 0])"
    by (rule index_inv_clear [OF inv p tier])
      (use d1(4) node_cnt_set_tag [of _ d1 _ ?p] pB B1 in simp)
  moreover have "length (d1[tag_index ?p := 0]) = length d" using d1(3) by (simp add: same_tags_def)
  ultimately show ?thesis using that eq pos by metis
qed

text \<open>A rank that no available position has is \<open>InvalidItem\<close>.\<close>

lemma index_take_missing:
  assumes inv: "index_inv d tags" and tier: "unat tier < 8"
    and rank: "count_list tags (tier_tag (unat tier)) \<le> unat rank"
  shows "index_take d tier rank = Inl (gerr InvalidItem)"
proof -
  have "prefix_count tags (unat tier) (64 * index_blocks d) \<le> unat rank"
    using rank index_invD(5) [OF inv] by (simp add: prefix_count_beyond)
  then obtain d1 rank' where
    "descend d 0 rank (next_power_of_two (index_blocks d)) (unat tier) = Inr (d1, index_blocks d, rank')"
    using descend_root [OF inv tier order.refl] by (metis less_irrefl)
  then show ?thesis by (simp add: index_take_def Let_def)
qed

end
