(* ===== verification/Availability.thy ===== *)
theory Availability
  imports Inventory_Take
begin

section \<open>The interface of the availability index\<close>

text \<open>
  What the handlers rely on: the index represents a list of tier tags, one per position ever
  appended (zero once the prize has left), \<open>counts\<close> counts a prefix, \<open>take\<close> and \<open>remove\<close> clear a
  position and \<open>append\<close> adds one. The draw pins a prefix: the lemmas of the locale show that a rank
  below the prefix count always selects a position inside that prefix, whatever lies beyond it.
\<close>

locale availability =
  fixes holds :: "'s \<Rightarrow> u8 list \<Rightarrow> bool"
    and counts :: "'s \<Rightarrow> u32 \<Rightarrow> u32 list result"
    and select :: "'s \<Rightarrow> u8 \<Rightarrow> u32 \<Rightarrow> ('s \<times> u32) result"
    and restock :: "'s \<Rightarrow> u32 \<Rightarrow> u8 \<Rightarrow> 's result"
    and discard :: "'s \<Rightarrow> u32 \<Rightarrow> u8 \<Rightarrow> 's result"
  assumes bounded: "holds x tags \<Longrightarrow> length tags < 2 ^ 32"
    and counts_law: "holds x tags \<Longrightarrow> unat cutoff \<le> length tags \<Longrightarrow>
      \<exists>r. counts x cutoff = Inr r \<and> length r = 8 \<and> (\<forall>t < 8. unat (r ! t) = prefix_count tags t (unat cutoff))"
    and select_law: "holds x tags \<Longrightarrow> unat tier < 8 \<Longrightarrow>
      unat rank < count_list tags (tier_tag (unat tier)) \<Longrightarrow>
      \<exists>x' position. select x tier rank = Inr (x', position) \<and>
        unat position = available tags (unat tier) ! unat rank \<and> holds x' (tags[unat position := 0])"
    and select_missing: "holds x tags \<Longrightarrow> unat tier < 8 \<Longrightarrow>
      count_list tags (tier_tag (unat tier)) \<le> unat rank \<Longrightarrow> select x tier rank = Inl (gerr InvalidItem)"
    and restock_law: "holds x tags \<Longrightarrow> unat tier < 8 \<Longrightarrow> unat position = length tags \<Longrightarrow>
      length tags + 1 < 2 ^ 32 \<Longrightarrow>
      \<exists>x'. restock x position tier = Inr x' \<and> holds x' (tags @ [tier_tag (unat tier)])"
    and discard_law: "holds x tags \<Longrightarrow> unat tier < 8 \<Longrightarrow> unat position < length tags \<Longrightarrow>
      tags ! unat position = tier_tag (unat tier) \<Longrightarrow>
      \<exists>x'. discard x position tier = Inr x' \<and> holds x' (tags[unat position := 0])"
    and discard_missing: "holds x tags \<Longrightarrow> unat tier < 8 \<Longrightarrow>
      (unat position < length tags \<longrightarrow> tags ! unat position \<noteq> tier_tag (unat tier)) \<Longrightarrow>
      discard x position tier = Inl (gerr InvalidItem)"
begin

text \<open>The rank-th available position lies in every prefix that holds more than \<open>rank\<close> of them.\<close>

lemma rank_in_prefix:
  assumes "r < prefix_count tags t c"
  shows "available tags t ! r < c" "r < count_list tags (tier_tag t)"
proof -
  have "prefix_count tags t c \<le> prefix_count tags t (c + length tags)"
    by (rule prefix_count_mono) simp
  with assms show r: "r < count_list tags (tier_tag t)" by (simp add: prefix_count_beyond)
  show "available tags t ! r < c"
  proof (rule ccontr)
    assume "\<not> ?thesis"
    then have "prefix_count tags t c \<le> prefix_count tags t (available tags t ! r)"
      by (intro prefix_count_mono) simp
    with assms available_nth [OF r] show False by (simp add: prefix_count_def)
  qed
qed

lemma select_in_prefix:
  assumes "holds x tags" "unat tier < 8" "unat rank < prefix_count tags (unat tier) c"
  obtains x' position where "select x tier rank = Inr (x', position)" "holds x' (tags[unat position := 0])"
    "unat position < c" "unat position < length tags" "tags ! unat position = tier_tag (unat tier)"
    "unat position = available tags (unat tier) ! unat rank"
    "\<And>s. s < 8 \<Longrightarrow> prefix_count (tags[unat position := 0]) s c + of_bool (s = unat tier) = prefix_count tags s c"
proof -
  note r = rank_in_prefix [OF assms(3)]
  obtain x' position where s: "select x tier rank = Inr (x', position)"
    "unat position = available tags (unat tier) ! unat rank" "holds x' (tags[unat position := 0])"
    using select_law [OF assms(1,2) r(2)] by blast
  have p: "unat position < length tags" "tags ! unat position = tier_tag (unat tier)"
    using available_nth [OF r(2)] s(2) by simp_all
  have "prefix_count (tags[unat position := 0]) q c + of_bool (q = unat tier) = prefix_count tags q c"
    if "q < 8" for q
    using prefix_count_clear [OF p assms(2) that, of c] r(1) s(2) by simp
  with s p r(1) that show ?thesis by simp
qed

text \<open>What lies beyond the prefix is irrelevant: two indexes with the same prefix select alike.\<close>

lemma available_prefix:
  assumes "r < prefix_count tags t c" "take c tags = take c tags'"
  shows "available tags t ! r = available tags' t ! r"
proof -
  have count: "prefix_count tags t c = prefix_count tags' t c"
    using assms(2) by (simp add: prefix_count_def)
  have "available xs t ! r = available (take c xs) t ! r" if "r < prefix_count xs t c" for xs
    using that available_append [of "take c xs" "drop c xs" t] by (simp add: nth_append prefix_count_def)
  with assms count show ?thesis by metis
qed

text \<open>Restocking leaves every count of an older prefix alone, and adds one position.\<close>

lemma restock_counts:
  assumes "holds x tags" "unat tier < 8" "unat position = length tags" "length tags + 1 < 2 ^ 32"
    and "unat cutoff \<le> length tags"
  obtains x' where "restock x position tier = Inr x'" "counts x' cutoff = counts x cutoff"
proof -
  obtain x' where x': "restock x position tier = Inr x'" "holds x' (tags @ [tier_tag (unat tier)])"
    using restock_law [OF assms(1-4)] by blast
  obtain r r' where r: "counts x cutoff = Inr r" "length r = 8" "\<forall>t < 8. unat (r ! t) = prefix_count tags t (unat cutoff)"
    and r': "counts x' cutoff = Inr r'" "length r' = 8"
      "\<forall>t < 8. unat (r' ! t) = prefix_count (tags @ [tier_tag (unat tier)]) t (unat cutoff)"
    using counts_law [OF assms(1,5)] counts_law [OF x'(2), of cutoff] assms(5) by auto
  have "r = r'"
    using r(2,3) r'(2,3) assms(5) by (intro nth_equalityI) (simp_all add: prefix_count_append word_unat_eq_iff)
  with x' r r' that show ?thesis by simp
qed

text \<open>A position that was just restocked can be discarded, which gives back the old counts.\<close>

lemma discard_restocked:
  assumes "holds x tags" "unat tier < 8" "unat position = length tags" "length tags + 1 < 2 ^ 32"
  obtains x' x'' where "restock x position tier = Inr x'" "discard x' position tier = Inr x''"
    "holds x'' (tags @ [0])" "discard x'' position tier = Inl (gerr InvalidItem)"
proof -
  obtain x' where x': "restock x position tier = Inr x'" "holds x' (tags @ [tier_tag (unat tier)])"
    using restock_law [OF assms] by blast
  then obtain x'' where x'': "discard x' position tier = Inr x''" "holds x'' (tags @ [0])"
    using discard_law [OF x'(2) assms(2), of position] assms(3) by (auto simp: list_update_append)
  moreover have "discard x'' position tier = Inl (gerr InvalidItem)"
    by (rule discard_missing [OF x''(2) assms(2)]) (simp add: assms(2,3))
  ultimately show ?thesis using that x'(1) by blast
qed

end

subsection \<open>The index of the program\<close>

text \<open>The index of an account whose length fits its number of positions, as \<open>Pool::load\<close> requires.\<close>

definition index_rep :: "bytes \<Rightarrow> u8 list \<Rightarrow> bool" where
  "index_rep d tags \<longleftrightarrow> index_inv d tags \<and> length d = div_ceil (length tags) 64 * 96"

text \<open>\<open>restock\<close> grows the account by zeros to the space of the next version, then appends.\<close>

definition index_restock :: "bytes \<Rightarrow> u32 \<Rightarrow> u8 \<Rightarrow> bytes result" where
  "index_restock d position tier =
     index_append (grow_index d (div_ceil (unat position + 1) 64 * 96)) position tier"

lemma length_grow_index: "length d \<le> n \<Longrightarrow> length (grow_index d n) = n"
  by (simp add: grow_index_def)

lemma div_ceil_mono: "a \<le> b \<Longrightarrow> div_ceil a 64 \<le> div_ceil b 64"
proof -
  assume "a \<le> b"
  then have le: "a div 64 \<le> b div 64" by (rule div_le_mono)
  show "div_ceil a 64 \<le> div_ceil b 64"
  proof (cases "a div 64 = b div 64")
    case True
    then have "a mod 64 \<le> b mod 64"
      using \<open>a \<le> b\<close> div_mult_mod_eq [of a 64] div_mult_mod_eq [of b 64] by linarith
    with True show ?thesis by (simp add: div_ceil_def)
  next
    case False
    with le show ?thesis by (simp add: div_ceil_def)
  qed
qed

interpretation index: availability index_rep index_counts index_take index_restock index_remove
proof unfold_locales
  fix d tags and cutoff :: u32 and tier :: u8 and rank position :: u32
  assume rep: "index_rep d tags"
  then have inv: "index_inv d tags" and len: "length d = div_ceil (length tags) 64 * 96"
    by (simp_all add: index_rep_def)
  show "length tags < 2 ^ 32" using index_invD(2) [OF inv] .
  show "unat cutoff \<le> length tags \<Longrightarrow> \<exists>r. index_counts d cutoff = Inr r \<and> length r = 8 \<and>
      (\<forall>t < 8. unat (r ! t) = prefix_count tags t (unat cutoff))"
    by (rule index_counts_eq [OF inv]) auto
  assume tier: "unat tier < 8"
  show "unat rank < count_list tags (tier_tag (unat tier)) \<Longrightarrow>
      \<exists>x' position. index_take d tier rank = Inr (x', position) \<and>
        unat position = available tags (unat tier) ! unat rank \<and> index_rep x' (tags[unat position := 0])"
    by (rule index_take_eq [OF inv tier]) (auto simp: index_rep_def len)
  show "count_list tags (tier_tag (unat tier)) \<le> unat rank \<Longrightarrow> index_take d tier rank = Inl (gerr InvalidItem)"
    by (rule index_take_missing [OF inv tier])
  show "unat position = length tags \<Longrightarrow> length tags + 1 < 2 ^ 32 \<Longrightarrow>
      \<exists>x'. index_restock d position tier = Inr x' \<and> index_rep x' (tags @ [tier_tag (unat tier)])"
  proof -
    assume p: "unat position = length tags" and room: "length tags + 1 < 2 ^ 32"
    let ?g = "grow_index d (div_ceil (length tags + 1) 64 * 96)"
    have "length ?g = div_ceil (length tags + 1) 64 * 96"
      using len div_ceil_mono [of "length tags" "length tags + 1"] by (intro length_grow_index) simp
    then show ?thesis
      using index_append_eq [OF index_inv_grow [OF inv len room] tier p]
      unfolding index_restock_def p index_rep_def by (metis length_append_singleton Suc_eq_plus1)
  qed
  show "unat position < length tags \<Longrightarrow> tags ! unat position = tier_tag (unat tier) \<Longrightarrow>
      \<exists>x'. index_remove d position tier = Inr x' \<and> index_rep x' (tags[unat position := 0])"
    by (rule index_remove_eq [OF inv _ tier, of position]) (auto simp: index_rep_def len)
  show "(unat position < length tags \<longrightarrow> tags ! unat position \<noteq> tier_tag (unat tier)) \<Longrightarrow>
      index_remove d position tier = Inl (gerr InvalidItem)"
    by (rule index_remove_missing [OF inv tier])
qed

lemma index_rep_empty: "index_rep [] []"
  by (simp add: index_rep_def index_inv_def tags_ok_def nodes_ok_def index_blocks_def div_ceil_def)

subsection \<open>Properties of the index\<close>

text \<open>Three positions, of tiers 0, 1 and 0, for the witnesses.\<close>

definition sample_index :: bytes where
  "sample_index = [2, 0, 0, 0, 1, 0, 0, 0] @ replicate 24 0 @ [1, 2, 1] @ replicate 61 0"

lemma sample_index_rep: "index_rep sample_index [1, 2, 1]"
proof -
  have blocks: "index_blocks sample_index = 1" by (simp add: index_blocks_def sample_index_def)
  have "tags_ok sample_index [1, 2, 1]"
    unfolding tags_ok_def blocks
  proof (intro conjI allI impI)
    fix p :: nat assume p: "p < 64 * 1"
    then have "tag_index p = p + 32" by (simp add: tag_index_def)
    with p show "sample_index ! tag_index p = (if p < length [1, 2, 1 :: u8] then [1, 2, 1] ! p else 0)"
      by (auto simp: sample_index_def nth_append nth_Cons' less_Suc_eq numeral_3_eq_3 numeral_2_eq_2)
  qed simp
  moreover have "nodes_ok sample_index [1, 2, 1] 1"
    unfolding nodes_ok_def
  proof (intro allI impI)
    fix n t :: nat assume n: "0 < n" "n \<le> 1" and t: "t < 8"
    then have "n = 1" by simp
    moreover have "lowbit 1 = 1" by (simp add: lowbit.simps)
    moreover have "list_all (\<lambda>t. unat (node_cnt sample_index 1 t) = prefix_count [1, 2, 1] t 64) [0..<8]"
      by code_simp
    ultimately show "prefix_count [1, 2, 1] t (64 * (n - lowbit n)) + unat (node_cnt sample_index n t) =
        prefix_count [1, 2, 1] t (64 * n)" using t by (simp add: list_all_iff)
  qed
  ultimately show ?thesis
    by (simp add: index_rep_def index_inv_def blocks div_ceil_def) (simp add: sample_index_def)
qed

text \<open>
  C24: \<open>counts\<close> never panics on a represented index and returns, for each of the eight tiers, the
  number of available positions below the cutoff.
\<close>

theorem index_counts_correct:
  assumes "index_rep d tags" "unat cutoff \<le> length tags"
  shows "\<exists>counts. index_counts d cutoff = Inr counts \<and> length counts = MAX_TIERS \<and>
    (\<forall>t < MAX_TIERS. unat (counts ! t) = count_list (take (unat cutoff) tags) (tier_tag t))"
  using index.counts_law [OF assms] by (simp add: prefix_count_def)

theorem index_counts_correct_witness:
  "\<exists>counts. index_counts sample_index 3 = Inr counts \<and> unat (counts ! 0) = 2 \<and> unat (counts ! 1) = 1"
  using index_counts_correct [OF sample_index_rep, of 3] by (auto simp: tier_tag_def)

text \<open>
  C9: \<open>take(tier, rank)\<close> refines removal from a list: it returns the \<open>rank\<close>-th available position of
  the tier in position order, makes exactly that position unavailable and updates every Fenwick
  count accordingly; a rank that no available position has is \<open>InvalidItem\<close>, never a panic.
\<close>

theorem index_take_refines:
  assumes "index_rep d tags" "unat tier < MAX_TIERS"
  shows "if unat rank < count_list tags (tier_tag (unat tier))
    then \<exists>d' position. index_take d tier rank = Inr (d', position) \<and>
      unat position = filter (\<lambda>p. tags ! p = tier_tag (unat tier)) [0..<length tags] ! unat rank \<and>
      index_rep d' (tags[unat position := 0])
    else index_take d tier rank = Inl (gerr InvalidItem)"
  using index.select_law [OF assms] index.select_missing [OF assms] unfolding available_def
  by (auto simp del: upt_Suc)

theorem index_take_refines_witness:
  "\<exists>d' position. index_take sample_index 0 1 = Inr (d', position) \<and> unat position = 2 \<and>
    index_rep d' [1, 2, 0]"
  using index_take_refines [OF sample_index_rep, of 0 1]
  by (auto simp: tier_tag_def upt_rec list_update_code)

text \<open>
  C23: depositing is an append. Growing the account by zeros and appending position \<open>length tags\<close>
  never panics, also when it opens a new block, and gives the index of the longer list; every count
  at an older cutoff stays the same, so the odds of a pinned purchase do not change.
\<close>

theorem index_append_refines:
  assumes "index_rep d tags" "unat tier < MAX_TIERS" "unat position = length tags"
    and "length tags + 1 < 2 ^ 32"
  shows "\<exists>d'. index_append (grow_index d (div_ceil (unat position + 1) INVENTORY_TAGS_PER_BLOCK * INVENTORY_BLOCK_LEN))
        position tier = Inr d' \<and>
      index_rep d' (tags @ [tier_tag (unat tier)]) \<and>
      (\<forall>cutoff. unat cutoff \<le> length tags \<longrightarrow> index_counts d' cutoff = index_counts d cutoff)"
  using index.restock_law [OF assms] index.restock_counts [OF assms] unfolding index_restock_def
  by (metis Inr_inject)

theorem index_append_refines_witness:
  "\<exists>d'. index_append (grow_index sample_index 96) 3 5 = Inr d' \<and> index_rep d' [1, 2, 1, 6] \<and>
    index_counts d' 3 = index_counts sample_index 3"
  using index_append_refines [OF sample_index_rep, of 5 3] by (auto simp: div_ceil_def tier_tag_def)

text \<open>
  C25: \<open>remove(position, tier)\<close> makes exactly that position unavailable if it is available in that
  tier, and is \<open>InvalidItem\<close> otherwise (another tier, already gone, or out of range), never a panic.
\<close>

theorem index_remove_refines:
  assumes "index_rep d tags" "unat tier < MAX_TIERS"
  shows "if unat position < length tags \<and> tags ! unat position = tier_tag (unat tier)
    then \<exists>d'. index_remove d position tier = Inr d' \<and> index_rep d' (tags[unat position := 0])
    else index_remove d position tier = Inl (gerr InvalidItem)"
  using index.discard_law [OF assms] index.discard_missing [OF assms] by simp

theorem index_remove_refines_witness:
  "(\<exists>d'. index_remove sample_index 1 1 = Inr d' \<and> index_rep d' [1, 0, 1]) \<and>
   index_remove sample_index 1 0 = Inl (gerr InvalidItem)"
  using index_remove_refines [OF sample_index_rep, of 1 1] index_remove_refines [OF sample_index_rep, of 0 1]
  by (simp add: tier_tag_def)

end
