(* ===== verification/Layout.thy ===== *)
theory Layout
  imports Core_Errors
begin

section \<open>gacha-core: account layouts\<close>

text \<open>
  The account structs of \<open>packages/gacha-core/src/state.rs\<close>: \<open>Pool\<close>, \<open>Tier\<close>, \<open>Item\<close> and
  \<open>Pull\<close>. The Rust structs are overlaid on raw account bytes (\<open>#[repr(C)]\<close>, alignment 1, every
  field a little-endian byte array), so each has two definitions here: \<open>decode_*\<close> reads every
  field at its offset, which is what a shared view gives, and \<open>encode_*\<close> lists the fields in
  declaration order, which is what a mutable view leaves in the first bytes of the account.
  Setters are record updates, and \<open>overlay\<close> writes an updated struct back over the account.

  The locale \<open>layout\<close> is the contract of an overlaid struct; the three structs are
  interpretations of it.
\<close>

definition overlay :: "('a \<Rightarrow> bytes) \<Rightarrow> nat \<Rightarrow> 'a \<Rightarrow> bytes \<Rightarrow> bytes" where
  "overlay enc len x d = enc x @ drop len d"

locale layout =
  fixes enc :: "'a \<Rightarrow> bytes" and dec :: "bytes \<Rightarrow> 'a" and len :: nat and wf :: "'a \<Rightarrow> bool"
  assumes length_enc: "wf x \<Longrightarrow> length (enc x) = len"
    and dec_enc: "wf x \<Longrightarrow> dec (enc x @ rest) = x"
    and enc_dec: "len \<le> length d \<Longrightarrow> enc (dec d) = take len d"
    and wf_dec: "wf (dec d)"
begin

lemma dec_overlay: "wf x \<Longrightarrow> dec (overlay enc len x d) = x"
  by (simp add: overlay_def dec_enc)

lemma length_overlay: "wf x \<Longrightarrow> len \<le> length d \<Longrightarrow> length (overlay enc len x d) = length d"
  by (simp add: overlay_def length_enc)

lemma drop_overlay: "wf x \<Longrightarrow> drop len (overlay enc len x d) = drop len d"
  by (simp add: overlay_def length_enc)

lemma overlay_dec: "len \<le> length d \<Longrightarrow> overlay enc len (dec d) d = d"
  by (simp add: overlay_def enc_dec)

lemma overlay_overlay: "wf x \<Longrightarrow> overlay enc len y (overlay enc len x d) = overlay enc len y d"
  by (simp add: overlay_def length_enc)

lemma enc_inject: "wf x \<Longrightarrow> wf y \<Longrightarrow> enc x = enc y \<longleftrightarrow> x = y"
  by (metis dec_enc)

end

subsection \<open>Tier and Pool\<close>

record tier =
  tier_weight :: u32
  tier_remaining :: u32

record pool =
  pool_version :: u8
  pool_bump :: u8
  pool_tier_count :: u8
  pool_status :: u8
  pool_inventory_version :: u32
  pool_authority :: pubkey
  pool_operator :: pubkey
  pool_payment_mint :: pubkey
  pool_vault :: pubkey
  pool_id :: u64
  pool_price :: u64
  pool_deadline_slots :: u64
  pool_bond_per_draw :: u64
  pool_pending_draws :: u64
  pool_next_index :: u64
  pool_next_settle :: u64
  pool_tiers_all :: "tier list"

definition decode_tier :: "bytes \<Rightarrow> tier" where
  "decode_tier d = \<lparr>tier_weight = from_le (slice 0 4 d), tier_remaining = from_le (slice 4 4 d)\<rparr>"

definition encode_tier :: "tier \<Rightarrow> bytes" where
  "encode_tier t = to_le (tier_weight t) @ to_le (tier_remaining t)"

definition decode_pool :: "bytes \<Rightarrow> pool" where
  "decode_pool d = \<lparr>
     pool_version = from_le (slice 0 1 d),
     pool_bump = from_le (slice 1 1 d),
     pool_tier_count = from_le (slice 2 1 d),
     pool_status = from_le (slice 3 1 d),
     pool_inventory_version = from_le (slice 4 4 d),
     pool_authority = from_le (slice 8 32 d),
     pool_operator = from_le (slice 40 32 d),
     pool_payment_mint = from_le (slice 72 32 d),
     pool_vault = from_le (slice 104 32 d),
     pool_id = from_le (slice 136 8 d),
     pool_price = from_le (slice 144 8 d),
     pool_deadline_slots = from_le (slice 152 8 d),
     pool_bond_per_draw = from_le (slice 160 8 d),
     pool_pending_draws = from_le (slice 168 8 d),
     pool_next_index = from_le (slice 176 8 d),
     pool_next_settle = from_le (slice 184 8 d),
     pool_tiers_all = map (\<lambda>i. decode_tier (slice (192 + i * TIER_LEN) TIER_LEN d)) [0..<MAX_TIERS]\<rparr>"

definition encode_pool :: "pool \<Rightarrow> bytes" where
  "encode_pool p =
     to_le (pool_version p) @ to_le (pool_bump p) @ to_le (pool_tier_count p) @
     to_le (pool_status p) @ to_le (pool_inventory_version p) @ to_le (pool_authority p) @
     to_le (pool_operator p) @ to_le (pool_payment_mint p) @ to_le (pool_vault p) @
     to_le (pool_id p) @ to_le (pool_price p) @ to_le (pool_deadline_slots p) @
     to_le (pool_bond_per_draw p) @ to_le (pool_pending_draws p) @ to_le (pool_next_index p) @
     to_le (pool_next_settle p) @ concat (map encode_tier (pool_tiers_all p))"

text \<open>The array \<open>tiers\<close> has \<open>MAX_TIERS\<close> entries.\<close>

definition pool_wf :: "pool \<Rightarrow> bool" where
  "pool_wf p \<longleftrightarrow> length (pool_tiers_all p) = MAX_TIERS"

text \<open>\<open>Pool::set_inner\<close>: the \<open>zip\<close> writes one weight per tier below \<open>tier_count\<close>.\<close>

fun set_weights :: "tier list \<Rightarrow> u32 list \<Rightarrow> tier list" where
  "set_weights (t # ts) (w # ws) = t\<lparr>tier_weight := w\<rparr> # set_weights ts ws"
| "set_weights ts ws = ts"

text \<open>\<open>tiers()\<close> and \<open>tiers_mut()\<close>: a slice that panics past \<open>MAX_TIERS\<close>.\<close>

definition pool_tiers :: "pool \<Rightarrow> tier list result" where
  "pool_tiers p =
     (if unat (pool_tier_count p) \<le> length (pool_tiers_all p)
      then Inr (take (unat (pool_tier_count p)) (pool_tiers_all p)) else Inl Panic)"

definition pool_set_inner ::
  "u8 \<Rightarrow> pubkey \<Rightarrow> pubkey \<Rightarrow> pubkey \<Rightarrow> pubkey \<Rightarrow> u64 \<Rightarrow> u64 \<Rightarrow> u64 \<Rightarrow> u64 \<Rightarrow> u32 list \<Rightarrow> pool \<Rightarrow> pool result" where
  "pool_set_inner bump authority operator payment_mint vault pid price deadline_slots bond_per_draw weights p =
     (let p = p\<lparr>
        pool_version := POOL_VERSION, pool_bump := bump,
        pool_tier_count := word_of_nat (length weights), pool_status := POOL_PAUSED,
        pool_authority := authority, pool_operator := operator,
        pool_payment_mint := payment_mint, pool_vault := vault, pool_id := pid,
        pool_price := price, pool_deadline_slots := deadline_slots,
        pool_bond_per_draw := bond_per_draw\<rparr>
      in and_then (pool_tiers p) (\<lambda>ts.
         Inr (p\<lparr>pool_tiers_all := set_weights ts weights @ drop (length ts) (pool_tiers_all p)\<rparr>)))"

subsection \<open>Item\<close>

record item =
  item_version :: u8
  item_bump :: u8
  item_tier :: u8
  item_padding :: u8
  item_position :: u32
  item_pool :: pubkey
  item_asset :: pubkey

definition decode_item :: "bytes \<Rightarrow> item" where
  "decode_item d = \<lparr>
     item_version = from_le (slice 0 1 d),
     item_bump = from_le (slice 1 1 d),
     item_tier = from_le (slice 2 1 d),
     item_padding = from_le (slice 3 1 d),
     item_position = from_le (slice 4 4 d),
     item_pool = from_le (slice 8 32 d),
     item_asset = from_le (slice 40 32 d)\<rparr>"

definition encode_item :: "item \<Rightarrow> bytes" where
  "encode_item i =
     to_le (item_version i) @ to_le (item_bump i) @ to_le (item_tier i) @ to_le (item_padding i) @
     to_le (item_position i) @ to_le (item_pool i) @ to_le (item_asset i)"

definition item_set_inner :: "u8 \<Rightarrow> u8 \<Rightarrow> u32 \<Rightarrow> pubkey \<Rightarrow> pubkey \<Rightarrow> item \<Rightarrow> item" where
  "item_set_inner bump tier position pool asset i =
     i\<lparr>item_version := ITEM_VERSION, item_bump := bump, item_tier := tier,
       item_position := position, item_pool := pool, item_asset := asset\<rparr>"

subsection \<open>Pull\<close>

record outcome =
  outcome_tier :: u8
  outcome_asset :: pubkey

record pull =
  pull_version :: u8
  pull_bump :: u8
  pull_status :: u8
  pull_count :: u8
  pull_inventory_version :: u32
  pull_index :: u64
  pull_deadline_slot :: u64
  pull_pool :: pubkey
  pull_buyer :: pubkey
  pull_client_seed :: bytes32
  pull_outcomes :: "outcome list"

definition decode_outcome :: "bytes \<Rightarrow> outcome" where
  "decode_outcome d = \<lparr>outcome_tier = from_le (slice 0 1 d), outcome_asset = from_le (slice 1 32 d)\<rparr>"

definition encode_outcome :: "outcome \<Rightarrow> bytes" where
  "encode_outcome o' = to_le (outcome_tier o') @ to_le (outcome_asset o')"

definition decode_pull :: "bytes \<Rightarrow> pull" where
  "decode_pull d = \<lparr>
     pull_version = from_le (slice 0 1 d),
     pull_bump = from_le (slice 1 1 d),
     pull_status = from_le (slice 2 1 d),
     pull_count = from_le (slice 3 1 d),
     pull_inventory_version = from_le (slice 4 4 d),
     pull_index = from_le (slice 8 8 d),
     pull_deadline_slot = from_le (slice 16 8 d),
     pull_pool = from_le (slice 24 32 d),
     pull_buyer = from_le (slice 56 32 d),
     pull_client_seed = from_le (slice 88 32 d),
     pull_outcomes =
       map (\<lambda>i. decode_outcome (slice (120 + i * OUTCOME_LEN) OUTCOME_LEN d)) [0..<MAX_COUNT]\<rparr>"

definition encode_pull :: "pull \<Rightarrow> bytes" where
  "encode_pull u =
     to_le (pull_version u) @ to_le (pull_bump u) @ to_le (pull_status u) @ to_le (pull_count u) @
     to_le (pull_inventory_version u) @ to_le (pull_index u) @ to_le (pull_deadline_slot u) @
     to_le (pull_pool u) @ to_le (pull_buyer u) @ to_le (pull_client_seed u) @
     concat (map encode_outcome (pull_outcomes u))"

definition pull_wf :: "pull \<Rightarrow> bool" where
  "pull_wf u \<longleftrightarrow> length (pull_outcomes u) = MAX_COUNT"

definition pull_set_inner ::
  "u8 \<Rightarrow> u8 \<Rightarrow> u32 \<Rightarrow> u64 \<Rightarrow> u64 \<Rightarrow> pubkey \<Rightarrow> pubkey \<Rightarrow> bytes32 \<Rightarrow> pull \<Rightarrow> pull" where
  "pull_set_inner bump count inventory_version index deadline_slot pool buyer client_seed u =
     u\<lparr>pull_version := PULL_VERSION, pull_bump := bump, pull_status := STATUS_PENDING,
       pull_count := count, pull_inventory_version := inventory_version, pull_index := index,
       pull_deadline_slot := deadline_slot, pull_pool := pool, pull_buyer := buyer,
       pull_client_seed := client_seed\<rparr>"

text \<open>Indexing the outcome array panics at \<open>MAX_COUNT\<close> and above.\<close>

definition pull_outcome :: "pull \<Rightarrow> nat \<Rightarrow> (u8 \<times> pubkey) result" where
  "pull_outcome u i =
     (if i < length (pull_outcomes u)
      then Inr (outcome_tier (pull_outcomes u ! i), outcome_asset (pull_outcomes u ! i))
      else Inl Panic)"

definition pull_set_outcome :: "nat \<Rightarrow> u8 \<Rightarrow> pubkey \<Rightarrow> pull \<Rightarrow> pull result" where
  "pull_set_outcome i tier asset u =
     (if i < length (pull_outcomes u)
      then Inr (u\<lparr>pull_outcomes := (pull_outcomes u)[i := \<lparr>outcome_tier = tier, outcome_asset = asset\<rparr>]\<rparr>)
      else Inl Panic)"

definition pull_outcome_bytes :: "pull \<Rightarrow> nat \<Rightarrow> bytes result" where
  "pull_outcome_bytes u count =
     (if count \<le> length (pull_outcomes u)
      then Inr (concat (map encode_outcome (take count (pull_outcomes u)))) else Inl Panic)"

definition pull_mark_delivered :: "nat \<Rightarrow> pull \<Rightarrow> pull result" where
  "pull_mark_delivered i u =
     (if i < length (pull_outcomes u)
      then Inr (u\<lparr>pull_outcomes := (pull_outcomes u)[i := (pull_outcomes u ! i)\<lparr>outcome_tier := DELIVERED\<rparr>]\<rparr>)
      else Inl Panic)"

definition pull_all_delivered :: "pull \<Rightarrow> bool result" where
  "pull_all_delivered u =
     (if unat (pull_count u) \<le> length (pull_outcomes u)
      then Inr (list_all (\<lambda>o'. outcome_tier o' = DELIVERED) (take (unat (pull_count u)) (pull_outcomes u)))
      else Inl Panic)"

subsection \<open>The structs satisfy the contract of an overlaid layout\<close>

lemma slice_append: "slice off n (xs @ ys) =
   (if off + n \<le> length xs then slice off n xs
    else if length xs \<le> off then slice (off - length xs) n ys
    else drop off xs @ take (n - (length xs - off)) ys)"
  by (auto simp: slice_def)

lemma slice_exact: "n = length xs \<Longrightarrow> slice 0 n (xs @ ys) = xs"
  by (simp add: slice_def)

lemma slice_beyond: "length xs \<le> off \<Longrightarrow> slice off n (xs @ ys) = slice (off - length xs) n ys"
  by (simp add: slice_def)

lemmas slice_walk = slice_exact slice_beyond

lemma upt_8: "[0..<8] = [0, 1, 2, 3, 4, 5, 6, 7 :: nat]"
  by (simp add: upt_rec)

lemma upt_10: "[0..<10] = [0, 1, 2, 3, 4, 5, 6, 7, 8, 9 :: nat]"
  by (simp add: upt_rec)

lemma length_encode_tier [simp]: "length (encode_tier t) = 8"
  by (simp add: encode_tier_def)

lemma length_encode_outcome [simp]: "length (encode_outcome t) = 33"
  by (simp add: encode_outcome_def)

lemma decode_encode_tier [simp]: "decode_tier (encode_tier t) = t"
  by (simp add: decode_tier_def encode_tier_def slice_walk slice_all)

lemma encode_decode_tier [simp]: "length d = 8 \<Longrightarrow> encode_tier (decode_tier d) = d"
  by (simp add: decode_tier_def encode_tier_def slice_join slice_all)

lemma decode_encode_outcome [simp]: "decode_outcome (encode_outcome t) = t"
  by (simp add: decode_outcome_def encode_outcome_def slice_walk slice_all)

lemma encode_decode_outcome [simp]: "length d = 33 \<Longrightarrow> encode_outcome (decode_outcome d) = d"
  by (simp add: decode_outcome_def encode_outcome_def slice_join slice_all)

text \<open>An array of fixed-width entries: the slice at entry \<open>i\<close> of the concatenation is entry \<open>i\<close>.\<close>

lemma slice_concat:
  assumes "\<And>x. length (f x) = w" "i < length xs"
  shows "slice (i * w) w (concat (map f xs) @ rest) = f (xs ! i)"
  using assms(2)
proof (induction xs arbitrary: i)
  case (Cons x xs)
  show ?case
  proof (cases i)
    case 0
    then show ?thesis by (simp add: slice_def assms(1))
  next
    case (Suc j)
    with Cons show ?thesis by (simp add: slice_beyond assms(1))
  qed
qed simp

lemma concat_slices:
  "off + n * w \<le> length d \<Longrightarrow>
   concat (map (\<lambda>i. slice (off + i * w) w d) [0..<n]) = slice off (n * w) d"
proof (induction n)
  case (Suc n)
  then show ?case by (simp add: slice_join add.commute)
qed (simp add: slice_def)

lemma length_concat_fixed:
  "(\<And>x. length (f x) = w) \<Longrightarrow> length (concat (map f xs)) = length xs * w"
  by (induction xs) auto

lemma concat_map_cong: "(\<And>x. x \<in> set xs \<Longrightarrow> f x = g x) \<Longrightarrow> concat (map f xs) = concat (map g xs)"
  by (induction xs) auto

lemma length_encode_pool: "pool_wf p \<Longrightarrow> length (encode_pool p) = POOL_LEN"
  by (simp add: encode_pool_def pool_wf_def length_concat_fixed)

lemma decode_encode_pool:
  assumes "pool_wf p"
  shows "decode_pool (encode_pool p @ rest) = p"
proof -
  have t: "map (\<lambda>i. decode_tier (slice (192 + i * 8) 8 (encode_pool p @ rest))) [0..<8] = pool_tiers_all p"
    using assms unfolding pool_wf_def
    by (intro nth_equalityI)
       (simp_all add: encode_pool_def slice_beyond slice_concat [where f = encode_tier])
  show ?thesis unfolding decode_pool_def t
    by (simp add: encode_pool_def slice_walk)
qed

lemma encode_decode_pool:
  assumes "POOL_LEN \<le> length d"
  shows "encode_pool (decode_pool d) = take POOL_LEN d"
proof -
  have "concat (map encode_tier (pool_tiers_all (decode_pool d))) =
      concat (map (\<lambda>i. slice (192 + i * 8) 8 d) [0..<8])"
    using assms by (simp add: decode_pool_def comp_def del: upt_conv_Cons) (rule concat_map_cong, auto)
  also have "\<dots> = slice 192 64 d" using assms by (subst concat_slices) auto
  finally show ?thesis using assms
    by (simp add: encode_pool_def, simp add: decode_pool_def slice_join, simp add: slice_def)
qed

lemma pool_wf_decode [simp]: "pool_wf (decode_pool d)"
  by (simp add: pool_wf_def decode_pool_def)

interpretation pool_layout: layout encode_pool decode_pool POOL_LEN pool_wf
  by unfold_locales (simp_all add: length_encode_pool decode_encode_pool encode_decode_pool)

lemma length_encode_item: "length (encode_item i) = ITEM_LEN"
  by (simp add: encode_item_def)

lemma decode_encode_item: "decode_item (encode_item i @ rest) = i"
  by (simp add: decode_item_def encode_item_def slice_walk)

lemma encode_decode_item: "ITEM_LEN \<le> length d \<Longrightarrow> encode_item (decode_item d) = take ITEM_LEN d"
  by (simp add: encode_item_def, simp add: decode_item_def slice_join, simp add: slice_def)

interpretation item_layout: layout encode_item decode_item ITEM_LEN "\<lambda>_. True"
  by unfold_locales (simp_all add: length_encode_item decode_encode_item encode_decode_item)

lemma length_encode_pull: "pull_wf u \<Longrightarrow> length (encode_pull u) = PULL_LEN"
  by (simp add: encode_pull_def pull_wf_def length_concat_fixed)

lemma decode_encode_pull:
  assumes "pull_wf u"
  shows "decode_pull (encode_pull u @ rest) = u"
proof -
  have t: "map (\<lambda>i. decode_outcome (slice (120 + i * 33) 33 (encode_pull u @ rest))) [0..<10] = pull_outcomes u"
    using assms unfolding pull_wf_def
    by (intro nth_equalityI)
       (simp_all add: encode_pull_def slice_beyond slice_concat [where f = encode_outcome])
  show ?thesis unfolding decode_pull_def t
    by (simp add: encode_pull_def slice_walk)
qed

lemma encode_decode_pull:
  assumes "PULL_LEN \<le> length d"
  shows "encode_pull (decode_pull d) = take PULL_LEN d"
proof -
  have "concat (map encode_outcome (pull_outcomes (decode_pull d))) =
      concat (map (\<lambda>i. slice (120 + i * 33) 33 d) [0..<10])"
    using assms by (simp add: decode_pull_def comp_def del: upt_conv_Cons) (rule concat_map_cong, auto)
  also have "\<dots> = slice 120 330 d" using assms by (subst concat_slices) auto
  finally show ?thesis using assms
    by (simp add: encode_pull_def, simp add: decode_pull_def slice_join, simp add: slice_def)
qed

lemma pull_wf_decode [simp]: "pull_wf (decode_pull d)"
  by (simp add: pull_wf_def decode_pull_def)

interpretation pull_layout: layout encode_pull decode_pull PULL_LEN pull_wf
  by unfold_locales (simp_all add: length_encode_pull decode_encode_pull encode_decode_pull)

subsection \<open>Properties of the account views\<close>

lemma nth_update_outcome:
  "pull_wf u \<Longrightarrow> i < MAX_COUNT \<Longrightarrow> j < MAX_COUNT \<Longrightarrow>
   (pull_outcomes u)[i := x] ! j = (if i = j then x else pull_outcomes u ! j)"
  by (simp add: pull_wf_def nth_list_update)

text \<open>
  Recorded awards are kept apart. Recording outcome \<open>i\<close> in the bytes of a pull account makes
  \<open>outcome(i)\<close> read back the tier and asset and leaves every other outcome and the account's length
  as they were; an index past \<open>MAX_COUNT\<close> panics.
\<close>

theorem pull_outcome_recorded:
  assumes "length d = PULL_LEN"
  shows "if i < MAX_COUNT
    then \<exists>u. pull_set_outcome i tier asset (decode_pull d) = Inr u \<and>
      length (overlay encode_pull PULL_LEN u d) = PULL_LEN \<and>
      pull_outcome (decode_pull (overlay encode_pull PULL_LEN u d)) i = Inr (tier, asset) \<and>
      (\<forall>j. j \<noteq> i \<longrightarrow> pull_outcome (decode_pull (overlay encode_pull PULL_LEN u d)) j =
        pull_outcome (decode_pull d) j)
    else pull_set_outcome i tier asset (decode_pull d) = Inl Panic"
proof -
  have wf: "pull_wf (decode_pull d)" by simp
  show ?thesis
  proof (cases "i < MAX_COUNT")
    case True
    let ?u = "decode_pull d\<lparr>pull_outcomes := (pull_outcomes (decode_pull d))[i := \<lparr>outcome_tier = tier, outcome_asset = asset\<rparr>]\<rparr>"
    have u: "pull_wf ?u" using wf by (simp add: pull_wf_def)
    have "pull_set_outcome i tier asset (decode_pull d) = Inr ?u"
      using True wf by (simp add: pull_set_outcome_def pull_wf_def)
    moreover have "decode_pull (overlay encode_pull PULL_LEN ?u d) = ?u"
      using pull_layout.dec_overlay [OF u] .
    moreover have "length (overlay encode_pull PULL_LEN ?u d) = PULL_LEN"
      using pull_layout.length_overlay [OF u, of d] assms by simp
    ultimately show ?thesis
      using True wf by (auto simp: pull_outcome_def pull_wf_def nth_list_update)
  next
    case False
    with wf show ?thesis by (simp add: pull_set_outcome_def pull_wf_def)
  qed
qed

end
