(* ===== verification/Draw.thy ===== *)
theory Draw
  imports Layout
begin

section \<open>gacha-core: prices and the weighted draw\<close>

text \<open>
  \<open>Pool::payment\<close>, \<open>refund_amount\<close>, \<open>remaining\<close>, \<open>draw\<close> and \<open>draw_tier\<close> of
  \<open>packages/gacha-core/src/state.rs\<close>, the pure functions that both the program and the Rust SDK
  call. The specification of the draw is the list \<open>eligible\<close> of the weights of the tiers that
  still have candidates: the selected tier is the one whose interval of cumulative weights holds
  the roll, so each tier is selected by exactly as many rolls as its weight.
\<close>

definition payment :: "pool \<Rightarrow> u64 \<Rightarrow> u64 result" where
  "payment p count = ok_or (checked_mul (pool_price p) count) ArithmeticOverflow"

definition refund_amount :: "pool \<Rightarrow> u64 \<Rightarrow> u64 result" where
  "refund_amount p count =
     ok_or (Option.bind (checked_add (pool_price p) (pool_bond_per_draw p))
              (\<lambda>amount. checked_mul amount count)) ArithmeticOverflow"

definition remaining_total :: "pool \<Rightarrow> u64 result" where
  "remaining_total p =
     and_then (pool_tiers p) (\<lambda>ts. sum_ov (map (\<lambda>t. ucast (tier_remaining t)) ts))"

text \<open>\<open>u64::from_le_bytes(hash[off..off + 8])\<close>.\<close>

definition hash_u64 :: "bytes32 \<Rightarrow> nat \<Rightarrow> u64" where
  "hash_u64 hash off = from_le (slice off 8 (to_le hash))"

definition total_weight :: "tier list \<Rightarrow> u32 list \<Rightarrow> u64 result" where
  "total_weight ts remaining =
     sum_ov (map (\<lambda>(t, count). ucast (tier_weight t)) (filter (\<lambda>(t, count). 0 < count) (zip ts remaining)))"

fun select_tier :: "nat \<Rightarrow> tier list \<Rightarrow> u32 list \<Rightarrow> u64 \<Rightarrow> u8 result" where
  "select_tier i [] remaining roll = Inl (gerr SoldOut)"
| "select_tier i (t # ts) remaining roll =
     (if length remaining \<le> i then Inl Panic
      else if remaining ! i = 0 then select_tier (Suc i) ts remaining roll
      else let weight = ucast (tier_weight t) in
        if roll < weight then Inr (word_of_nat i)
        else and_then (sub_ov roll weight) (\<lambda>roll. select_tier (Suc i) ts remaining roll))"

definition draw_tier :: "pool \<Rightarrow> bytes32 \<Rightarrow> u32 list \<Rightarrow> u8 result" where
  "draw_tier p hash remaining =
     and_then (pool_tiers p) (\<lambda>ts.
     and_then (total_weight ts remaining) (\<lambda>total.
     if total = 0 then Inl (gerr SoldOut)
     else select_tier 0 ts remaining (hash_u64 hash 0 mod total)))"

text \<open>The remainder by \<open>remaining[tier]\<close> panics on zero.\<close>

definition pool_draw :: "pool \<Rightarrow> bytes32 \<Rightarrow> u32 list \<Rightarrow> (u8 \<times> u32) result" where
  "pool_draw p hash remaining =
     and_then (draw_tier p hash remaining) (\<lambda>tier.
     if length remaining \<le> unat tier \<or> remaining ! unat tier = 0 then Inl Panic
     else Inr (tier, ucast (hash_u64 hash 8 mod ucast (remaining ! unat tier))))"

subsection \<open>Amounts\<close>

lemma payment_Inr: "payment p count = Inr a \<longleftrightarrow> unat a = unat (pool_price p) * unat count"
  by (simp add: payment_def checked_Some)

lemma refund_amount_Inr:
  "refund_amount p count = Inr a \<longleftrightarrow>
   unat a = (unat (pool_price p) + unat (pool_bond_per_draw p)) * unat count \<and>
   unat (pool_price p) + unat (pool_bond_per_draw p) < 2 ^ 64"
proof
  assume "refund_amount p count = Inr a"
  then have "\<exists>s :: u64. unat s = unat (pool_price p) + unat (pool_bond_per_draw p) \<and>
      unat a = unat s * unat count"
    by (auto simp: refund_amount_def checked_Some Option.bind_eq_Some_conv)
  then obtain s :: u64 where "unat s = unat (pool_price p) + unat (pool_bond_per_draw p)"
    "unat a = unat s * unat count" by blast
  then show "unat a = (unat (pool_price p) + unat (pool_bond_per_draw p)) * unat count \<and>
      unat (pool_price p) + unat (pool_bond_per_draw p) < 2 ^ 64"
    using unat_bound [of s] by simp
next
  assume h: "unat a = (unat (pool_price p) + unat (pool_bond_per_draw p)) * unat count \<and>
      unat (pool_price p) + unat (pool_bond_per_draw p) < 2 ^ 64"
  then have "checked_add (pool_price p) (pool_bond_per_draw p) = Some (pool_price p + pool_bond_per_draw p)"
    by (simp add: checked_add_def)
  moreover from this have "unat (pool_price p + pool_bond_per_draw p) = unat (pool_price p) + unat (pool_bond_per_draw p)"
    by (simp add: checked_Some)
  ultimately show "refund_amount p count = Inr a"
    using h by (simp add: refund_amount_def checked_mul_Some)
qed

lemma refund_amount_ex:
  assumes "(unat (pool_price p) + unat (pool_bond_per_draw p)) * n < 2 ^ 64" "unat count \<le> n" "0 < n"
  obtains a where "refund_amount p count = Inr a"
    and "unat a = (unat (pool_price p) + unat (pool_bond_per_draw p)) * unat count"
proof -
  let ?s = "unat (pool_price p) + unat (pool_bond_per_draw p)"
  have le: "?s * unat count \<le> ?s * n" using assms(2) by simp
  have "?s \<le> ?s * n" using assms(3) by simp
  with assms(1) have "?s < 2 ^ 64" by linarith
  moreover have "unat (word_of_nat (?s * unat count) :: u64) = ?s * unat count"
    unfolding unat_of_nat by (rule mod_less) (use order_le_less_trans [OF le assms(1)] in simp)
  ultimately show ?thesis using that refund_amount_Inr by blast
qed

subsection \<open>The draw against cumulative weights\<close>

definition eligible :: "tier list \<Rightarrow> u32 list \<Rightarrow> nat list" where
  "eligible ts remaining =
     map (\<lambda>(t, count). if count = 0 then 0 else unat (tier_weight t)) (zip ts remaining)"

lemma length_eligible [simp]: "length (eligible ts cs) = min (length ts) (length cs)"
  by (simp add: eligible_def)

lemma eligible_Cons [simp]:
  "eligible (t # ts) (c # cs) = (if c = 0 then 0 else unat (tier_weight t)) # eligible ts cs"
  by (simp add: eligible_def)

lemma eligible_Nil [simp]: "eligible [] cs = []" "eligible ts [] = []"
  by (simp_all add: eligible_def)

lemma eligible_bound: "sum_list (eligible ts cs) \<le> length ts * 2 ^ 32"
proof -
  have "sum_list (eligible ts cs) \<le> length (zip ts cs) * 2 ^ 32"
    unfolding eligible_def by (rule sum_list_le_bound) (auto intro: less_imp_le)
  also have "\<dots> \<le> length ts * 2 ^ 32" by simp
  finally show ?thesis .
qed

lemma filtered_weights:
  "sum_list (map (\<lambda>x. unat (case x of (t, count) \<Rightarrow> (ucast (tier_weight t) :: u64)))
     (filter (\<lambda>(t, count). 0 < count) (zip ts (cs :: u32 list)))) = sum_list (eligible ts cs)"
  by (induction ts cs rule: list_induct2') (auto simp: word_gt_0)

lemma total_weight_eq:
  assumes "length ts \<le> 256"
  obtains total where "total_weight ts cs = Inr total" "unat total = sum_list (eligible ts cs)"
proof -
  have "sum_list (eligible ts cs) \<le> 256 * 2 ^ 32"
    using eligible_bound [of ts cs] assms by (meson le_trans mult_le_mono1)
  then have "sum_list (eligible ts cs) < 2 ^ LENGTH(64)" by simp
  then show ?thesis
    using that sum_ov_eq [where 'a = 64] unfolding total_weight_def
    by (simp add: comp_def filtered_weights)
qed

lemma select_tier_cumulative:
  assumes "i + length ts \<le> length cs" "unat roll < sum_list (eligible ts (drop i cs))"
  shows "\<exists>k < length ts. select_tier i ts cs roll = Inr (word_of_nat (i + k)) \<and> cs ! (i + k) \<noteq> 0 \<and>
    sum_list (take k (eligible ts (drop i cs))) \<le> unat roll \<and>
    unat roll < sum_list (take (Suc k) (eligible ts (drop i cs)))"
  using assms
proof (induction ts arbitrary: i roll)
  case (Cons t ts)
  then have i: "i < length cs" by simp
  then have d: "drop i cs = cs ! i # drop (Suc i) cs" by (simp add: Cons_nth_drop_Suc)
  let ?w = "ucast (tier_weight t) :: u64"
  show ?case
  proof (cases "cs ! i = 0")
    case True
    with Cons.prems d have "unat roll < sum_list (eligible ts (drop (Suc i) cs))" by simp
    with Cons.IH [of "Suc i" roll] Cons.prems(1) obtain k where
      "k < length ts" "select_tier (Suc i) ts cs roll = Inr (word_of_nat (Suc i + k))"
      "cs ! (Suc i + k) \<noteq> 0" "sum_list (take k (eligible ts (drop (Suc i) cs))) \<le> unat roll"
      "unat roll < sum_list (take (Suc k) (eligible ts (drop (Suc i) cs)))" by auto
    with True d i show ?thesis by (intro exI [of _ "Suc k"]) simp
  next
    case nz: False
    show ?thesis
    proof (cases "roll < ?w")
      case True
      with nz d i show ?thesis by (intro exI [of _ 0]) (simp add: word_less_nat_alt)
    next
      case False
      then have le: "unat (tier_weight t) \<le> unat roll" by (simp add: word_less_nat_alt)
      then obtain r where r: "sub_ov roll ?w = Inr r" "unat r = unat roll - unat (tier_weight t)"
        by (auto simp: sub_ov_def unat_sub word_le_nat_alt)
      with Cons.prems d nz le have "unat r < sum_list (eligible ts (drop (Suc i) cs))" by simp
      with Cons.IH [of "Suc i" r] Cons.prems(1) obtain k where
        "k < length ts" "select_tier (Suc i) ts cs r = Inr (word_of_nat (Suc i + k))"
        "cs ! (Suc i + k) \<noteq> 0" "sum_list (take k (eligible ts (drop (Suc i) cs))) \<le> unat r"
        "unat r < sum_list (take (Suc k) (eligible ts (drop (Suc i) cs)))" by auto
      with nz d i r le False show ?thesis by (intro exI [of _ "Suc k"]) auto
    qed
  qed
qed simp

text \<open>A cumulative interval determines its index.\<close>

lemma cumulative_unique:
  assumes "sum_list (take k xs) \<le> r" "r < sum_list (take (Suc k) xs)"
    and "sum_list (take j xs) \<le> r" "r < sum_list (take (Suc j) (xs :: nat list))"
  shows "j = k"
proof (rule ccontr)
  have mono: "sum_list (take a xs) \<le> sum_list (take b xs)" if "a \<le> b" for a b
    using take_add [of a "b - a" xs] that by simp
  assume "j \<noteq> k"
  then have "Suc j \<le> k \<or> Suc k \<le> j" by linarith
  with mono assms show False by (meson le_trans not_le)
qed

text \<open>The tiers of a well-formed pool: at most \<open>MAX_TIERS\<close> of them.\<close>

definition pool_valid :: "pool \<Rightarrow> bool" where
  "pool_valid p \<longleftrightarrow> pool_wf p \<and> 1 \<le> unat (pool_tier_count p) \<and> unat (pool_tier_count p) \<le> MAX_TIERS"

definition tiers_of :: "pool \<Rightarrow> tier list" where
  "tiers_of p = take (unat (pool_tier_count p)) (pool_tiers_all p)"

lemma pool_tiers_valid [simp]: "pool_valid p \<Longrightarrow> pool_tiers p = Inr (tiers_of p)"
  by (simp add: pool_valid_def pool_wf_def pool_tiers_def tiers_of_def)

lemma length_tiers_of [simp]: "pool_valid p \<Longrightarrow> length (tiers_of p) = unat (pool_tier_count p)"
  by (simp add: pool_valid_def pool_wf_def tiers_of_def)

lemma draw_tier_cases:
  assumes "pool_valid p" "length cs = MAX_TIERS"
  defines "ws \<equiv> eligible (tiers_of p) cs"
  obtains (sold_out) "sum_list ws = 0" "draw_tier p hash cs = Inl (gerr SoldOut)"
  | (drawn) k where "k < unat (pool_tier_count p)" "draw_tier p hash cs = Inr (word_of_nat k)"
      "cs ! k \<noteq> 0" "0 < sum_list ws"
      "sum_list (take k ws) \<le> unat (hash_u64 hash 0) mod sum_list ws"
      "unat (hash_u64 hash 0) mod sum_list ws < sum_list (take (Suc k) ws)"
proof -
  have len: "length (tiers_of p) \<le> 8" using assms(1) by (simp add: pool_valid_def)
  then obtain total where total: "total_weight (tiers_of p) cs = Inr total" "unat total = sum_list ws"
    unfolding ws_def by (elim total_weight_eq [of "tiers_of p" cs, rotated]) simp
  show thesis
  proof (cases "total = 0")
    case True
    with total assms(1) show ?thesis by (intro sold_out) (auto simp: draw_tier_def)
  next
    case False
    then have pos: "0 < sum_list ws" using total(2) by (metis unat_eq_zero neq0_conv)
    let ?roll = "hash_u64 hash 0 mod total"
    have roll: "unat ?roll = unat (hash_u64 hash 0) mod sum_list ws"
      by (simp add: unat_mod_distrib total(2))
    then have "unat ?roll < sum_list (eligible (tiers_of p) (drop 0 cs))"
      using pos by (simp add: ws_def)
    from select_tier_cumulative [OF _ this] len assms(2) obtain k where
      "k < length (tiers_of p)" "select_tier 0 (tiers_of p) cs ?roll = Inr (word_of_nat k)"
      "cs ! k \<noteq> 0" "sum_list (take k ws) \<le> unat ?roll" "unat ?roll < sum_list (take (Suc k) ws)"
      by (auto simp: ws_def)
    with False total assms(1) roll pos show ?thesis by (intro drawn [of k]) (auto simp: draw_tier_def)
  qed
qed

subsection \<open>The draw is exactly weighted\<close>

lemma select_tier_interval:
  assumes "length ts \<le> length cs" "r < sum_list (eligible ts cs)" "r < 2 ^ 64" "length ts \<le> 8" "k < length ts"
  shows "select_tier 0 ts cs (word_of_nat r) = Inr (word_of_nat k) \<longleftrightarrow>
    sum_list (take k (eligible ts cs)) \<le> r \<and> r < sum_list (take (Suc k) (eligible ts cs))"
proof -
  have r: "unat (word_of_nat r :: u64) = r" using assms(3) by (simp add: unat_of_nat)
  obtain j where j: "j < length ts" "select_tier 0 ts cs (word_of_nat r) = Inr (word_of_nat j)"
    "sum_list (take j (eligible ts cs)) \<le> r" "r < sum_list (take (Suc j) (eligible ts cs))"
    using select_tier_cumulative [of 0 ts cs "word_of_nat r"] assms(1,2) r by auto
  have "(word_of_nat j :: u8) = word_of_nat k \<longleftrightarrow> j = k"
    using j(1) assms(4,5) by (auto simp: word_of_nat_eq_iff take_bit_eq_mod)
  then show ?thesis
    using j cumulative_unique [of j "eligible ts cs" r k] cumulative_unique [of k "eligible ts cs" r j]
    by (cases "j = k") auto
qed

lemma card_interval_take:
  "k < length ws \<Longrightarrow> card {r. sum_list (take k ws) \<le> r \<and> r < sum_list (take (Suc k) (ws :: nat list))} = ws ! k"
proof -
  assume "k < length ws"
  then have "sum_list (take (Suc k) ws) = sum_list (take k ws) + ws ! k"
    by (simp add: take_Suc_conv_app_nth)
  moreover have "{r. sum_list (take k ws) \<le> r \<and> r < sum_list (take (Suc k) ws)} =
      {sum_list (take k ws)..<sum_list (take (Suc k) ws)}" by auto
  ultimately show ?thesis by simp
qed

lemma sum_list_take_le: "sum_list (take k ws) \<le> sum_list (ws :: nat list)"
  using sum_list_append [of "take k ws" "drop k ws"] by simp

text \<open>Only the weights of a pool and the number of its tiers matter to the draw.\<close>

lemma filter_zip_weights:
  "map tier_weight ts = map tier_weight ts' \<Longrightarrow>
   map (\<lambda>(t, count). ucast (tier_weight t) :: u64) (filter (\<lambda>(t, count). 0 < count) (zip ts (cs :: u32 list))) =
   map (\<lambda>(t, count). ucast (tier_weight t)) (filter (\<lambda>(t, count). 0 < count) (zip ts' cs))"
proof (induction ts arbitrary: ts' cs)
  case (Cons t ts)
  then obtain t' us where "ts' = t' # us" "tier_weight t = tier_weight t'" "map tier_weight ts = map tier_weight us"
    by (cases ts') auto
  with Cons.IH [of us] show ?case by (cases cs) auto
qed simp

lemma select_tier_weights:
  "map tier_weight ts = map tier_weight ts' \<Longrightarrow> select_tier i ts cs roll = select_tier i ts' cs roll"
proof (induction ts arbitrary: ts' i roll)
  case (Cons t ts)
  then obtain t' us where ts': "ts' = t' # us" "tier_weight t = tier_weight t'" "map tier_weight ts = map tier_weight us"
    by (cases ts') auto
  then have "select_tier j ts cs = select_tier j us cs" for j
    using Cons.IH [of us] by (intro ext) simp
  then show ?case unfolding ts'(1) select_tier.simps ts'(2) by presburger
qed simp

lemma pool_draw_weights:
  assumes "pool_wf p" "pool_wf p'" "pool_tier_count p' = pool_tier_count p"
    and "map tier_weight (pool_tiers_all p') = map tier_weight (pool_tiers_all p)"
  shows "pool_draw p' hash cs = pool_draw p hash cs"
proof -
  have "draw_tier p' hash cs = draw_tier p hash cs"
  proof (cases "unat (pool_tier_count p) \<le> 8")
    case True
    let ?ts = "take (unat (pool_tier_count p)) (pool_tiers_all p)"
      and ?ts' = "take (unat (pool_tier_count p)) (pool_tiers_all p')"
    have ts: "pool_tiers p = Inr ?ts" "pool_tiers p' = Inr ?ts'"
      using assms True by (simp_all add: pool_tiers_def pool_wf_def)
    have w: "map tier_weight ?ts = map tier_weight ?ts'" using assms(4) by (simp flip: take_map)
    have sel: "select_tier 0 ?ts cs = select_tier 0 ?ts' cs"
      using select_tier_weights [OF w] by (intro ext) simp
    show ?thesis
      unfolding draw_tier_def ts total_weight_def sel filter_zip_weights [OF w] and_then.simps ..
  next
    case False
    then show ?thesis using assms by (simp add: draw_tier_def pool_tiers_def pool_wf_def)
  qed
  then show ?thesis by (simp add: pool_draw_def)
qed

text \<open>A concrete pool for the witnesses: two tiers, the first sold out in the second example.\<close>

definition sample_tiers :: "tier list" where
  "sample_tiers = [\<lparr>tier_weight = 3, tier_remaining = 2\<rparr>, \<lparr>tier_weight = 5, tier_remaining = 1\<rparr>]
     @ replicate 6 \<lparr>tier_weight = 0, tier_remaining = 0\<rparr>"

definition sample_pool :: pool where
  "sample_pool = \<lparr>pool_version = 1, pool_bump = 0, pool_tier_count = 2, pool_status = 1,
     pool_inventory_version = 3, pool_authority = 7, pool_operator = 8, pool_payment_mint = 9,
     pool_vault = 10, pool_id = 0, pool_price = 100, pool_deadline_slots = 50, pool_bond_per_draw = 10,
     pool_pending_draws = 1, pool_next_index = 1, pool_next_settle = 0, pool_tiers_all = sample_tiers\<rparr>"

lemma sample_pool_valid: "pool_valid sample_pool"
  by (simp add: pool_valid_def pool_wf_def sample_pool_def sample_tiers_def)

lemma sample_pool_weights: "eligible (tiers_of sample_pool) [2, 1, 0, 0, 0, 0, 0, 0] = [3, 5]"
  by (simp add: tiers_of_def sample_pool_def sample_tiers_def)

text \<open>
  C27: the draw is exactly weighted. Among the \<open>total\<close> values of the roll, tier \<open>k\<close> is selected by
  exactly its weight many of them if it still has candidates and by none otherwise, and the tier
  drawn for a hash is the one selected by the first eight bytes of the hash modulo \<open>total\<close>.
\<close>

theorem draw_tier_weighted:
  assumes "pool_valid p" "length cs = MAX_TIERS" "0 < sum_list (eligible (tiers_of p) cs)"
    and "k < unat (pool_tier_count p)"
  defines "weights \<equiv> sum_list (eligible (tiers_of p) cs)"
  shows "card {r. r < weights \<and> select_tier 0 (tiers_of p) cs (word_of_nat r) = Inr (word_of_nat k)} =
      (if cs ! k = 0 then 0 else unat (tier_weight (tiers_of p ! k))) \<and>
    draw_tier p hash cs = select_tier 0 (tiers_of p) cs (word_of_nat (unat (hash_u64 hash 0) mod weights))"
proof
  let ?ws = "eligible (tiers_of p) cs"
  have len: "length (tiers_of p) \<le> 8" using assms(1) by (simp add: pool_valid_def)
  have k: "k < length (tiers_of p)" "k < length cs" using assms(1,2,4) len by simp_all
  have le: "length (tiers_of p) * 2 ^ 32 \<le> 8 * 2 ^ 32" using len by (rule mult_le_mono1)
  have small: "weights < 2 ^ 64" using eligible_bound [of "tiers_of p" cs] le unfolding weights_def by simp
  have "{r. r < weights \<and> select_tier 0 (tiers_of p) cs (word_of_nat r) = Inr (word_of_nat k)} =
      {r. sum_list (take k ?ws) \<le> r \<and> r < sum_list (take (Suc k) ?ws)}"
    using select_tier_interval [of "tiers_of p" cs _ k] len k assms(2) small sum_list_take_le [of "Suc k" ?ws]
    unfolding weights_def by (auto intro: order.strict_trans2 order.strict_trans)
  then show "card {r. r < weights \<and> select_tier 0 (tiers_of p) cs (word_of_nat r) = Inr (word_of_nat k)} =
      (if cs ! k = 0 then 0 else unat (tier_weight (tiers_of p ! k)))"
    using card_interval_take [of k ?ws] k by (simp add: eligible_def)
  obtain t where t: "total_weight (tiers_of p) cs = Inr t" "unat t = weights"
    using total_weight_eq [of "tiers_of p" cs] len unfolding weights_def by auto
  then have "t \<noteq> 0" using assms(3) unfolding weights_def by (metis less_irrefl unat_0)
  moreover have "hash_u64 hash 0 mod t = word_of_nat (unat (hash_u64 hash 0) mod weights)"
    by (simp flip: t(2) unat_mod_distrib)
  ultimately show "draw_tier p hash cs =
      select_tier 0 (tiers_of p) cs (word_of_nat (unat (hash_u64 hash 0) mod weights))"
    using t(1) assms(1) by (simp add: draw_tier_def)
qed

theorem draw_tier_weighted_witness:
  "card {r. r < 8 \<and> select_tier 0 (tiers_of sample_pool) [2, 1, 0, 0, 0, 0, 0, 0] (word_of_nat r) = Inr 1} = 5"
  using draw_tier_weighted [OF sample_pool_valid, of "[2, 1, 0, 0, 0, 0, 0, 0]" 1] sample_pool_weights
  by (simp add: sample_pool_def tiers_of_def sample_tiers_def)

lemma pool_draw_cases:
  assumes "pool_valid p" "length cs = MAX_TIERS"
  shows "if sum_list (eligible (tiers_of p) cs) = 0 then pool_draw p hash cs = Inl (gerr SoldOut)
    else \<exists>tier rank. pool_draw p hash cs = Inr (tier, rank) \<and> unat tier < unat (pool_tier_count p) \<and>
      0 < unat (tier_weight (tiers_of p ! unat tier)) \<and> unat rank < unat (cs ! unat tier) \<and>
      unat rank = unat (hash_u64 hash 8) mod unat (cs ! unat tier)"
proof (rule draw_tier_cases [OF assms, of hash])
  assume "sum_list (eligible (tiers_of p) cs) = 0" "draw_tier p hash cs = Inl (gerr SoldOut)"
  then show ?thesis by (simp add: pool_draw_def)
next
  fix k
  assume drawn: "k < unat (pool_tier_count p)" "draw_tier p hash cs = Inr (word_of_nat k)"
    "cs ! k \<noteq> 0" "0 < sum_list (eligible (tiers_of p) cs)"
    "sum_list (take k (eligible (tiers_of p) cs)) \<le> unat (hash_u64 hash 0) mod sum_list (eligible (tiers_of p) cs)"
    "unat (hash_u64 hash 0) mod sum_list (eligible (tiers_of p) cs) < sum_list (take (Suc k) (eligible (tiers_of p) cs))"
  let ?ws = "eligible (tiers_of p) cs"
  have k: "k < length (tiers_of p)" "k < 8" using assms(1) drawn(1) by (auto simp: pool_valid_def)
  then have unk: "unat (word_of_nat k :: u8) = k" by (simp add: unat_of_nat)
  have "sum_list (take (Suc k) ?ws) = sum_list (take k ?ws) + ?ws ! k"
    using k assms(2) by (simp add: take_Suc_conv_app_nth)
  with drawn(5,6) have "0 < ?ws ! k" by linarith
  then have w: "0 < unat (tier_weight (tiers_of p ! k))" using k assms(2) drawn(3) by (simp add: eligible_def)
  let ?rank = "ucast (hash_u64 hash 8 mod ucast (cs ! k)) :: u32"
  have c0: "0 < unat (cs ! k)" using drawn(3) by (simp add: unat_gt_0)
  have m: "unat (hash_u64 hash 8 mod ucast (cs ! k)) = unat (hash_u64 hash 8) mod unat (cs ! k)"
    by (simp add: unat_mod_distrib)
  have small: "unat (hash_u64 hash 8) mod unat (cs ! k) < unat (cs ! k)" using c0 by simp
  then have "unat (hash_u64 hash 8) mod unat (cs ! k) < 2 ^ 32" using unat_u32_bound [of "cs ! k"] by (intro order.strict_trans [OF small]) simp
  then have rank: "unat ?rank = unat (hash_u64 hash 8) mod unat (cs ! k)" by (simp add: unat_ucast_truncate m)
  have "pool_draw p hash cs = Inr (word_of_nat k, ?rank)"
    using drawn(2,3) unk k(2) assms(2) by (simp add: pool_draw_def)
  then have "\<exists>tier rank. pool_draw p hash cs = Inr (tier, rank) \<and> unat tier < unat (pool_tier_count p) \<and>
      0 < unat (tier_weight (tiers_of p ! unat tier)) \<and> unat rank < unat (cs ! unat tier) \<and>
      unat rank = unat (hash_u64 hash 8) mod unat (cs ! unat tier)"
    using drawn(1) unk w rank small by auto
  with drawn(4) show ?thesis by (metis less_irrefl)
qed

text \<open>
  C28: the draw never panics. It fails exactly when no tier has candidates, with \<open>SoldOut\<close>;
  otherwise it returns an existing tier of positive weight with candidates and a rank below the
  number of its candidates, which is the second eight bytes of the hash modulo that number.
\<close>

theorem pool_draw_total:
  assumes "pool_valid p" "length cs = MAX_TIERS"
  shows "if sum_list (eligible (tiers_of p) cs) = 0 then pool_draw p hash cs = Inl (gerr SoldOut)
    else \<exists>tier rank. pool_draw p hash cs = Inr (tier, rank) \<and> unat tier < unat (pool_tier_count p) \<and>
      0 < unat (tier_weight (tiers_of p ! unat tier)) \<and> unat rank < unat (cs ! unat tier) \<and>
      unat rank = unat (hash_u64 hash 8) mod unat (cs ! unat tier)"
  by (rule pool_draw_cases [OF assms])

theorem pool_draw_total_witness:
  "\<exists>tier rank. pool_draw sample_pool 12345 [2, 1, 0, 0, 0, 0, 0, 0] = Inr (tier, rank) \<and> unat tier < 2"
  using pool_draw_total [OF sample_pool_valid, of "[2, 1, 0, 0, 0, 0, 0, 0]" 12345] sample_pool_weights
  by (auto simp: sample_pool_def)

end
