(* ===== verification/Runtime.thy ===== *)
theory Runtime
  imports Draw Inventory Core_Asset
begin

section \<open>Accounts, the runtime and the program's helpers\<close>

text \<open>
  The state of the chain is a ledger: every address has an owner program, lamports and data. A
  handler gets a list of account infos (an address and the privileges of the transaction); two
  infos of the same address are the same account, so the data are kept in the ledger and every view
  (\<open>Pool::load_mut\<close>, \<open>Inventory::load\<close>) reads and writes them there.

  What the program calls but does not contain is a parameter of the model, the record \<open>env\<close>: hashes,
  address derivation, the VRF and signature checks, the clock and rent sysvars, reallocation and
  closing of an account, and every cross-program invocation. The laws that properties assume of
  them are the predicates at the end of this theory; \<open>example_env\<close> of theory \<open>Example\<close> satisfies
  all of them.
\<close>

record account =
  acct_owner :: pubkey
  acct_lamports :: u64
  acct_data :: bytes

type_synonym ledger = "pubkey \<Rightarrow> account"

record account_info =
  info_key :: pubkey
  is_signer :: bool
  is_writable :: bool

record clock =
  clock_slot :: u64
  clock_unix_timestamp :: i64

record account_meta =
  meta_key :: pubkey
  meta_writable :: bool
  meta_signer :: bool

text \<open>
  The instruction structs of \<open>pinocchio_system\<close> and \<open>pinocchio_token\<close> that the program builds, and
  a raw \<open>Instruction\<close> with its accounts.
\<close>

datatype cpi =
    CreateAccount account_info account_info u64 u64 pubkey
  | SystemTransfer account_info account_info u64
  | Allocate account_info u64
  | Assign account_info pubkey
  | TokenTransfer account_info account_info account_info u64
  | Instruction pubkey "account_meta list" bytes "account_info list"

text \<open>The seeds of one PDA signer, and the signers of an invocation.\<close>

type_synonym seeds = "bytes list"

record env =
  env_sha256 :: "bytes \<Rightarrow> bytes32"
  env_create_program_address :: "seeds \<Rightarrow> pubkey \<Rightarrow> pubkey option"
  env_find_program_address :: "seeds \<Rightarrow> pubkey \<Rightarrow> pubkey"
  env_proof_verify :: "bytes \<Rightarrow> pubkey \<Rightarrow> bytes32 \<Rightarrow> bytes option"
  env_verify_strict :: "pubkey \<Rightarrow> bytes \<Rightarrow> bytes \<Rightarrow> bool"
  env_clock :: "clock result"
  env_rent :: "(nat \<Rightarrow> u64) result"
  env_realloc :: "account \<Rightarrow> nat \<Rightarrow> account result"
  env_close :: "account \<Rightarrow> account result"
  env_invoke :: "cpi \<Rightarrow> seeds list \<Rightarrow> ledger \<Rightarrow> ledger result"
  env_system_id :: pubkey
  env_token_id :: pubkey
  env_associated_token_id :: pubkey

subsection \<open>Views: the trait Load\<close>

definition acct :: "ledger \<Rightarrow> account_info \<Rightarrow> account" where
  "acct L a = L (info_key a)"

definition data_of :: "ledger \<Rightarrow> account_info \<Rightarrow> bytes" where
  "data_of L a = acct_data (L (info_key a))"

definition write_data :: "account_info \<Rightarrow> bytes \<Rightarrow> ledger \<Rightarrow> ledger" where
  "write_data a d L = L(info_key a := L (info_key a)\<lparr>acct_data := d\<rparr>)"

text \<open>The macro \<open>load!\<close>, over the struct's decoder, length, version and length check.\<close>

definition load_view ::
  "(bytes \<Rightarrow> 'a) \<Rightarrow> nat \<Rightarrow> u8 \<Rightarrow> ('a \<Rightarrow> u8) \<Rightarrow> ('a \<Rightarrow> nat \<Rightarrow> bool) \<Rightarrow> ledger \<Rightarrow> account_info \<Rightarrow> 'a result" where
  "load_view decode len version get_version valid_len L a =
     (if acct_owner (acct L a) \<noteq> ID then Inl (gerr InvalidAccountOwner)
      else if length (data_of L a) < len then Inl (gerr InvalidAccountLength)
      else let this = decode (data_of L a) in
        if get_version this \<noteq> version then Inl (gerr InvalidVersion)
        else if \<not> valid_len this (length (data_of L a)) then Inl (gerr InvalidAccountLength)
        else Inr this)"

definition load_new_view :: "(bytes \<Rightarrow> 'a) \<Rightarrow> nat \<Rightarrow> ('a \<Rightarrow> u8) \<Rightarrow> ledger \<Rightarrow> account_info \<Rightarrow> 'a result" where
  "load_new_view decode len get_version L a =
     (if acct_owner (acct L a) \<noteq> ID then Inl (gerr InvalidAccountOwner)
      else if length (data_of L a) \<noteq> len then Inl (gerr InvalidAccountLength)
      else let this = decode (data_of L a) in
        if get_version this \<noteq> 0 then Inl (gerr AlreadyInitialized) else Inr this)"

definition load_pool :: "ledger \<Rightarrow> account_info \<Rightarrow> pool result" where
  "load_pool = load_view decode_pool POOL_LEN POOL_VERSION pool_version
     (\<lambda>p len. len = POOL_LEN + inventory_space (pool_inventory_version p))"

definition load_item :: "ledger \<Rightarrow> account_info \<Rightarrow> item result" where
  "load_item = load_view decode_item ITEM_LEN ITEM_VERSION item_version (\<lambda>_ len. len = ITEM_LEN)"

definition load_pull :: "ledger \<Rightarrow> account_info \<Rightarrow> pull result" where
  "load_pull = load_view decode_pull PULL_LEN PULL_VERSION pull_version (\<lambda>_ len. len = PULL_LEN)"

definition load_new_pool :: "ledger \<Rightarrow> account_info \<Rightarrow> pool result" where
  "load_new_pool = load_new_view decode_pool POOL_LEN pool_version"

definition load_new_item :: "ledger \<Rightarrow> account_info \<Rightarrow> item result" where
  "load_new_item = load_new_view decode_item ITEM_LEN item_version"

definition load_new_pull :: "ledger \<Rightarrow> account_info \<Rightarrow> pull result" where
  "load_new_pull = load_new_view decode_pull PULL_LEN pull_version"

text \<open>A held view reads the account's bytes at the time of the read; a setter writes them back.\<close>

definition pool_at :: "ledger \<Rightarrow> account_info \<Rightarrow> pool" where
  "pool_at L a = decode_pool (data_of L a)"

definition pull_at :: "ledger \<Rightarrow> account_info \<Rightarrow> pull" where
  "pull_at L a = decode_pull (data_of L a)"

definition index_at :: "ledger \<Rightarrow> account_info \<Rightarrow> bytes" where
  "index_at L a = drop POOL_LEN (data_of L a)"

definition put_pool :: "account_info \<Rightarrow> pool \<Rightarrow> ledger \<Rightarrow> ledger" where
  "put_pool a p L = write_data a (overlay encode_pool POOL_LEN p (data_of L a)) L"

definition put_item :: "account_info \<Rightarrow> item \<Rightarrow> ledger \<Rightarrow> ledger" where
  "put_item a i L = write_data a (overlay encode_item ITEM_LEN i (data_of L a)) L"

definition put_pull :: "account_info \<Rightarrow> pull \<Rightarrow> ledger \<Rightarrow> ledger" where
  "put_pull a u L = write_data a (overlay encode_pull PULL_LEN u (data_of L a)) L"

definition put_index :: "account_info \<Rightarrow> bytes \<Rightarrow> ledger \<Rightarrow> ledger" where
  "put_index a d L = write_data a (take POOL_LEN (data_of L a) @ d) L"

text \<open>\<open>Inventory::load\<close>.\<close>

definition load_inventory :: "ledger \<Rightarrow> account_info \<Rightarrow> bytes result" where
  "load_inventory L a = and_then (load_pool L a) (\<lambda>_. Inr (index_at L a))"

text \<open>\<open>pool.tiers_mut()[tier]\<close> with \<open>set_remaining\<close>: both the slice and the index can panic.\<close>

definition update_remaining :: "(u32 \<Rightarrow> u32 result) \<Rightarrow> u8 \<Rightarrow> pool \<Rightarrow> pool result" where
  "update_remaining f tier p =
     and_then (pool_tiers p) (\<lambda>ts.
     if unat tier < length ts
     then and_then (f (tier_remaining (ts ! unat tier))) (\<lambda>r.
       Inr (p\<lparr>pool_tiers_all := (pool_tiers_all p)[unat tier := (ts ! unat tier)\<lparr>tier_remaining := r\<rparr>]\<rparr>))
     else Inl Panic)"

subsection \<open>helpers.rs\<close>

definition check_uninitialized :: "env \<Rightarrow> ledger \<Rightarrow> account_info \<Rightarrow> unit result" where
  "check_uninitialized E L a =
     (if acct_owner (acct L a) \<noteq> env_system_id E \<or> length (data_of L a) \<noteq> 0
      then Inl (gerr AlreadyInitialized) else Inr ())"

text \<open>\<open>space as u64\<close> of a constant; the three seeds structs of \<open>gacha-core\<close> as seeds.\<close>

definition create_pda :: "env \<Rightarrow> account_info \<Rightarrow> account_info \<Rightarrow> nat \<Rightarrow> seeds \<Rightarrow> ledger \<Rightarrow> ledger result" where
  "create_pda E payer account space seeds L =
     and_then (env_rent E) (\<lambda>minimum_balance.
     let lamports = minimum_balance space in
     if acct_lamports (acct L account) = 0
     then env_invoke E (CreateAccount payer account lamports (word_of_nat space) ID) [seeds] L
     else
       let missing = saturating_sub lamports (acct_lamports (acct L account)) in
       and_then (if 0 < missing then env_invoke E (SystemTransfer payer account missing) [] L else Inr L) (\<lambda>L.
       and_then (env_invoke E (Allocate account (word_of_nat space)) [seeds] L) (\<lambda>L.
       env_invoke E (Assign account ID) [seeds] L)))"

definition pool_seeds :: "pubkey \<Rightarrow> u64 \<Rightarrow> u8 \<Rightarrow> seeds" where
  "pool_seeds authority pid bump = [POOL_SEED, to_le authority, to_le pid, [bump]]"

definition pull_seeds :: "pubkey \<Rightarrow> bytes32 \<Rightarrow> u8 \<Rightarrow> seeds" where
  "pull_seeds pool client_seed bump = [PULL_SEED, to_le pool, to_le client_seed, [bump]]"

definition item_seeds :: "pubkey \<Rightarrow> u8 \<Rightarrow> u32 \<Rightarrow> u8 \<Rightarrow> seeds" where
  "item_seeds pool tier position bump = [ITEM_SEED, to_le pool, [tier], to_le position, [bump]]"

definition pool_signer_seeds :: "pool \<Rightarrow> seeds" where
  "pool_signer_seeds p = pool_seeds (pool_authority p) (pool_id p) (pool_bump p)"

text \<open>\<open>close\<close>: the lamports move first, then the runtime clears the account.\<close>

definition close :: "env \<Rightarrow> account_info \<Rightarrow> account_info \<Rightarrow> ledger \<Rightarrow> ledger result" where
  "close E account to L =
     and_then (ok_or (checked_add (acct_lamports (acct L to)) (acct_lamports (acct L account))) ArithmeticOverflow)
       (\<lambda>lamports.
     let L = L(info_key to := acct L to\<lparr>acct_lamports := lamports\<rparr>) in
     and_then (env_close E (acct L account)) (\<lambda>closed. Inr (L(info_key account := closed))))"

definition ata :: "env \<Rightarrow> pubkey \<Rightarrow> pubkey \<Rightarrow> pubkey" where
  "ata E owner mint =
     env_find_program_address E [to_le owner, to_le (env_token_id E), to_le mint] (env_associated_token_id E)"

record token_account =
  token_mint :: pubkey
  token_owner :: pubkey
  token_amount :: u64

definition load_token :: "env \<Rightarrow> ledger \<Rightarrow> account_info \<Rightarrow> token_account result" where
  "load_token E L a =
     (if acct_owner (acct L a) \<noteq> env_token_id E \<or> length (data_of L a) \<noteq> 165
      then Inl (gerr InvalidTokenAddress)
      else let d = data_of L a in
        Inr \<lparr>token_mint = from_le (slice 0 32 d), token_owner = from_le (slice 32 32 d),
             token_amount = from_le (slice 64 8 d)\<rparr>)"

definition spendable :: "env \<Rightarrow> ledger \<Rightarrow> pool \<Rightarrow> account_info \<Rightarrow> u64 result" where
  "spendable E L p vault =
     and_then (load_token E L vault) (\<lambda>t.
     and_then (refund_amount p (pool_pending_draws p)) (\<lambda>reserved.
     ok_or (checked_sub (token_amount t) reserved) (gerr InsufficientBalance)))"

definition pay :: "env \<Rightarrow> account_info \<Rightarrow> account_info \<Rightarrow> account_info \<Rightarrow> u64 \<Rightarrow> ledger \<Rightarrow> ledger result" where
  "pay E pool_account vault destination amount L =
     and_then (load_pool L pool_account) (\<lambda>p.
     env_invoke E (TokenTransfer vault destination pool_account amount) [pool_signer_seeds p] L)"

subsection \<open>assets.rs\<close>

record core_transfer =
  ct_payer :: account_info
  ct_authority :: account_info
  ct_new_owner :: account_info
  ct_asset :: account_info
  ct_collection :: account_info
  ct_core_program :: account_info
  ct_system_program :: account_info

definition meta :: "bool \<Rightarrow> bool \<Rightarrow> account_info \<Rightarrow> account_meta" where
  "meta writable signer a = \<lparr>meta_key = info_key a, meta_writable = writable, meta_signer = signer\<rparr>"

definition core_transfer_invoke :: "env \<Rightarrow> core_transfer \<Rightarrow> seeds list \<Rightarrow> ledger \<Rightarrow> ledger result" where
  "core_transfer_invoke E t signers L =
     env_invoke E (Instruction CORE_ID
       [meta True False (ct_asset t), meta False False (ct_collection t), meta True True (ct_payer t),
        meta False True (ct_authority t), meta False False (ct_new_owner t),
        meta False False (ct_system_program t), meta False False (ct_core_program t)]
       [14, 0]
       [ct_asset t, ct_collection t, ct_payer t, ct_authority t, ct_new_owner t, ct_system_program t,
        ct_core_program t]) signers L"

end
