(* ===== verification/Events.thy ===== *)
theory Events
  imports Runtime
begin

section \<open>Events\<close>

text \<open>
  \<open>program/src/events.rs\<close>: one event per instruction, emitted through a call of the program to
  itself that only the event authority can sign. \<open>EventData<N>\<close> is a buffer of \<open>N\<close> bytes; \<open>push\<close>
  panics when the slice would leave it.
\<close>

datatype event =
    CreatePoolEvent pubkey
  | DepositItemEvent pubkey pubkey u8 u32
  | WithdrawEvent pubkey u64
  | SetStatusEvent pubkey u8
  | ReclaimEvent pubkey pubkey u32
  | BuyEvent pubkey pubkey pubkey u64 u8
  | RefundEvent pubkey pubkey u64
  | BuybackEvent pubkey pubkey pubkey u64 u32
  | SettleEvent pubkey pubkey bytes32 bytes bytes bytes
  | DeliverEvent pubkey pubkey u8

text \<open>The discriminators of the instructions, the sizes and the fields in wire order.\<close>

primrec event_instruction :: "event \<Rightarrow> u8" where
  "event_instruction (CreatePoolEvent pool) = 0"
| "event_instruction (DepositItemEvent pool asset tier position) = 1"
| "event_instruction (WithdrawEvent pool amount) = 2"
| "event_instruction (SetStatusEvent pool status) = 3"
| "event_instruction (ReclaimEvent pool asset position) = 4"
| "event_instruction (BuyEvent pool pull buyer index count) = 10"
| "event_instruction (RefundEvent pool pull amount) = 11"
| "event_instruction (BuybackEvent pool asset seller price position) = 12"
| "event_instruction (SettleEvent pool pull alpha proof beta outcomes) = 20"
| "event_instruction (DeliverEvent pull asset outcome) = 21"

primrec event_size :: "event \<Rightarrow> nat" where
  "event_size (CreatePoolEvent pool) = 34"
| "event_size (DepositItemEvent pool asset tier position) = 71"
| "event_size (WithdrawEvent pool amount) = 42"
| "event_size (SetStatusEvent pool status) = 35"
| "event_size (ReclaimEvent pool asset position) = 70"
| "event_size (BuyEvent pool pull buyer index count) = 107"
| "event_size (RefundEvent pool pull amount) = 74"
| "event_size (BuybackEvent pool asset seller price position) = 110"
| "event_size (SettleEvent pool pull alpha proof beta outcomes) = 572"
| "event_size (DeliverEvent pull asset outcome) = 67"

primrec event_fields :: "event \<Rightarrow> bytes list" where
  "event_fields (CreatePoolEvent pool) = [to_le pool]"
| "event_fields (DepositItemEvent pool asset tier position) = [to_le pool, to_le asset, [tier], to_le position]"
| "event_fields (WithdrawEvent pool amount) = [to_le pool, to_le amount]"
| "event_fields (SetStatusEvent pool status) = [to_le pool, [status]]"
| "event_fields (ReclaimEvent pool asset position) = [to_le pool, to_le asset, to_le position]"
| "event_fields (BuyEvent pool pull buyer index count) =
     [to_le pool, to_le pull, to_le buyer, to_le index, [count]]"
| "event_fields (RefundEvent pool pull amount) = [to_le pool, to_le pull, to_le amount]"
| "event_fields (BuybackEvent pool asset seller price position) =
     [to_le pool, to_le asset, to_le seller, to_le price, to_le position]"
| "event_fields (SettleEvent pool pull alpha proof beta outcomes) =
     [to_le pool, to_le pull, to_le alpha, proof, beta, outcomes]"
| "event_fields (DeliverEvent pull asset outcome) = [to_le pull, to_le asset, [outcome]]"

definition event_push :: "nat \<Rightarrow> bytes \<Rightarrow> bytes \<Rightarrow> bytes result" where
  "event_push capacity data bytes =
     (if length data + length bytes \<le> capacity then Inr (data @ bytes) else Inl Panic)"

definition event_data :: "event \<Rightarrow> bytes result" where
  "event_data e =
     fold_res (event_push (event_size e)) [EVENT_DISCRIMINATOR, event_instruction e] (event_fields e)"

definition emit_data :: "env \<Rightarrow> bytes \<Rightarrow> account_info \<Rightarrow> account_info \<Rightarrow> ledger \<Rightarrow> ledger result" where
  "emit_data E data event_authority program L =
     env_invoke E (Instruction ID
       [\<lparr>meta_key = EVENT_AUTHORITY, meta_writable = False, meta_signer = True\<rparr>,
        \<lparr>meta_key = ID, meta_writable = False, meta_signer = False\<rparr>]
       data [event_authority, program]) [[EVENT_AUTHORITY_SEED, [EVENT_AUTHORITY_BUMP]]] L"

definition emit :: "env \<Rightarrow> event \<Rightarrow> account_info \<Rightarrow> account_info \<Rightarrow> ledger \<Rightarrow> ledger result" where
  "emit E e event_authority program L =
     and_then (event_data e) (\<lambda>data. emit_data E data event_authority program L)"

text \<open>The instruction every event call targets.\<close>

definition emit_event :: "account_info list \<Rightarrow> unit result" where
  "emit_event accounts =
     (case accounts of
        event_authority # _ \<Rightarrow>
          if \<not> is_signer event_authority \<or> info_key event_authority \<noteq> EVENT_AUTHORITY
          then Inl (gerr InvalidEventAuthority) else Inr ()
      | [] \<Rightarrow> Inl NotEnoughAccountKeys)"

subsection \<open>The wire format\<close>

text \<open>The variable-length fields of a settle event: proof, beta, and up to ten outcomes.\<close>

primrec event_fits :: "event \<Rightarrow> bool" where
  "event_fits (CreatePoolEvent pool) = True"
| "event_fits (DepositItemEvent pool asset tier position) = True"
| "event_fits (WithdrawEvent pool amount) = True"
| "event_fits (SetStatusEvent pool status) = True"
| "event_fits (ReclaimEvent pool asset position) = True"
| "event_fits (BuyEvent pool pull buyer index count) = True"
| "event_fits (RefundEvent pool pull amount) = True"
| "event_fits (BuybackEvent pool asset seller price position) = True"
| "event_fits (SettleEvent pool pull alpha proof beta outcomes) =
     (length proof = 80 \<and> length beta = 64 \<and> length outcomes \<le> 330)"
| "event_fits (DeliverEvent pull asset outcome) = True"

lemma event_data_fits:
  "event_fits e \<Longrightarrow> event_data e = Inr (EVENT_DISCRIMINATOR # event_instruction e # concat (event_fields e))"
  by (cases e) (simp_all add: event_data_def event_push_def)

text \<open>
  C31: events never overflow their buffers and can be told apart. Every event whose settle fields
  have their declared lengths serializes without a panic to the event discriminator, the
  instruction's discriminator and the fields in order; and two such events with equal bytes are
  the same event.
\<close>

theorem event_data_injective:
  assumes "event_fits e" "event_fits e'"
  shows "event_data e = Inr (EVENT_DISCRIMINATOR # event_instruction e # concat (event_fields e)) \<and>
    length (concat (event_fields e)) + 2 \<le> event_size e \<and> (event_data e = event_data e' \<longleftrightarrow> e = e')"
proof (intro conjI)
  show "event_data e = Inr (EVENT_DISCRIMINATOR # event_instruction e # concat (event_fields e))"
    using assms(1) by (rule event_data_fits)
  show "length (concat (event_fields e)) + 2 \<le> event_size e"
    using assms(1) by (cases e) simp_all
  show "event_data e = event_data e' \<longleftrightarrow> e = e'"
    unfolding event_data_fits [OF assms(1)] event_data_fits [OF assms(2)] using assms
    by (cases e; cases e') (auto simp: to_le_inject_key to_le_inject_u64 to_le_inject_u32)
qed

theorem event_data_injective_witness:
  "event_data (RefundEvent 1 2 3) \<noteq> event_data (RefundEvent 1 2 4)"
  using conjunct2 [OF conjunct2 [OF event_data_injective [of "RefundEvent 1 2 3" "RefundEvent 1 2 4"]]]
  by simp

end
