(* ===== verification/Stock.thy ===== *)
theory Stock
  imports Events
begin

section \<open>Drawing and restocking\<close>

text \<open>
  \<open>draw\<close>, \<open>check_restock\<close> and \<open>restock\<close> of \<open>program/src/inventory.rs\<close>. All views are live, so
  \<open>draw\<close> threads the ledger: each step reads the pool and the index at the pool's address, and
  writes the index, the award, the closed item and the tier's counter back.
\<close>

definition draw_one ::
  "env \<Rightarrow> account_info \<Rightarrow> account_info \<Rightarrow> account_info \<Rightarrow> bytes \<Rightarrow> nat \<Rightarrow> u32 list \<Rightarrow> account_info \<Rightarrow> ledger
   \<Rightarrow> (u32 list \<times> ledger) result" where
  "draw_one E pool pull operator beta i available item_account L =
     (let hash = env_sha256 E (beta @ [word_of_nat i]) in
      and_then (pool_draw (pool_at L pool) hash available) (\<lambda>(tier, rank).
      and_then (index_take (index_at L pool) tier rank) (\<lambda>(index, position).
      let L = put_index pool index L in
      and_then (if unat tier < length available
                then and_then (sub_ov (available ! unat tier) 1) (\<lambda>c. Inr (available[unat tier := c]))
                else Inl Panic) (\<lambda>available.
      and_then (load_item L item_account) (\<lambda>item.
      if item_pool item \<noteq> info_key pool \<or> item_tier item \<noteq> tier \<or> item_position item \<noteq> position
      then Inl (gerr InvalidItem)
      else and_then (pull_set_outcome i tier (item_asset item) (pull_at L pull)) (\<lambda>u.
        let L = put_pull pull u L in
        and_then (close E item_account operator L) (\<lambda>L.
        and_then (update_remaining (\<lambda>r. sub_ov r 1) tier (pool_at L pool)) (\<lambda>p.
        Inr (available, put_pool pool p L)))))))))"

fun draw_items ::
  "env \<Rightarrow> account_info \<Rightarrow> account_info \<Rightarrow> account_info \<Rightarrow> bytes \<Rightarrow> nat \<Rightarrow> u32 list \<Rightarrow> account_info list \<Rightarrow> ledger
   \<Rightarrow> ledger result" where
  "draw_items E pool pull operator beta i available [] L = Inr L"
| "draw_items E pool pull operator beta i available (item # items) L =
     and_then (draw_one E pool pull operator beta i available item L) (\<lambda>(available, L).
     draw_items E pool pull operator beta (Suc i) available items L)"

definition draw ::
  "env \<Rightarrow> account_info \<Rightarrow> account_info \<Rightarrow> account_info list \<Rightarrow> account_info \<Rightarrow> bytes \<Rightarrow> ledger \<Rightarrow> ledger result" where
  "draw E pool pull items operator beta L =
     and_then (index_counts (index_at L pool) (pull_inventory_version (pull_at L pull))) (\<lambda>available.
     draw_items E pool pull operator beta 0 available items L)"

definition check_restock ::
  "env \<Rightarrow> pool \<Rightarrow> pubkey \<Rightarrow> account_info \<Rightarrow> u8 \<Rightarrow> u8 \<Rightarrow> ledger \<Rightarrow> u32 result" where
  "check_restock E p pool_key item_account tier bump L =
     (if pool_tier_count p \<le> tier then Inl (gerr InvalidTier)
      else let position = pool_inventory_version p in
        and_then (ok_or (env_create_program_address E [ITEM_SEED, to_le pool_key, [tier], to_le position, [bump]] ID)
          (gerr InvalidSeeds)) (\<lambda>key.
        if key \<noteq> info_key item_account then Inl (gerr InvalidSeeds)
        else and_then (check_uninitialized E L item_account) (\<lambda>_. Inr position)))"

text \<open>The growth of the pool account, when the next position needs a new block.\<close>

definition grow_pool :: "env \<Rightarrow> account_info \<Rightarrow> account_info \<Rightarrow> nat \<Rightarrow> ledger \<Rightarrow> ledger result" where
  "grow_pool E payer pool_account space L =
     (if space \<noteq> length (data_of L pool_account)
      then and_then (env_rent E) (\<lambda>minimum_balance.
        let missing = saturating_sub (minimum_balance space) (acct_lamports (acct L pool_account)) in
        and_then (if 0 < missing then env_invoke E (SystemTransfer payer pool_account missing) [] L else Inr L) (\<lambda>L.
        and_then (env_realloc E (acct L pool_account) space) (\<lambda>grown.
        Inr (L(info_key pool_account := grown)))))
      else Inr L)"

definition restock ::
  "env \<Rightarrow> account_info \<Rightarrow> account_info \<Rightarrow> account_info \<Rightarrow> pubkey \<Rightarrow> u8 \<Rightarrow> u8 \<Rightarrow> ledger \<Rightarrow> ledger result" where
  "restock E payer pool_account item_account asset tier bump L =
     and_then (load_pool L pool_account) (\<lambda>p.
     let position = pool_inventory_version p in
     and_then (add_ov position 1) (\<lambda>version.
     let L = put_pool pool_account (p\<lparr>pool_inventory_version := version\<rparr>) L in
     and_then (grow_pool E payer pool_account (POOL_LEN + inventory_space version) L) (\<lambda>L.
     and_then (create_pda E payer item_account ITEM_LEN (item_seeds (info_key pool_account) tier position bump) L) (\<lambda>L.
     and_then (load_new_item L item_account) (\<lambda>item.
     let L = put_item item_account (item_set_inner bump tier position (info_key pool_account) asset item) L in
     and_then (load_pool L pool_account) (\<lambda>_.
     and_then (load_inventory L pool_account) (\<lambda>inventory.
     and_then (index_append inventory position tier) (\<lambda>inventory.
     let L = put_index pool_account inventory L in
     and_then (update_remaining (\<lambda>r. add_ov r 1) tier (pool_at L pool_account)) (\<lambda>p.
     Inr (put_pool pool_account p L))))))))))"

end
