(* ===== verification/Admin.thy ===== *)
theory Admin
  imports Stock
begin

section \<open>The authority's instructions\<close>

text \<open>
  \<open>program/src/admin\<close>: create a pool, deposit a prize, withdraw the surplus of the vault, set the
  status of the pool and reclaim a prize of a retired pool. Each instruction has the accounts with
  their checks, the instruction data with their checks, and \<open>process\<close>; the accounts are checked
  first.
\<close>

subsection \<open>create\_pool.rs\<close>

record create_pool_accounts =
  cp_authority :: account_info
  cp_pool :: account_info
  cp_operator :: account_info
  cp_payment_mint :: account_info
  cp_vault :: account_info
  cp_event_authority :: account_info
  cp_program :: account_info

definition try_create_pool_accounts :: "env \<Rightarrow> ledger \<Rightarrow> account_info list \<Rightarrow> create_pool_accounts result" where
  "try_create_pool_accounts E L accounts =
     (case accounts of
        [authority, pool, operator, payment_mint, vault, _, event_authority, program] \<Rightarrow>
          if \<not> is_signer authority then Inl (gerr NotSigner)
          else if \<not> is_writable pool then Inl (gerr NotMutable)
          else and_then (check_uninitialized E L pool) (\<lambda>_.
            Inr \<lparr>cp_authority = authority, cp_pool = pool, cp_operator = operator,
                 cp_payment_mint = payment_mint, cp_vault = vault,
                 cp_event_authority = event_authority, cp_program = program\<rparr>)
      | _ \<Rightarrow> Inl NotEnoughAccountKeys)"

record create_pool_data =
  cp_id :: u64
  cp_price :: u64
  cp_deadline_slots :: u64
  cp_bond_per_draw :: u64
  cp_tier_count :: u8
  cp_weights :: "u32 list"
  cp_bump :: u8

definition try_create_pool_data :: "bytes \<Rightarrow> create_pool_data result" where
  "try_create_pool_data data =
     (if length data \<noteq> 66 then Inl InvalidInstructionData
      else let
        pid = from_le (slice 0 8 data); price = from_le (slice 8 8 data);
        deadline_slots = from_le (slice 16 8 data); bond_per_draw = from_le (slice 24 8 data);
        tier_count = data ! 32;
        weights = map (\<lambda>i. from_le (slice (33 + i * 4) 4 data)) [0..<MAX_TIERS];
        bump = data ! 65 in
      if tier_count = 0 \<or> MAX_TIERS < unat tier_count then Inl (gerr InvalidPoolParams)
      else if 0 \<in> set (take (unat tier_count) weights) then Inl (gerr InvalidPoolParams)
      else if price = 0 \<or> bond_per_draw = 0 \<or> deadline_slots = 0 then Inl (gerr InvalidPoolParams)
      else if Option.bind (checked_add price bond_per_draw) (\<lambda>amount. checked_mul amount 10) = None
      then Inl (gerr InvalidPoolParams)
      else Inr \<lparr>cp_id = pid, cp_price = price, cp_deadline_slots = deadline_slots,
        cp_bond_per_draw = bond_per_draw, cp_tier_count = tier_count, cp_weights = weights, cp_bump = bump\<rparr>)"

definition create_pool_process :: "env \<Rightarrow> create_pool_accounts \<Rightarrow> create_pool_data \<Rightarrow> ledger \<Rightarrow> ledger result" where
  "create_pool_process E a d L =
     and_then (ok_or (env_create_program_address E
         [POOL_SEED, to_le (info_key (cp_authority a)), to_le (cp_id d), [cp_bump d]] ID) (gerr InvalidSeeds)) (\<lambda>pool_key.
     if pool_key \<noteq> info_key (cp_pool a) then Inl (gerr InvalidSeeds)
     else if info_key (cp_vault a) \<noteq> ata E pool_key (info_key (cp_payment_mint a))
     then Inl (gerr InvalidTokenAddress)
     else and_then (create_pda E (cp_authority a) (cp_pool a) POOL_LEN
         (pool_seeds (info_key (cp_authority a)) (cp_id d) (cp_bump d)) L) (\<lambda>L.
       and_then (load_new_pool L (cp_pool a)) (\<lambda>p.
       and_then (pool_set_inner (cp_bump d) (info_key (cp_authority a)) (info_key (cp_operator a))
           (info_key (cp_payment_mint a)) (info_key (cp_vault a)) (cp_id d) (cp_price d)
           (cp_deadline_slots d) (cp_bond_per_draw d) (take (unat (cp_tier_count d)) (cp_weights d)) p) (\<lambda>p.
       let L = put_pool (cp_pool a) p L in
       emit E (CreatePoolEvent (info_key (cp_pool a))) (cp_event_authority a) (cp_program a) L))))"

definition create_pool :: "env \<Rightarrow> account_info list \<Rightarrow> bytes \<Rightarrow> ledger \<Rightarrow> ledger result" where
  "create_pool E accounts data L =
     and_then (try_create_pool_accounts E L accounts) (\<lambda>a.
     and_then (try_create_pool_data data) (\<lambda>d. create_pool_process E a d L))"

subsection \<open>deposit\_item.rs\<close>

record deposit_item_accounts =
  di_authority :: account_info
  di_pool :: account_info
  di_item :: account_info
  di_asset :: account_info
  di_collection :: account_info
  di_core_program :: account_info
  di_system_program :: account_info
  di_event_authority :: account_info
  di_program :: account_info

definition try_deposit_item_accounts :: "ledger \<Rightarrow> account_info list \<Rightarrow> deposit_item_accounts result" where
  "try_deposit_item_accounts L accounts =
     (case accounts of
        [authority, pool, item, asset, collection, core_program, system_program, event_authority, program] \<Rightarrow>
          if \<not> is_signer authority then Inl (gerr NotSigner)
          else if \<not> is_writable pool \<or> \<not> is_writable item then Inl (gerr NotMutable)
          else and_then (load_pool L pool) (\<lambda>p.
            if pool_authority p \<noteq> info_key authority then Inl (gerr InvalidAuthority)
            else if pool_status p = POOL_RETIRED then Inl (gerr InvalidPoolStatus)
            else Inr \<lparr>di_authority = authority, di_pool = pool, di_item = item, di_asset = asset,
              di_collection = collection, di_core_program = core_program,
              di_system_program = system_program, di_event_authority = event_authority,
              di_program = program\<rparr>)
      | _ \<Rightarrow> Inl NotEnoughAccountKeys)"

record deposit_item_data =
  di_tier :: u8
  di_bump :: u8

definition try_deposit_item_data :: "bytes \<Rightarrow> deposit_item_data result" where
  "try_deposit_item_data data =
     (if length data \<noteq> 2 then Inl InvalidInstructionData
      else Inr \<lparr>di_tier = data ! 0, di_bump = data ! 1\<rparr>)"

definition deposit_item_process :: "env \<Rightarrow> deposit_item_accounts \<Rightarrow> deposit_item_data \<Rightarrow> ledger \<Rightarrow> ledger result" where
  "deposit_item_process E a d L =
     and_then (load_pool L (di_pool a)) (\<lambda>p.
     and_then (check_restock E p (info_key (di_pool a)) (di_item a) (di_tier d) (di_bump d) L) (\<lambda>position.
     and_then (restock E (di_authority a) (di_pool a) (di_item a) (info_key (di_asset a)) (di_tier d) (di_bump d) L) (\<lambda>L.
     and_then (core_transfer_invoke E \<lparr>ct_payer = di_authority a, ct_authority = di_authority a,
         ct_new_owner = di_pool a, ct_asset = di_asset a, ct_collection = di_collection a,
         ct_core_program = di_core_program a, ct_system_program = di_system_program a\<rparr> [] L) (\<lambda>L.
     emit E (DepositItemEvent (info_key (di_pool a)) (info_key (di_asset a)) (di_tier d) position)
       (di_event_authority a) (di_program a) L))))"

definition deposit_item :: "env \<Rightarrow> account_info list \<Rightarrow> bytes \<Rightarrow> ledger \<Rightarrow> ledger result" where
  "deposit_item E accounts data L =
     and_then (try_deposit_item_accounts L accounts) (\<lambda>a.
     and_then (try_deposit_item_data data) (\<lambda>d. deposit_item_process E a d L))"

subsection \<open>withdraw.rs\<close>

record withdraw_accounts =
  wd_authority :: account_info
  wd_pool :: account_info
  wd_vault :: account_info
  wd_destination :: account_info
  wd_event_authority :: account_info
  wd_program :: account_info

definition try_withdraw_accounts :: "ledger \<Rightarrow> account_info list \<Rightarrow> withdraw_accounts result" where
  "try_withdraw_accounts L accounts =
     (case accounts of
        [authority, pool, vault, destination, _, event_authority, program] \<Rightarrow>
          if \<not> is_signer authority then Inl (gerr NotSigner)
          else and_then (load_pool L pool) (\<lambda>p.
            if pool_authority p \<noteq> info_key authority then Inl (gerr InvalidAuthority)
            else if pool_vault p \<noteq> info_key vault then Inl (gerr InvalidTokenAddress)
            else Inr \<lparr>wd_authority = authority, wd_pool = pool, wd_vault = vault,
              wd_destination = destination, wd_event_authority = event_authority, wd_program = program\<rparr>)
      | _ \<Rightarrow> Inl NotEnoughAccountKeys)"

definition try_withdraw_data :: "bytes \<Rightarrow> u64 result" where
  "try_withdraw_data data =
     (if length data \<noteq> 8 then Inl InvalidInstructionData else Inr (from_le (slice 0 8 data)))"

definition withdraw_process :: "env \<Rightarrow> withdraw_accounts \<Rightarrow> u64 \<Rightarrow> ledger \<Rightarrow> ledger result" where
  "withdraw_process E a amount L =
     and_then (load_pool L (wd_pool a)) (\<lambda>p.
     and_then (spendable E L p (wd_vault a)) (\<lambda>free.
     if free < amount then Inl (gerr InsufficientBalance)
     else and_then (pay E (wd_pool a) (wd_vault a) (wd_destination a) amount L) (\<lambda>L.
       emit E (WithdrawEvent (info_key (wd_pool a)) amount) (wd_event_authority a) (wd_program a) L)))"

definition withdraw :: "env \<Rightarrow> account_info list \<Rightarrow> bytes \<Rightarrow> ledger \<Rightarrow> ledger result" where
  "withdraw E accounts data L =
     and_then (try_withdraw_accounts L accounts) (\<lambda>a.
     and_then (try_withdraw_data data) (\<lambda>amount. withdraw_process E a amount L))"

subsection \<open>lifecycle.rs: SetStatus\<close>

record set_status_accounts =
  ss_authority :: account_info
  ss_pool :: account_info
  ss_event_authority :: account_info
  ss_program :: account_info

definition try_set_status_accounts :: "ledger \<Rightarrow> account_info list \<Rightarrow> set_status_accounts result" where
  "try_set_status_accounts L accounts =
     (case accounts of
        [authority, pool, event_authority, program] \<Rightarrow>
          if \<not> is_signer authority then Inl (gerr NotSigner)
          else if \<not> is_writable pool then Inl (gerr NotMutable)
          else and_then (load_pool L pool) (\<lambda>p.
            if pool_authority p \<noteq> info_key authority then Inl (gerr InvalidAuthority)
            else Inr \<lparr>ss_authority = authority, ss_pool = pool, ss_event_authority = event_authority,
              ss_program = program\<rparr>)
      | _ \<Rightarrow> Inl NotEnoughAccountKeys)"

definition try_set_status_data :: "bytes \<Rightarrow> u8 result" where
  "try_set_status_data data =
     (if length data \<noteq> 1 then Inl InvalidInstructionData
      else let status = data ! 0 in
        if POOL_RETIRED < status then Inl InvalidInstructionData else Inr status)"

definition set_status_process :: "env \<Rightarrow> set_status_accounts \<Rightarrow> u8 \<Rightarrow> ledger \<Rightarrow> ledger result" where
  "set_status_process E a status L =
     and_then (load_pool L (ss_pool a)) (\<lambda>p.
     if pool_status p = POOL_RETIRED \<and> status \<noteq> POOL_RETIRED then Inl (gerr InvalidPoolStatus)
     else let L = put_pool (ss_pool a) (p\<lparr>pool_status := status\<rparr>) L in
       emit E (SetStatusEvent (info_key (ss_pool a)) status) (ss_event_authority a) (ss_program a) L)"

definition set_status :: "env \<Rightarrow> account_info list \<Rightarrow> bytes \<Rightarrow> ledger \<Rightarrow> ledger result" where
  "set_status E accounts data L =
     and_then (try_set_status_accounts L accounts) (\<lambda>a.
     and_then (try_set_status_data data) (\<lambda>status. set_status_process E a status L))"

subsection \<open>lifecycle.rs: Reclaim\<close>

record reclaim_accounts =
  rc_authority :: account_info
  rc_pool :: account_info
  rc_item :: account_info
  rc_asset :: account_info
  rc_collection :: account_info
  rc_core_program :: account_info
  rc_system_program :: account_info
  rc_event_authority :: account_info
  rc_program :: account_info

text \<open>The last disjunct of the item check indexes \<open>pool_data.tiers()\<close>, which can only panic there.\<close>

definition reclaim_item_ok :: "pool \<Rightarrow> item \<Rightarrow> pubkey \<Rightarrow> pubkey \<Rightarrow> unit result" where
  "reclaim_item_ok p i pool_key asset_key =
     (if item_pool i \<noteq> pool_key \<or> item_asset i \<noteq> asset_key \<or> pool_tier_count p \<le> item_tier i \<or>
        pool_inventory_version p \<le> item_position i
      then Inl (gerr InvalidItem)
      else and_then (pool_tiers p) (\<lambda>ts.
        if length ts \<le> unat (item_tier i) then Inl Panic
        else if tier_remaining (ts ! unat (item_tier i)) = 0 then Inl (gerr InvalidItem)
        else Inr ()))"

definition try_reclaim_accounts :: "ledger \<Rightarrow> account_info list \<Rightarrow> reclaim_accounts result" where
  "try_reclaim_accounts L accounts =
     (case accounts of
        [authority, pool, item, asset, collection, core_program, system_program, event_authority, program] \<Rightarrow>
          if \<not> is_signer authority then Inl (gerr NotSigner)
          else if \<not> is_writable authority \<or> \<not> is_writable pool \<or> \<not> is_writable item then Inl (gerr NotMutable)
          else and_then (load_pool L pool) (\<lambda>p.
            if pool_authority p \<noteq> info_key authority then Inl (gerr InvalidAuthority)
            else if pool_status p \<noteq> POOL_RETIRED then Inl (gerr InvalidPoolStatus)
            else if pool_pending_draws p \<noteq> 0 then Inl (gerr PendingPurchases)
            else and_then (load_item L item) (\<lambda>i.
              and_then (reclaim_item_ok p i (info_key pool) (info_key asset)) (\<lambda>_.
              Inr \<lparr>rc_authority = authority, rc_pool = pool, rc_item = item, rc_asset = asset,
                rc_collection = collection, rc_core_program = core_program,
                rc_system_program = system_program, rc_event_authority = event_authority,
                rc_program = program\<rparr>)))
      | _ \<Rightarrow> Inl NotEnoughAccountKeys)"

definition reclaim_process :: "env \<Rightarrow> reclaim_accounts \<Rightarrow> ledger \<Rightarrow> ledger result" where
  "reclaim_process E a L =
     and_then (load_item L (rc_item a)) (\<lambda>i.
     let tier = item_tier i; position = item_position i in
     and_then (load_pool L (rc_pool a)) (\<lambda>_.
     and_then (load_inventory L (rc_pool a)) (\<lambda>inventory.
     and_then (index_remove inventory position tier) (\<lambda>inventory.
     let L = put_index (rc_pool a) inventory L in
     and_then (update_remaining (\<lambda>r. sub_ov r 1) tier (pool_at L (rc_pool a))) (\<lambda>p.
     let L = put_pool (rc_pool a) p L in
     and_then (core_transfer_invoke E \<lparr>ct_payer = rc_authority a, ct_authority = rc_pool a,
         ct_new_owner = rc_authority a, ct_asset = rc_asset a, ct_collection = rc_collection a,
         ct_core_program = rc_core_program a, ct_system_program = rc_system_program a\<rparr>
         [pool_signer_seeds (pool_at L (rc_pool a))] L) (\<lambda>L.
     and_then (close E (rc_item a) (rc_authority a) L) (\<lambda>L.
     emit E (ReclaimEvent (info_key (rc_pool a)) (info_key (rc_asset a)) position)
       (rc_event_authority a) (rc_program a) L)))))))"

definition reclaim :: "env \<Rightarrow> account_info list \<Rightarrow> ledger \<Rightarrow> ledger result" where
  "reclaim E accounts L = and_then (try_reclaim_accounts L accounts) (\<lambda>a. reclaim_process E a L)"

end
