(* ===== verification/Player.thy ===== *)
theory Player
  imports Stock
begin

section \<open>The player's instructions\<close>

text \<open>
  \<open>program/src/player\<close>: buy a pull of up to ten draws, refund an overdue pull and sell a prize back
  against a quote signed by the pool authority.
\<close>

subsection \<open>buy.rs\<close>

record buy_accounts =
  buy_buyer :: account_info
  buy_pool :: account_info
  buy_pull :: account_info
  buy_buyer_ata :: account_info
  buy_vault :: account_info
  buy_event_authority :: account_info
  buy_program :: account_info

definition try_buy_accounts :: "env \<Rightarrow> ledger \<Rightarrow> account_info list \<Rightarrow> buy_accounts result" where
  "try_buy_accounts E L accounts =
     (case accounts of
        [buyer, pool, pull, buyer_ata, vault, _, _, event_authority, program] \<Rightarrow>
          if \<not> is_signer buyer then Inl (gerr NotSigner)
          else if \<not> is_writable pool \<or> \<not> is_writable pull then Inl (gerr NotMutable)
          else and_then (check_uninitialized E L pull) (\<lambda>_.
            and_then (load_pool L pool) (\<lambda>p.
            if pool_status p \<noteq> POOL_ACTIVE then Inl (gerr InvalidPoolStatus)
            else if pool_vault p \<noteq> info_key vault then Inl (gerr InvalidTokenAddress)
            else Inr \<lparr>buy_buyer = buyer, buy_pool = pool, buy_pull = pull, buy_buyer_ata = buyer_ata,
              buy_vault = vault, buy_event_authority = event_authority, buy_program = program\<rparr>))
      | _ \<Rightarrow> Inl NotEnoughAccountKeys)"

record buy_data =
  buy_count :: u8
  buy_client_seed :: bytes32
  buy_inventory_version :: u32
  buy_bump :: u8

definition try_buy_data :: "bytes \<Rightarrow> buy_data result" where
  "try_buy_data data =
     (if length data \<noteq> 38 then Inl InvalidInstructionData
      else let count = data ! 0 in
        if count = 0 \<or> MAX_COUNT < unat count then Inl (gerr InvalidCount)
        else Inr \<lparr>buy_count = count, buy_client_seed = from_le (slice 1 32 data),
          buy_inventory_version = from_le (slice 33 4 data), buy_bump = data ! 37\<rparr>)"

text \<open>
  \<open>buy_reserve\<close> is the part of \<open>process\<close> before the pull is created: the checks of the candidate
  list, the stock and the vault. It returns the new number of pending draws and the payment.
\<close>

definition buy_reserve :: "env \<Rightarrow> buy_accounts \<Rightarrow> buy_data \<Rightarrow> ledger \<Rightarrow> (u64 \<times> u64) result" where
  "buy_reserve E a d L =
     and_then (ok_or (env_create_program_address E
         [PULL_SEED, to_le (info_key (buy_pool a)), to_le (buy_client_seed d), [buy_bump d]] ID) (gerr InvalidSeeds)) (\<lambda>pull_key.
     if pull_key \<noteq> info_key (buy_pull a) then Inl (gerr InvalidSeeds)
     else and_then (load_pool L (buy_pool a)) (\<lambda>p.
     if buy_inventory_version d \<noteq> pool_inventory_version p then Inl (gerr InventoryChanged)
     else let count = ucast (buy_count d) in
       and_then (add_ov (pool_pending_draws p) count) (\<lambda>pending_draws.
       and_then (remaining_total p) (\<lambda>remaining.
       if remaining < pending_draws then Inl (gerr SoldOut)
       else and_then (payment p count) (\<lambda>amount.
         and_then (load_token E L (buy_vault a)) (\<lambda>vault.
         and_then (add_ov (token_amount vault) amount) (\<lambda>balance.
         and_then (refund_amount p pending_draws) (\<lambda>reserved.
         if balance < reserved then Inl (gerr InsufficientBalance)
         else Inr (pending_draws, amount)))))))))"

definition buy_process :: "env \<Rightarrow> buy_accounts \<Rightarrow> buy_data \<Rightarrow> ledger \<Rightarrow> ledger result" where
  "buy_process E a d L =
     and_then (buy_reserve E a d L) (\<lambda>(pending_draws, amount).
     and_then (create_pda E (buy_buyer a) (buy_pull a) PULL_LEN
         (pull_seeds (info_key (buy_pool a)) (buy_client_seed d) (buy_bump d)) L) (\<lambda>L.
     let p = pool_at L (buy_pool a); index = pool_next_index p in
     and_then (load_new_pull L (buy_pull a)) (\<lambda>u.
     and_then (env_clock E) (\<lambda>clock.
     and_then (add_ov (clock_slot clock) (pool_deadline_slots p)) (\<lambda>deadline_slot.
     let L = put_pull (buy_pull a) (pull_set_inner (buy_bump d) (buy_count d) (pool_inventory_version p) index
         deadline_slot (info_key (buy_pool a)) (info_key (buy_buyer a)) (buy_client_seed d) u) L;
       p = (pool_at L (buy_pool a))\<lparr>pool_pending_draws := pending_draws\<rparr> in
     and_then (add_ov index 1) (\<lambda>next_index.
     let L = put_pool (buy_pool a) (p\<lparr>pool_next_index := next_index\<rparr>) L in
     and_then (env_invoke E (TokenTransfer (buy_buyer_ata a) (buy_vault a) (buy_buyer a) amount) [] L) (\<lambda>L.
     emit E (BuyEvent (info_key (buy_pool a)) (info_key (buy_pull a)) (info_key (buy_buyer a)) index (buy_count d))
       (buy_event_authority a) (buy_program a) L)))))))"

definition buy :: "env \<Rightarrow> account_info list \<Rightarrow> bytes \<Rightarrow> ledger \<Rightarrow> ledger result" where
  "buy E accounts data L =
     and_then (try_buy_accounts E L accounts) (\<lambda>a.
     and_then (try_buy_data data) (\<lambda>d. buy_process E a d L))"

subsection \<open>refund.rs\<close>

record refund_accounts =
  rf_pool :: account_info
  rf_pull :: account_info
  rf_buyer :: account_info
  rf_vault :: account_info
  rf_buyer_ata :: account_info
  rf_event_authority :: account_info
  rf_program :: account_info

definition try_refund_accounts :: "env \<Rightarrow> ledger \<Rightarrow> account_info list \<Rightarrow> refund_accounts result" where
  "try_refund_accounts E L accounts =
     (case accounts of
        [pool, pull, buyer, vault, buyer_ata, _, event_authority, program] \<Rightarrow>
          if \<not> is_writable pool \<or> \<not> is_writable pull \<or> \<not> is_writable buyer then Inl (gerr NotMutable)
          else and_then (load_pool L pool) (\<lambda>p.
            and_then (load_pull L pull) (\<lambda>u.
            if pull_pool u \<noteq> info_key pool then Inl (gerr PoolMismatch)
            else if pull_status u \<noteq> STATUS_PENDING then Inl (gerr InvalidPullStatus)
            else if pull_index u \<noteq> pool_next_settle p then Inl (gerr NotNextInQueue)
            else and_then (env_clock E) (\<lambda>clock.
              if clock_slot clock \<le> pull_deadline_slot u then Inl (gerr DeadlineNotReached)
              else if pull_buyer u \<noteq> info_key buyer then Inl (gerr InvalidBuyer)
              else if pool_vault p \<noteq> info_key vault then Inl (gerr InvalidTokenAddress)
              else and_then (load_token E L buyer_ata) (\<lambda>t.
                if token_owner t \<noteq> pull_buyer u then Inl (gerr InvalidTokenAddress)
                else Inr \<lparr>rf_pool = pool, rf_pull = pull, rf_buyer = buyer, rf_vault = vault,
                  rf_buyer_ata = buyer_ata, rf_event_authority = event_authority, rf_program = program\<rparr>))))
      | _ \<Rightarrow> Inl NotEnoughAccountKeys)"

definition refund_process :: "env \<Rightarrow> refund_accounts \<Rightarrow> ledger \<Rightarrow> ledger result" where
  "refund_process E a L =
     and_then (load_pool L (rf_pool a)) (\<lambda>p.
     and_then (load_pull L (rf_pull a)) (\<lambda>u.
     let count = ucast (pull_count u) in
     and_then (refund_amount p count) (\<lambda>amount.
     and_then (sub_ov (pool_pending_draws p) count) (\<lambda>pending_draws.
     and_then (add_ov (pull_index u) 1) (\<lambda>next_settle.
     let L = put_pool (rf_pool a) (p\<lparr>pool_pending_draws := pending_draws, pool_next_settle := next_settle\<rparr>) L in
     and_then (env_invoke E (TokenTransfer (rf_vault a) (rf_buyer_ata a) (rf_pool a) amount)
         [pool_signer_seeds (pool_at L (rf_pool a))] L) (\<lambda>L.
     and_then (close E (rf_pull a) (rf_buyer a) L) (\<lambda>L.
     emit E (RefundEvent (info_key (rf_pool a)) (info_key (rf_pull a)) amount)
       (rf_event_authority a) (rf_program a) L)))))))"

definition refund :: "env \<Rightarrow> account_info list \<Rightarrow> ledger \<Rightarrow> ledger result" where
  "refund E accounts L = and_then (try_refund_accounts E L accounts) (\<lambda>a. refund_process E a L)"

subsection \<open>buyback.rs\<close>

record buyback_accounts =
  bb_payer :: account_info
  bb_seller :: account_info
  bb_pool :: account_info
  bb_item :: account_info
  bb_asset :: account_info
  bb_collection :: account_info
  bb_vault :: account_info
  bb_destination :: account_info
  bb_core_program :: account_info
  bb_system_program :: account_info
  bb_event_authority :: account_info
  bb_program :: account_info

definition try_buyback_accounts :: "env \<Rightarrow> ledger \<Rightarrow> account_info list \<Rightarrow> buyback_accounts result" where
  "try_buyback_accounts E L accounts =
     (case accounts of
        [payer, seller, pool, item, asset, collection, vault, destination, core_program, _, system_program,
         event_authority, program] \<Rightarrow>
          if \<not> is_signer payer \<or> \<not> is_signer seller then Inl (gerr NotSigner)
          else if \<not> is_writable pool \<or> \<not> is_writable item then Inl (gerr NotMutable)
          else and_then (load_pool L pool) (\<lambda>p.
            if pool_status p \<noteq> POOL_ACTIVE then Inl (gerr InvalidPoolStatus)
            else if pool_vault p \<noteq> info_key vault then Inl (gerr InvalidTokenAddress)
            else and_then (load_token E L destination) (\<lambda>t.
              if token_owner t \<noteq> info_key seller then Inl (gerr InvalidTokenAddress)
              else Inr \<lparr>bb_payer = payer, bb_seller = seller, bb_pool = pool, bb_item = item,
                bb_asset = asset, bb_collection = collection, bb_vault = vault,
                bb_destination = destination, bb_core_program = core_program,
                bb_system_program = system_program, bb_event_authority = event_authority,
                bb_program = program\<rparr>))
      | _ \<Rightarrow> Inl NotEnoughAccountKeys)"

record buyback_data =
  bb_tier :: u8
  bb_price :: u64
  bb_expires_at :: i64
  bb_signature :: bytes
  bb_bump :: u8

text \<open>The timestamps are signed.\<close>

definition try_buyback_data :: "env \<Rightarrow> bytes \<Rightarrow> buyback_data result" where
  "try_buyback_data E data =
     (if length data \<noteq> 82 then Inl InvalidInstructionData
      else let expires_at = from_le (slice 9 8 data) in
        and_then (env_clock E) (\<lambda>clock.
        if sint (clock_unix_timestamp clock) \<ge> sint expires_at then Inl (gerr QuoteExpired)
        else Inr \<lparr>bb_tier = data ! 0, bb_price = from_le (slice 1 8 data), bb_expires_at = expires_at,
          bb_signature = slice 17 64 data, bb_bump = data ! 81\<rparr>))"

definition buyback_process :: "env \<Rightarrow> buyback_accounts \<Rightarrow> buyback_data \<Rightarrow> ledger \<Rightarrow> ledger result" where
  "buyback_process E a d L =
     and_then (load_pool L (bb_pool a)) (\<lambda>p.
     if pool_tier_count p \<le> bb_tier d then Inl (gerr InvalidQuote)
     else if \<not> env_verify_strict E (pool_authority p) (bb_signature d)
         (buyback_message (info_key (bb_pool a)) (info_key (bb_asset a)) (bb_price d) (bb_expires_at d) (bb_tier d))
     then Inl (gerr InvalidQuote)
     else and_then (spendable E L p (bb_vault a)) (\<lambda>free.
       if free < bb_price d then Inl (gerr InsufficientBalance)
       else and_then (check_restock E p (info_key (bb_pool a)) (bb_item a) (bb_tier d) (bb_bump d) L) (\<lambda>position.
         and_then (core_transfer_invoke E \<lparr>ct_payer = bb_payer a, ct_authority = bb_seller a,
             ct_new_owner = bb_pool a, ct_asset = bb_asset a, ct_collection = bb_collection a,
             ct_core_program = bb_core_program a, ct_system_program = bb_system_program a\<rparr> [] L) (\<lambda>L.
         and_then (restock E (bb_payer a) (bb_pool a) (bb_item a) (info_key (bb_asset a)) (bb_tier d) (bb_bump d) L) (\<lambda>L.
         and_then (pay E (bb_pool a) (bb_vault a) (bb_destination a) (bb_price d) L) (\<lambda>L.
         emit E (BuybackEvent (info_key (bb_pool a)) (info_key (bb_asset a)) (info_key (bb_seller a)) (bb_price d) position)
           (bb_event_authority a) (bb_program a) L))))))"

definition buyback :: "env \<Rightarrow> account_info list \<Rightarrow> bytes \<Rightarrow> ledger \<Rightarrow> ledger result" where
  "buyback E accounts data L =
     and_then (try_buyback_accounts E L accounts) (\<lambda>a.
     and_then (try_buyback_data E data) (\<lambda>d. buyback_process E a d L))"

end
