(* ===== verification/Operator.thy ===== *)
theory Operator
  imports Stock
begin

section \<open>The operator's instructions\<close>

text \<open>
  \<open>program/src/operator\<close>: settle the pull at the head of the queue from a verified VRF proof, and
  deliver its awards one by one.
\<close>

subsection \<open>settle.rs\<close>

record settle_accounts =
  st_operator :: account_info
  st_pool :: account_info
  st_pull :: account_info
  st_items :: "account_info list"
  st_event_authority :: account_info
  st_program :: account_info

text \<open>The loop over the items: each writable and a valid Item.\<close>

definition check_item :: "ledger \<Rightarrow> account_info \<Rightarrow> item result" where
  "check_item L item = (if \<not> is_writable item then Inl (gerr NotMutable) else load_item L item)"

definition try_settle_accounts :: "env \<Rightarrow> ledger \<Rightarrow> account_info list \<Rightarrow> settle_accounts result" where
  "try_settle_accounts E L accounts =
     (case accounts of
        operator # pool # pull # rest \<Rightarrow>
          if length rest < 2 then Inl NotEnoughAccountKeys
          else let items = take (length rest - 2) rest;
              event_authority = rest ! (length rest - 2); program = rest ! (length rest - 1) in
          if \<not> is_writable operator \<or> \<not> is_writable pool \<or> \<not> is_writable pull then Inl (gerr NotMutable)
          else and_then (load_pool L pool) (\<lambda>p.
            and_then (load_pull L pull) (\<lambda>u.
            if pool_operator p \<noteq> info_key operator then Inl (gerr InvalidOperator)
            else if pull_pool u \<noteq> info_key pool then Inl (gerr PoolMismatch)
            else if pull_status u \<noteq> STATUS_PENDING then Inl (gerr InvalidPullStatus)
            else if pull_index u \<noteq> pool_next_settle p then Inl (gerr NotNextInQueue)
            else and_then (env_clock E) (\<lambda>clock.
              if pull_deadline_slot u < clock_slot clock then Inl (gerr DeadlinePassed)
              else if length items \<noteq> unat (pull_count u) then Inl (gerr InvalidItemCount)
              else and_then (map_res (check_item L) items) (\<lambda>_.
                Inr \<lparr>st_operator = operator, st_pool = pool, st_pull = pull, st_items = items,
                  st_event_authority = event_authority, st_program = program\<rparr>))))
      | _ \<Rightarrow> Inl NotEnoughAccountKeys)"

definition try_settle_data :: "bytes \<Rightarrow> bytes result" where
  "try_settle_data data = (if length data \<noteq> 80 then Inl InvalidInstructionData else Inr data)"

definition settle_process :: "env \<Rightarrow> settle_accounts \<Rightarrow> bytes \<Rightarrow> ledger \<Rightarrow> ledger result" where
  "settle_process E a proof_bytes L =
     and_then (load_pool L (st_pool a)) (\<lambda>p.
     and_then (load_inventory L (st_pool a)) (\<lambda>_.
     and_then (load_pull L (st_pull a)) (\<lambda>u.
     let count = length (st_items a);
       alpha = env_sha256 E (to_le (info_key (st_pull a)) @ to_le (pull_client_seed u)) in
     and_then (ok_or (env_proof_verify E proof_bytes (pool_operator p) alpha) (gerr InvalidProof)) (\<lambda>beta.
     and_then (draw E (st_pool a) (st_pull a) (st_items a) (st_operator a) beta L) (\<lambda>L.
     and_then (sub_ov (pool_pending_draws (pool_at L (st_pool a))) (word_of_nat count)) (\<lambda>pending_draws.
     let L = put_pool (st_pool a) ((pool_at L (st_pool a))\<lparr>pool_pending_draws := pending_draws\<rparr>) L in
     and_then (add_ov (pull_index (pull_at L (st_pull a))) 1) (\<lambda>next_settle.
     let L = put_pool (st_pool a) ((pool_at L (st_pool a))\<lparr>pool_next_settle := next_settle\<rparr>) L;
       L = put_pull (st_pull a) ((pull_at L (st_pull a))\<lparr>pull_status := STATUS_SETTLED\<rparr>) L in
     and_then (pull_outcome_bytes (pull_at L (st_pull a)) count) (\<lambda>outcomes.
     emit E (SettleEvent (info_key (st_pool a)) (info_key (st_pull a)) alpha proof_bytes beta outcomes)
       (st_event_authority a) (st_program a) L))))))))"

definition settle :: "env \<Rightarrow> account_info list \<Rightarrow> bytes \<Rightarrow> ledger \<Rightarrow> ledger result" where
  "settle E accounts data L =
     and_then (try_settle_accounts E L accounts) (\<lambda>a.
     and_then (try_settle_data data) (\<lambda>d. settle_process E a d L))"

subsection \<open>deliver.rs\<close>

record deliver_accounts =
  dl_payer :: account_info
  dl_pool :: account_info
  dl_pull :: account_info
  dl_buyer :: account_info
  dl_asset :: account_info
  dl_collection :: account_info
  dl_core_program :: account_info
  dl_system_program :: account_info
  dl_event_authority :: account_info
  dl_program :: account_info

definition try_deliver_accounts :: "ledger \<Rightarrow> account_info list \<Rightarrow> deliver_accounts result" where
  "try_deliver_accounts L accounts =
     (case accounts of
        [payer, pool, pull, buyer, asset, collection, core_program, system_program, event_authority, program] \<Rightarrow>
          if \<not> is_signer payer then Inl (gerr NotSigner)
          else if \<not> is_writable pull \<or> \<not> is_writable buyer then Inl (gerr NotMutable)
          else and_then (load_pool L pool) (\<lambda>_.
            and_then (load_pull L pull) (\<lambda>u.
            if pull_pool u \<noteq> info_key pool then Inl (gerr PoolMismatch)
            else if pull_status u \<noteq> STATUS_SETTLED then Inl (gerr InvalidPullStatus)
            else if pull_buyer u \<noteq> info_key buyer then Inl (gerr InvalidBuyer)
            else Inr \<lparr>dl_payer = payer, dl_pool = pool, dl_pull = pull, dl_buyer = buyer, dl_asset = asset,
              dl_collection = collection, dl_core_program = core_program,
              dl_system_program = system_program, dl_event_authority = event_authority,
              dl_program = program\<rparr>))
      | _ \<Rightarrow> Inl NotEnoughAccountKeys)"

definition try_deliver_data :: "bytes \<Rightarrow> u8 result" where
  "try_deliver_data data = (if length data \<noteq> 1 then Inl InvalidInstructionData else Inr (data ! 0))"

definition deliver_process :: "env \<Rightarrow> deliver_accounts \<Rightarrow> u8 \<Rightarrow> ledger \<Rightarrow> ledger result" where
  "deliver_process E a outcome_index L =
     and_then (load_pull L (dl_pull a)) (\<lambda>u.
     let outcome = unat outcome_index in
     if unat (pull_count u) \<le> outcome then Inl (gerr InvalidOutcome)
     else and_then (pull_outcome u outcome) (\<lambda>(tier, asset).
       if tier = DELIVERED then Inl (gerr InvalidOutcome)
       else if asset \<noteq> info_key (dl_asset a) then Inl (gerr InvalidAsset)
       else and_then (load_pool L (dl_pool a)) (\<lambda>p.
         and_then (core_transfer_invoke E \<lparr>ct_payer = dl_payer a, ct_authority = dl_pool a,
             ct_new_owner = dl_buyer a, ct_asset = dl_asset a, ct_collection = dl_collection a,
             ct_core_program = dl_core_program a, ct_system_program = dl_system_program a\<rparr>
             [pool_signer_seeds p] L) (\<lambda>L.
         and_then (pull_mark_delivered outcome (pull_at L (dl_pull a))) (\<lambda>u.
         let L = put_pull (dl_pull a) u L in
         and_then (pull_all_delivered (pull_at L (dl_pull a))) (\<lambda>all_delivered.
         and_then (if all_delivered then close E (dl_pull a) (dl_buyer a) L else Inr L) (\<lambda>L.
         emit E (DeliverEvent (info_key (dl_pull a)) (info_key (dl_asset a)) outcome_index)
           (dl_event_authority a) (dl_program a) L)))))))"

definition deliver :: "env \<Rightarrow> account_info list \<Rightarrow> bytes \<Rightarrow> ledger \<Rightarrow> ledger result" where
  "deliver E accounts data L =
     and_then (try_deliver_accounts L accounts) (\<lambda>a.
     and_then (try_deliver_data data) (\<lambda>outcome_index. deliver_process E a outcome_index L))"

end
