(* ===== verification/Program.thy ===== *)
theory Program
  imports Admin Player Operator
begin

section \<open>The entrypoint\<close>

text \<open>
  \<open>process_instruction\<close> of \<open>program/src/lib.rs\<close> dispatches on the first byte of the instruction
  data. A transaction is atomic: an instruction that fails leaves the ledger as it was.
\<close>

definition process_instruction :: "env \<Rightarrow> account_info list \<Rightarrow> bytes \<Rightarrow> ledger \<Rightarrow> ledger result" where
  "process_instruction E accounts instruction_data L =
     (case instruction_data of
        [] \<Rightarrow> Inl InvalidInstructionData
      | tag # data \<Rightarrow>
          if tag = 20 then settle E accounts data L
          else if tag = 21 then deliver E accounts data L
          else if tag = 10 then buy E accounts data L
          else if tag = 11 then refund E accounts L
          else if tag = 12 then buyback E accounts data L
          else if tag = 0 then create_pool E accounts data L
          else if tag = 1 then deposit_item E accounts data L
          else if tag = 2 then withdraw E accounts data L
          else if tag = 3 then set_status E accounts data L
          else if tag = 4 then reclaim E accounts L
          else if tag = EVENT_DISCRIMINATOR then and_then (emit_event accounts) (\<lambda>_. Inr L)
          else Inl InvalidInstructionData)"

end
