(* ===== verification/Frames.thy ===== *)
theory Frames
  imports Program Availability
begin

section \<open>What a step leaves alone\<close>

text \<open>
  The laws of the runtime that properties assume (\<open>runtime_ok\<close>), each a documented fact about Solana,
  the system program, the token program or Core, and the frame lemmas that follow: which accounts
  an invocation, a write through a view or a close leaves as they were.
\<close>

definition same_at :: "pubkey \<Rightarrow> ledger \<Rightarrow> ledger \<Rightarrow> bool" where
  "same_at k L L' \<longleftrightarrow> acct_owner (L' k) = acct_owner (L k) \<and> acct_data (L' k) = acct_data (L k)"

definition balance :: "ledger \<Rightarrow> account_info \<Rightarrow> u64" where
  "balance L a = from_le (slice 64 8 (data_of L a))"

subsection \<open>The laws\<close>

text \<open>Only the program itself changes the data of its accounts, and an invocation cannot re-enter it.\<close>

definition invoke_law :: "env \<Rightarrow> bool" where
  "invoke_law E \<longleftrightarrow> (\<forall>c s L L' k. env_invoke E c s L = Inr L' \<longrightarrow> acct_owner (L k) = ID \<longrightarrow> same_at k L L')"

text \<open>An account changes its owner only while its data are all zero.\<close>

definition owner_law :: "env \<Rightarrow> bool" where
  "owner_law E \<longleftrightarrow> (\<forall>c s L L' k. env_invoke E c s L = Inr L' \<longrightarrow> acct_owner (L k) \<noteq> ID \<longrightarrow>
     acct_owner (L' k) = ID \<longrightarrow> set (acct_data (L' k)) \<subseteq> {0})"

text \<open>The call of the program to itself runs \<open>emit_event\<close>, which changes nothing.\<close>

definition event_law :: "env \<Rightarrow> bool" where
  "event_law E \<longleftrightarrow> (\<forall>metas data infos s L L'.
     env_invoke E (Instruction ID metas (EVENT_DISCRIMINATOR # data) infos) s L = Inr L' \<longrightarrow> L' = L)"

text \<open>The system program.\<close>

definition create_law :: "env \<Rightarrow> bool" where
  "create_law E \<longleftrightarrow> (\<forall>payer a lamports space owner s L L'.
     env_invoke E (CreateAccount payer a lamports space owner) s L = Inr L' \<longrightarrow>
     acct_owner (acct L' a) = owner \<and> data_of L' a = replicate (unat space) 0 \<and>
     (\<forall>k. k \<noteq> info_key a \<longrightarrow> same_at k L L'))"

definition transfer_law :: "env \<Rightarrow> bool" where
  "transfer_law E \<longleftrightarrow> (\<forall>payer a lamports s L L' k.
     env_invoke E (SystemTransfer payer a lamports) s L = Inr L' \<longrightarrow> same_at k L L')"

definition allocate_law :: "env \<Rightarrow> bool" where
  "allocate_law E \<longleftrightarrow> (\<forall>a space s L L'.
     env_invoke E (Allocate a space) s L = Inr L' \<longrightarrow>
     acct_owner (acct L' a) = acct_owner (acct L a) \<and> data_of L' a = replicate (unat space) 0 \<and>
     (\<forall>k. k \<noteq> info_key a \<longrightarrow> same_at k L L'))"

definition assign_law :: "env \<Rightarrow> bool" where
  "assign_law E \<longleftrightarrow> (\<forall>a owner s L L'.
     env_invoke E (Assign a owner) s L = Inr L' \<longrightarrow>
     acct_owner (acct L' a) = owner \<and> data_of L' a = data_of L a \<and>
     (\<forall>k. k \<noteq> info_key a \<longrightarrow> same_at k L L'))"

text \<open>The token program: a transfer moves the amount, checks it, and changes nothing else.\<close>

definition token_law :: "env \<Rightarrow> bool" where
  "token_law E \<longleftrightarrow> (\<forall>from to authority amount s L L'.
     env_invoke E (TokenTransfer from to authority amount) s L = Inr L' \<longrightarrow>
     acct_owner (acct L from) = env_token_id E \<and> acct_owner (acct L to) = env_token_id E \<and>
     unat amount \<le> unat (balance L from) \<and>
     (if info_key from = info_key to then same_at (info_key from) L L'
      else unat (balance L' from) + unat amount = unat (balance L from) \<and>
        unat (balance L' to) = unat (balance L to) + unat amount) \<and>
     (\<forall>k. acct_owner (L' k) = acct_owner (L k) \<and> length (acct_data (L' k)) = length (acct_data (L k))) \<and>
     (\<forall>k. k \<noteq> info_key from \<longrightarrow> k \<noteq> info_key to \<longrightarrow> same_at k L L'))"

text \<open>A Core transfer moves no SPL tokens.\<close>

definition core_law :: "env \<Rightarrow> bool" where
  "core_law E \<longleftrightarrow> (\<forall>metas data infos s L L' k.
     env_invoke E (Instruction CORE_ID metas data infos) s L = Inr L' \<longrightarrow>
     acct_owner (L k) = env_token_id E \<longrightarrow> same_at k L L')"

text \<open>Reallocation extends the data by zeros; closing leaves an empty system account.\<close>

definition realloc_law :: "env \<Rightarrow> bool" where
  "realloc_law E \<longleftrightarrow> (\<forall>a n a'. env_realloc E a n = Inr a' \<longrightarrow> length (acct_data a) \<le> n \<longrightarrow>
     acct_owner a' = acct_owner a \<and> acct_data a' = acct_data a @ replicate (n - length (acct_data a)) 0)"

definition close_law :: "env \<Rightarrow> bool" where
  "close_law E \<longleftrightarrow> (\<forall>a a'. env_close E a = Inr a' \<longrightarrow>
     a' = \<lparr>acct_owner = env_system_id E, acct_lamports = 0, acct_data = []\<rparr>)"

definition runtime_ok :: "env \<Rightarrow> bool" where
  "runtime_ok E \<longleftrightarrow> invoke_law E \<and> owner_law E \<and> event_law E \<and> create_law E \<and> transfer_law E \<and> allocate_law E \<and>
     assign_law E \<and> token_law E \<and> core_law E \<and> realloc_law E \<and> close_law E \<and>
     env_system_id E \<noteq> ID \<and> env_token_id E \<noteq> ID"

lemma runtime_okD:
  assumes "runtime_ok E"
  shows "env_invoke E c s L = Inr L' \<Longrightarrow> acct_owner (L k) = ID \<Longrightarrow> same_at k L L'"
    and "env_system_id E \<noteq> ID" "env_token_id E \<noteq> ID"
    and "env_invoke E c s L = Inr L' \<Longrightarrow> acct_owner (L k) \<noteq> ID \<Longrightarrow> acct_owner (L' k) = ID \<Longrightarrow>
      set (acct_data (L' k)) \<subseteq> {0}"
  using assms by (auto simp: runtime_ok_def invoke_law_def owner_law_def)

subsection \<open>Frames\<close>

lemma same_at_refl [simp, intro]: "same_at k L L"
  by (simp add: same_at_def)

lemma same_at_trans [trans]: "same_at k L L' \<Longrightarrow> same_at k L' L'' \<Longrightarrow> same_at k L L''"
  by (simp add: same_at_def)

lemma same_at_data:
  "same_at (info_key a) L L' \<Longrightarrow> data_of L' a = data_of L a \<and> acct_owner (acct L' a) = acct_owner (acct L a)"
  by (simp add: same_at_def data_of_def acct_def)

lemma same_at_views:
  assumes "same_at (info_key a) L L'"
  shows "load_pool L' a = load_pool L a" "load_item L' a = load_item L a" "load_pull L' a = load_pull L a"
    "pool_at L' a = pool_at L a" "pull_at L' a = pull_at L a" "index_at L' a = index_at L a"
    "load_token E L' a = load_token E L a" "balance L' a = balance L a"
  using same_at_data [OF assms]
  by (simp_all add: load_pool_def load_item_def load_pull_def load_view_def load_token_def pool_at_def
      pull_at_def index_at_def balance_def Let_def)

lemma write_data_at: "same_at k L (write_data a d L) \<longleftrightarrow> k \<noteq> info_key a \<or> d = data_of L a"
  by (auto simp: same_at_def write_data_def data_of_def)

lemma data_write_data [simp]: "data_of (write_data a d L) a = d"
  "acct_owner (acct (write_data a d L) b) = acct_owner (acct L b)"
  by (simp_all add: write_data_def data_of_def acct_def)

lemma put_frame:
  assumes "k \<noteq> info_key a"
  shows "same_at k L (put_pool a p L)" "same_at k L (put_item a i L)" "same_at k L (put_pull a u L)"
    "same_at k L (put_index a d L)"
  using assms by (simp_all add: put_pool_def put_item_def put_pull_def put_index_def write_data_at)

lemma put_owner [simp]:
  "acct_owner (acct (put_pool a p L) b) = acct_owner (acct L b)"
  "acct_owner (acct (put_item a i L) b) = acct_owner (acct L b)"
  "acct_owner (acct (put_pull a u L) b) = acct_owner (acct L b)"
  "acct_owner (acct (put_index a d L) b) = acct_owner (acct L b)"
  by (simp_all add: put_pool_def put_item_def put_pull_def put_index_def)

text \<open>What a view reads after a write through it.\<close>

lemma put_pool_views:
  assumes "pool_wf p"
  shows "pool_at (put_pool a p L) a = p" "index_at (put_pool a p L) a = index_at L a"
    "POOL_LEN \<le> length (data_of L a) \<Longrightarrow> length (data_of (put_pool a p L) a) = length (data_of L a)"
  using assms pool_layout.dec_overlay [OF assms] pool_layout.drop_overlay [OF assms]
    pool_layout.length_overlay [OF assms]
  by (simp_all add: pool_at_def index_at_def put_pool_def)

lemma put_index_views:
  assumes "POOL_LEN \<le> length (data_of L a)"
  shows "pool_at (put_index a d L) a = pool_at L a" "index_at (put_index a d L) a = d"
    "length (data_of (put_index a d L) a) = POOL_LEN + length d"
proof -
  have "decode_pool (take POOL_LEN (data_of L a) @ d) = decode_pool (data_of L a)"
    using pool_layout.enc_dec [OF assms] pool_layout.dec_enc [of "decode_pool (data_of L a)" d] by simp
  then show "pool_at (put_index a d L) a = pool_at L a" by (simp add: pool_at_def put_index_def)
  show "index_at (put_index a d L) a = d" "length (data_of (put_index a d L) a) = POOL_LEN + length d"
    using assms by (simp_all add: index_at_def put_index_def)
qed

lemma put_pull_views:
  assumes "pull_wf u"
  shows "pull_at (put_pull a u L) a = u"
    "PULL_LEN \<le> length (data_of L a) \<Longrightarrow> length (data_of (put_pull a u L) a) = length (data_of L a)"
  using pull_layout.dec_overlay [OF assms] pull_layout.length_overlay [OF assms]
  by (simp_all add: pull_at_def put_pull_def)

subsection \<open>Loaded views\<close>

lemma load_pool_Inr:
  "load_pool L a = Inr p \<longleftrightarrow> acct_owner (acct L a) = ID \<and> p = pool_at L a \<and> pool_version p = POOL_VERSION \<and>
     length (data_of L a) = POOL_LEN + inventory_space (pool_inventory_version p)"
  by (auto simp: load_pool_def load_view_def pool_at_def Let_def split: if_splits)

lemma load_item_Inr:
  "load_item L a = Inr i \<longleftrightarrow> acct_owner (acct L a) = ID \<and> i = decode_item (data_of L a) \<and>
     item_version i = ITEM_VERSION \<and> length (data_of L a) = ITEM_LEN"
  by (auto simp: load_item_def load_view_def Let_def split: if_splits)

lemma load_pull_Inr:
  "load_pull L a = Inr u \<longleftrightarrow> acct_owner (acct L a) = ID \<and> u = pull_at L a \<and> pull_version u = PULL_VERSION \<and>
     length (data_of L a) = PULL_LEN"
  by (auto simp: load_pull_def load_view_def pull_at_def Let_def split: if_splits)

lemma pool_wf_at [simp]: "pool_wf (pool_at L a)"
  by (simp add: pool_at_def)

lemma pull_wf_at [simp]: "pull_wf (pull_at L a)"
  by (simp add: pull_at_def)

lemma space_not_pull: "POOL_LEN + inventory_space v \<noteq> PULL_LEN" "POOL_LEN + inventory_space v \<noteq> ITEM_LEN"
proof -
  show "POOL_LEN + inventory_space v \<noteq> PULL_LEN"
  proof
    assume "POOL_LEN + inventory_space v = PULL_LEN"
    then have "div_ceil (unat v) 64 * 96 = 194" by (simp add: inventory_space_def)
    then show False by presburger
  qed
qed simp

text \<open>Accounts of different kinds are different accounts.\<close>

lemma kinds_distinct:
  "load_pool L a = Inr p \<Longrightarrow> load_pull L b = Inr u \<Longrightarrow> info_key a \<noteq> info_key b"
  "load_pool L a = Inr p \<Longrightarrow> load_item L c = Inr i \<Longrightarrow> info_key a \<noteq> info_key c"
  "load_pull L b = Inr u \<Longrightarrow> load_item L c = Inr i \<Longrightarrow> info_key b \<noteq> info_key c"
  using space_not_pull by (auto simp: load_pool_Inr load_pull_Inr load_item_Inr data_of_def)

subsection \<open>Invocations, creation and closing\<close>

lemma invoke_keeps:
  "runtime_ok E \<Longrightarrow> env_invoke E c s L = Inr L' \<Longrightarrow> acct_owner (L k) = ID \<Longrightarrow> same_at k L L'"
  by (rule runtime_okD(1))

lemma emit_same:
  assumes "runtime_ok E" "emit E e ea prog L = Inr L'"
  shows "L' = L"
proof -
  obtain data where data: "event_data e = Inr data" "emit_data E data ea prog L = Inr L'"
    using assms(2) by (auto simp: emit_def)
  have push: "hd acc = EVENT_DISCRIMINATOR \<and> acc \<noteq> [] \<Longrightarrow> fold_res (event_push n) acc xs = Inr d \<Longrightarrow>
      hd d = EVENT_DISCRIMINATOR \<and> d \<noteq> []" for n acc xs d
  proof (induction xs arbitrary: acc)
    case (Cons x xs)
    from Cons.prems(2) obtain acc' where acc': "event_push n acc x = Inr acc'" "fold_res (event_push n) acc' xs = Inr d"
      by auto
    then have "acc' = acc @ x" by (auto simp: event_push_def split: if_splits)
    with Cons.prems(1) have "hd acc' = EVENT_DISCRIMINATOR \<and> acc' \<noteq> []" by simp
    then show ?case by (rule Cons.IH) (rule acc'(2))
  qed simp
  have "hd data = EVENT_DISCRIMINATOR \<and> data \<noteq> []"
    using data(1) unfolding event_data_def by (rule push [rotated]) simp
  then obtain d where "data = EVENT_DISCRIMINATOR # d" by (cases data) auto
  with data(2) assms(1) show ?thesis
    unfolding emit_data_def runtime_ok_def event_law_def by blast
qed

lemma create_pda_Inr:
  assumes ok: "runtime_ok E" and c: "create_pda E payer a space seeds L = Inr L'" and "space < 2 ^ 64"
  shows "acct_owner (acct L' a) = ID \<and> data_of L' a = replicate space 0 \<and>
    (\<forall>k. k \<noteq> info_key a \<longrightarrow> same_at k L L')"
proof -
  have n: "unat (word_of_nat space :: u64) = space" using assms(3) by (simp add: unat_of_nat)
  note laws = ok [unfolded runtime_ok_def]
  obtain mb where mb: "env_rent E = Inr mb" using c by (auto simp: create_pda_def)
  show ?thesis
  proof (cases "acct_lamports (acct L a) = 0")
    case True
    with c mb have "env_invoke E (CreateAccount payer a (mb space) (word_of_nat space) ID) [seeds] L = Inr L'"
      by (simp add: create_pda_def)
    with laws n show ?thesis unfolding create_law_def by metis
  next
    case False
    let ?missing = "saturating_sub (mb space) (acct_lamports (acct L a))"
    from False c mb obtain L1 L2 where L1:
      "(if 0 < ?missing then env_invoke E (SystemTransfer payer a ?missing) [] L else Inr L) = Inr L1"
      and L2: "env_invoke E (Allocate a (word_of_nat space)) [seeds] L1 = Inr L2"
      and L3: "env_invoke E (Assign a ID) [seeds] L2 = Inr L'"
      by (auto simp: create_pda_def Let_def)
    have "same_at k L L1" for k
    proof (cases "0 < ?missing")
      case True
      with L1 laws show ?thesis unfolding transfer_law_def by metis
    next
      case False
      with L1 show ?thesis by simp
    qed
    moreover have "data_of L2 a = replicate space 0" "\<forall>k. k \<noteq> info_key a \<longrightarrow> same_at k L1 L2"
      using L2 laws n unfolding allocate_law_def by metis+
    moreover have "acct_owner (acct L' a) = ID" "data_of L' a = data_of L2 a" "\<forall>k. k \<noteq> info_key a \<longrightarrow> same_at k L2 L'"
      using L3 laws unfolding assign_law_def by metis+
    ultimately show ?thesis by (metis same_at_trans)
  qed
qed

lemma close_Inr:
  assumes "runtime_ok E" "close E a to L = Inr L'"
  shows "acct_owner (acct L' a) = env_system_id E \<and> data_of L' a = [] \<and> acct_lamports (acct L' a) = 0 \<and>
    (\<forall>k. k \<noteq> info_key a \<longrightarrow> same_at k L L')"
proof -
  obtain l closed where c: "env_close E (acct (L(info_key to := acct L to\<lparr>acct_lamports := l\<rparr>)) a) = Inr closed"
    "L' = (L(info_key to := acct L to\<lparr>acct_lamports := l\<rparr>))(info_key a := closed)"
    using assms(2) by (auto simp: close_def Let_def)
  have "closed = \<lparr>acct_owner = env_system_id E, acct_lamports = 0, acct_data = []\<rparr>"
    using assms(1) c(1) unfolding runtime_ok_def close_law_def by blast
  then show ?thesis unfolding c(2) by (auto simp: acct_def data_of_def same_at_def)
qed

lemma close_lamports:
  assumes "close E a to L = Inr L'" "info_key to \<noteq> info_key a"
  shows "unat (acct_lamports (acct L' to)) = unat (acct_lamports (acct L to)) + unat (acct_lamports (acct L a))"
  using assms by (auto simp: close_def acct_def Let_def checked_Some)

end
