(* ===== verification/Stock_Correct.thy ===== *)
theory Stock_Correct
  imports Frames
begin

section \<open>Restocking and drawing keep the stock consistent\<close>

text \<open>
  \<open>pool_ok L P tags\<close>: the account \<open>P\<close> holds a valid pool whose index represents \<open>tags\<close>, one tag per
  position up to the pool's version, and whose \<open>remaining\<close> counters are the numbers of available
  positions. Restocking appends a tag; a draw clears the tags it selects.
\<close>

definition pool_ok :: "ledger \<Rightarrow> account_info \<Rightarrow> u8 list \<Rightarrow> bool" where
  "pool_ok L P tags \<longleftrightarrow> load_pool L P = Inr (pool_at L P) \<and> pool_valid (pool_at L P) \<and>
     index_rep (index_at L P) tags \<and> length tags = unat (pool_inventory_version (pool_at L P)) \<and>
     (\<forall>t < 8. count_list tags (tier_tag t) =
       (if t < unat (pool_tier_count (pool_at L P)) then unat (tier_remaining (pool_tiers_all (pool_at L P) ! t)) else 0))"

lemma pool_okD:
  assumes "pool_ok L P tags"
  shows "load_pool L P = Inr (pool_at L P)" "pool_valid (pool_at L P)" "index_rep (index_at L P) tags"
    "length tags = unat (pool_inventory_version (pool_at L P))" "acct_owner (acct L P) = ID"
    "length (data_of L P) = POOL_LEN + inventory_space (pool_inventory_version (pool_at L P))"
    "POOL_LEN \<le> length (data_of L P)" "unat (pool_tier_count (pool_at L P)) \<le> 8"
    "length (pool_tiers_all (pool_at L P)) = 8" "pool_version (pool_at L P) = POOL_VERSION"
  using assms by (auto simp: pool_ok_def load_pool_Inr pool_valid_def pool_wf_def)

lemma pool_ok_count:
  "pool_ok L P tags \<Longrightarrow> t < unat (pool_tier_count (pool_at L P)) \<Longrightarrow>
   count_list tags (tier_tag t) = unat (tier_remaining (pool_tiers_all (pool_at L P) ! t))"
  using pool_okD(8) [of L P tags] by (simp add: pool_ok_def)

lemma pool_ok_same: "same_at (info_key P) L L' \<Longrightarrow> pool_ok L' P tags = pool_ok L P tags"
  by (simp add: pool_ok_def same_at_views)

lemma update_remaining_Inr:
  assumes "update_remaining f tier p = Inr p'"
  obtains r where "f (tier_remaining (pool_tiers_all p ! unat tier)) = Inr r" "unat tier < unat (pool_tier_count p)"
    "p' = p\<lparr>pool_tiers_all := (pool_tiers_all p)[unat tier := (pool_tiers_all p ! unat tier)\<lparr>tier_remaining := r\<rparr>]\<rparr>"
  using assms by (auto simp: update_remaining_def pool_tiers_def split: if_splits)

lemma update_remaining_valid:
  assumes "update_remaining f tier p = Inr p'" "pool_valid p"
  shows "pool_valid p'" "pool_inventory_version p' = pool_inventory_version p" "pool_version p' = pool_version p"
    "pool_tier_count p' = pool_tier_count p"
  using assms by (auto elim!: update_remaining_Inr simp: pool_valid_def pool_wf_def)

text \<open>The parameters that a pool keeps for its whole life.\<close>

definition pool_terms :: "pool \<Rightarrow> pool" where
  "pool_terms p = p\<lparr>pool_status := 0, pool_inventory_version := 0, pool_pending_draws := 0,
     pool_next_index := 0, pool_next_settle := 0,
     pool_tiers_all := map (\<lambda>t. t\<lparr>tier_remaining := 0\<rparr>) (pool_tiers_all p)\<rparr>"

lemma update_remaining_terms:
  assumes "update_remaining f tier p = Inr p'" "pool_wf p"
  shows "pool_terms p' = pool_terms p" "pool_status p' = pool_status p"
    "pool_pending_draws p' = pool_pending_draws p" "pool_next_index p' = pool_next_index p"
    "pool_next_settle p' = pool_next_settle p"
proof -
  obtain r where t: "unat tier < unat (pool_tier_count p)" and
    p': "p' = p\<lparr>pool_tiers_all := (pool_tiers_all p)[unat tier := (pool_tiers_all p ! unat tier)\<lparr>tier_remaining := r\<rparr>]\<rparr>"
    using assms(1) by (rule update_remaining_Inr)
  have "map (\<lambda>t. t\<lparr>tier_remaining := 0\<rparr>)
      ((pool_tiers_all p)[unat tier := (pool_tiers_all p ! unat tier)\<lparr>tier_remaining := r\<rparr>]) =
    map (\<lambda>t. t\<lparr>tier_remaining := 0\<rparr>) (pool_tiers_all p)"
  proof (rule nth_equalityI)
    fix i assume "i < length (map (\<lambda>t. t\<lparr>tier_remaining := 0\<rparr>)
      ((pool_tiers_all p)[unat tier := (pool_tiers_all p ! unat tier)\<lparr>tier_remaining := r\<rparr>]))"
    then show "map (\<lambda>t. t\<lparr>tier_remaining := 0\<rparr>)
      ((pool_tiers_all p)[unat tier := (pool_tiers_all p ! unat tier)\<lparr>tier_remaining := r\<rparr>]) ! i =
      map (\<lambda>t. t\<lparr>tier_remaining := 0\<rparr>) (pool_tiers_all p) ! i"
      by (cases "unat tier = i") simp_all
  qed simp
  then show "pool_terms p' = pool_terms p" unfolding p' by (simp add: pool_terms_def)
  show "pool_status p' = pool_status p"
    "pool_pending_draws p' = pool_pending_draws p" "pool_next_index p' = pool_next_index p"
    "pool_next_settle p' = pool_next_settle p" unfolding p' by simp_all
qed

subsection \<open>Restocking\<close>

lemma grow_pool_Inr:
  assumes ok: "runtime_ok E" and g: "grow_pool E payer P space L = Inr L'" and le: "length (data_of L P) \<le> space"
  shows "acct_owner (acct L' P) = acct_owner (acct L P)"
    "data_of L' P = grow_index (data_of L P) space" "\<And>k. k \<noteq> info_key P \<Longrightarrow> same_at k L L'"
proof -
  have "acct_owner (acct L' P) = acct_owner (acct L P) \<and> data_of L' P = grow_index (data_of L P) space \<and>
    (\<forall>k. k \<noteq> info_key P \<longrightarrow> same_at k L L')"
  proof (cases "space = length (data_of L P)")
    case True
    with g show ?thesis by (simp add: grow_pool_def grow_index_def)
  next
    case False
    with g obtain mb L1 grown where
      pay: "(if 0 < saturating_sub (mb space) (acct_lamports (acct L P))
        then env_invoke E (SystemTransfer payer P (saturating_sub (mb space) (acct_lamports (acct L P)))) [] L else Inr L) = Inr L1"
      and grown: "env_realloc E (acct L1 P) space = Inr grown" "L' = L1(info_key P := grown)"
      by (auto simp: grow_pool_def Let_def)
    have same: "same_at k L L1" for k
    proof (cases "0 < saturating_sub (mb space) (acct_lamports (acct L P))")
      case True
      with pay ok show ?thesis unfolding runtime_ok_def transfer_law_def by metis
    next
      case False
      with pay show ?thesis by simp
    qed
    have "data_of L1 P = data_of L P" "acct_owner (acct L1 P) = acct_owner (acct L P)"
      using same_at_data [OF same] by auto
    moreover have "length (acct_data (acct L1 P)) \<le> space"
      using le calculation(1) by (simp add: data_of_def acct_def)
    then have "acct_owner grown = acct_owner (acct L1 P)"
      "acct_data grown = acct_data (acct L1 P) @ replicate (space - length (acct_data (acct L1 P))) 0"
      using ok grown(1) unfolding runtime_ok_def realloc_law_def by blast+
    ultimately show ?thesis using same grown(2)
      by (auto simp: data_of_def acct_def grow_index_def same_at_def)
  qed
  then show "acct_owner (acct L' P) = acct_owner (acct L P)"
    "data_of L' P = grow_index (data_of L P) space" "\<And>k. k \<noteq> info_key P \<Longrightarrow> same_at k L L'" by auto
qed

lemma grow_index_header:
  "POOL_LEN \<le> length d \<Longrightarrow> decode_pool (grow_index d n) = decode_pool d \<and>
   drop POOL_LEN (grow_index d n) = grow_index (drop POOL_LEN d) (n - POOL_LEN)"
proof
  assume le: "POOL_LEN \<le> length d"
  have "grow_index d n = take POOL_LEN d @ (drop POOL_LEN d @ replicate (n - length d) 0)"
    by (simp add: grow_index_def)
  then have "grow_index d n = encode_pool (decode_pool d) @ (drop POOL_LEN d @ replicate (n - length d) 0)"
    using pool_layout.enc_dec [OF le] by simp
  then show "decode_pool (grow_index d n) = decode_pool d" by (simp add: pool_layout.dec_enc)
  show "drop POOL_LEN (grow_index d n) = grow_index (drop POOL_LEN d) (n - POOL_LEN)"
    using le by (simp add: grow_index_def)
qed

text \<open>The stock of a pool becomes \<open>tags'\<close> and the pool changes in nothing else.\<close>

definition stock_step :: "ledger \<Rightarrow> account_info \<Rightarrow> u8 list \<Rightarrow> ledger \<Rightarrow> bool" where
  "stock_step L P tags' L' \<longleftrightarrow> pool_ok L' P tags' \<and> pool_terms (pool_at L' P) = pool_terms (pool_at L P) \<and>
     pool_status (pool_at L' P) = pool_status (pool_at L P) \<and>
     pool_pending_draws (pool_at L' P) = pool_pending_draws (pool_at L P) \<and>
     pool_next_index (pool_at L' P) = pool_next_index (pool_at L P) \<and>
     pool_next_settle (pool_at L' P) = pool_next_settle (pool_at L P)"

lemma stock_step_trans:
  "stock_step L P tags' L' \<Longrightarrow> stock_step L' P tags'' L'' \<Longrightarrow> stock_step L P tags'' L''"
  by (simp add: stock_step_def)

lemma stock_step_same: "same_at (info_key P) L L' \<Longrightarrow> pool_ok L P tags \<Longrightarrow> stock_step L P tags L'"
  by (simp add: stock_step_def pool_ok_same same_at_views)

lemma count_snoc: "count_list (tags @ [x]) c = count_list tags c + of_bool (x = c)"
  by simp

text \<open>Replacing the index and one counter consistently.\<close>

lemma stock_step_update:
  assumes P: "load_pool L P = Inr (pool_at L P)" "pool_valid (pool_at L P)"
    and upd: "update_remaining f tier (pool_at L P) = Inr p'"
    and d: "index_rep d tags'" "length tags' = unat (pool_inventory_version (pool_at L P))"
    and cnt: "\<And>t. t < 8 \<Longrightarrow> count_list tags' (tier_tag t) =
      (if t < unat (pool_tier_count p') then unat (tier_remaining (pool_tiers_all p' ! t)) else 0)"
  shows "stock_step L P tags' (put_pool P p' (put_index P d L))"
proof -
  let ?L = "put_index P d L"
  have len: "POOL_LEN \<le> length (data_of L P)" "acct_owner (acct L P) = ID" "pool_version (pool_at L P) = POOL_VERSION"
    using P(1) by (auto simp: load_pool_Inr)
  note V = update_remaining_valid [OF upd P(2)] and I = put_index_views [OF len(1), where d = d]
  have wf: "pool_wf p'" using V(1) by (simp add: pool_valid_def)
  note W = put_pool_views [OF wf, where a = P and L = ?L]
  have at: "pool_at (put_pool P p' ?L) P = p'" "index_at (put_pool P p' ?L) P = d"
    "length (data_of (put_pool P p' ?L) P) = POOL_LEN + length d"
    using W I by simp_all
  have "length d = inventory_space (pool_inventory_version p')"
    using d V(2) by (simp add: index_rep_def inventory_space_def)
  then have "load_pool (put_pool P p' ?L) P = Inr p'"
    using at len V(3) by (simp add: load_pool_Inr)
  moreover have "pool_terms p' = pool_terms (pool_at L P)" "pool_status p' = pool_status (pool_at L P)"
    "pool_pending_draws p' = pool_pending_draws (pool_at L P)" "pool_next_index p' = pool_next_index (pool_at L P)"
    "pool_next_settle p' = pool_next_settle (pool_at L P)"
    using update_remaining_terms [OF upd] by simp_all
  ultimately show ?thesis using at V d cnt unfolding stock_step_def pool_ok_def at by simp
qed

lemma put_item_views:
  assumes "data_of L a = replicate ITEM_LEN 0" "acct_owner (acct L a) = ID"
  shows "load_item (put_item a (item_set_inner bump tier position pool asset (decode_item (replicate ITEM_LEN 0))) L) a =
    Inr \<lparr>item_version = ITEM_VERSION, item_bump = bump, item_tier = tier, item_padding = 0,
      item_position = position, item_pool = pool, item_asset = asset\<rparr>"
proof -
  let ?i = "item_set_inner bump tier position pool asset (decode_item (replicate ITEM_LEN 0))"
  have zero: "(from_le [0] :: u8) = 0" by (simp add: from_le_def)
  have i: "?i = \<lparr>item_version = ITEM_VERSION, item_bump = bump, item_tier = tier, item_padding = 0,
      item_position = position, item_pool = pool, item_asset = asset\<rparr>"
    by (simp add: item_set_inner_def decode_item_def slice_def zero)
  have "decode_item (data_of (put_item a ?i L) a) = ?i" "length (data_of (put_item a ?i L) a) = ITEM_LEN"
    using item_layout.dec_overlay [where x = ?i and d = "data_of L a"]
      item_layout.length_overlay [where x = ?i and d = "data_of L a"] assms(1)
    by (simp_all add: put_item_def)
  with assms(2) show ?thesis by (simp add: load_item_Inr i)
qed

text \<open>The account grown for one more position.\<close>

lemma grown_views:
  assumes ok: "runtime_ok E" and P: "pool_ok L P tags" and v: "add_ov (pool_inventory_version (pool_at L P)) 1 = Inr version"
    and g: "grow_pool E payer P (POOL_LEN + inventory_space version)
      (put_pool P ((pool_at L P)\<lparr>pool_inventory_version := version\<rparr>) L) = Inr L'"
  shows "pool_at L' P = (pool_at L P)\<lparr>pool_inventory_version := version\<rparr>"
    "index_at L' P = grow_index (index_at L P) (inventory_space version)"
    "k \<noteq> info_key P \<Longrightarrow> same_at k L L'"
proof -
  let ?p = "(pool_at L P)\<lparr>pool_inventory_version := version\<rparr>"
  let ?L = "put_pool P ?p L"
  note PD = pool_okD [OF P]
  have wf: "pool_wf ?p" using PD(9) by (simp add: pool_wf_def)
  note V = put_pool_views [OF wf, where a = P and L = L]
  have "unat version = length tags + 1" using v PD(4) by (simp add: add_ov_Inr)
  then have le: "length (data_of ?L P) \<le> POOL_LEN + inventory_space version"
    using V(3) PD(4,6,7) div_ceil_mono [of "length tags" "length tags + 1"] by (simp add: inventory_space_def)
  note G = grow_pool_Inr [OF ok g le]
  have len: "POOL_LEN \<le> length (data_of ?L P)" using V(3) PD(7) by simp
  show "pool_at L' P = ?p" "index_at L' P = grow_index (index_at L P) (inventory_space version)"
    using grow_index_header [OF len, of "POOL_LEN + inventory_space version"] V by (simp_all add: pool_at_def index_at_def G(2))
  show "same_at k L L'" if "k \<noteq> info_key P" using put_frame(1) [OF that] G(3) [OF that] by (rule same_at_trans)
qed

text \<open>Appending the tag and counting it.\<close>

lemma stock_step_append:
  assumes P: "pool_ok L P tags" and v: "add_ov (pool_inventory_version (pool_at L P)) 1 = Inr version"
    and M: "load_pool M P = Inr (pool_at M P)" "pool_at M P = (pool_at L P)\<lparr>pool_inventory_version := version\<rparr>"
      "index_at M P = grow_index (index_at L P) (inventory_space version)"
    and app: "index_append (index_at M P) (pool_inventory_version (pool_at L P)) tier = Inr d"
    and upd: "update_remaining (\<lambda>r. add_ov r 1) tier (pool_at M P) = Inr p'"
  shows "stock_step L P (tags @ [tier_tag (unat tier)]) (put_pool P p' (put_index P d M))"
    "unat tier < unat (pool_tier_count (pool_at L P))" "length tags + 1 < 2 ^ 32"
proof -
  let ?p = "pool_at L P"
  note PD = pool_okD [OF P]
  have uv: "unat version = length tags + 1" using v PD(4) by (simp add: add_ov_Inr)
  then show small: "length tags + 1 < 2 ^ 32" using unat_bound [of version] by simp
  obtain r where r: "add_ov (tier_remaining (pool_tiers_all ?p ! unat tier)) 1 = Inr r"
    and t: "unat tier < unat (pool_tier_count ?p)"
    and p': "p' = (pool_at M P)\<lparr>pool_tiers_all := (pool_tiers_all ?p)[unat tier := (pool_tiers_all ?p ! unat tier)\<lparr>tier_remaining := r\<rparr>]\<rparr>"
    using upd by (rule update_remaining_Inr) (simp add: M(2))
  show "unat tier < unat (pool_tier_count ?p)" by (rule t)
  have t8: "unat tier < 8" using t PD(8) by simp
  have "index_restock (index_at L P) (pool_inventory_version ?p) tier = Inr d"
    using app PD(4) uv by (simp add: M(3) index_restock_def inventory_space_def)
  then have rep: "index_rep d (tags @ [tier_tag (unat tier)])"
    using index.restock_law [OF PD(3) t8 PD(4) [symmetric] small] by auto
  have valid: "pool_valid (pool_at M P)" using PD(2) by (simp add: M(2) pool_valid_def pool_wf_def)
  have "stock_step M P (tags @ [tier_tag (unat tier)]) (put_pool P p' (put_index P d M))"
  proof (rule stock_step_update [OF M(1) valid upd rep])
    show "length (tags @ [tier_tag (unat tier)]) = unat (pool_inventory_version (pool_at M P))" by (simp add: M(2) uv)
    show "count_list (tags @ [tier_tag (unat tier)]) (tier_tag t) =
        (if t < unat (pool_tier_count p') then unat (tier_remaining (pool_tiers_all p' ! t)) else 0)" if "t < 8" for t
      using P that t8 t r PD(9) by (auto simp: pool_ok_def nth_list_update p' M(2) add_ov_Inr)
  qed
  then show "stock_step L P (tags @ [tier_tag (unat tier)]) (put_pool P p' (put_index P d M))"
    by (simp add: stock_step_def M(2) pool_terms_def)
qed

text \<open>What \<open>restock\<close> leaves: the pool with one more position and the new item.\<close>

lemma restock_Inr:
  assumes ok: "runtime_ok E" and P: "pool_ok L P tags"
    and r: "restock E payer P I asset tier bump L = Inr L'" and ne: "info_key I \<noteq> info_key P"
  shows "stock_step L P (tags @ [tier_tag (unat tier)]) L' \<and>
    unat tier < unat (pool_tier_count (pool_at L P)) \<and> length tags + 1 < 2 ^ 32 \<and>
    load_item L' I = Inr \<lparr>item_version = ITEM_VERSION, item_bump = bump, item_tier = tier, item_padding = 0,
      item_position = pool_inventory_version (pool_at L P), item_pool = info_key P, item_asset = asset\<rparr> \<and>
    (\<forall>k. k \<noteq> info_key P \<longrightarrow> k \<noteq> info_key I \<longrightarrow> same_at k L L')"
proof -
  let ?p = "pool_at L P" and ?item = "item_set_inner bump tier (pool_inventory_version (pool_at L P)) (info_key P) asset"
  note PD = pool_okD [OF P]
  from r PD(1) obtain version L2 L3 item0 d' p' where
    version: "add_ov (pool_inventory_version ?p) 1 = Inr version"
    and L2: "grow_pool E payer P (POOL_LEN + inventory_space version)
        (put_pool P (?p\<lparr>pool_inventory_version := version\<rparr>) L) = Inr L2"
    and L3: "create_pda E payer I ITEM_LEN (item_seeds (info_key P) tier (pool_inventory_version ?p) bump) L2 = Inr L3"
    and item0: "load_new_item L3 I = Inr item0"
    and ld: "load_pool (put_item I (?item item0) L3) P = Inr (pool_at (put_item I (?item item0) L3) P)"
    and app: "index_append (index_at (put_item I (?item item0) L3) P) (pool_inventory_version ?p) tier = Inr d'"
    and upd: "update_remaining (\<lambda>r. add_ov r 1) tier (pool_at (put_index P d' (put_item I (?item item0) L3)) P) = Inr p'"
    and L': "L' = put_pool P p' (put_index P d' (put_item I (?item item0) L3))"
    by (auto simp: restock_def Let_def load_inventory_def load_pool_Inr)
  let ?L4 = "put_item I (?item item0) L3"
  note G = grown_views [OF ok P version L2]
  have C: "acct_owner (acct L3 I) = ID" "data_of L3 I = replicate ITEM_LEN 0" "\<And>k. k \<noteq> info_key I \<Longrightarrow> same_at k L2 L3"
    using create_pda_Inr [OF ok L3] by simp_all
  have item0_eq: "item0 = decode_item (replicate ITEM_LEN 0)"
    using item0 C(2) by (auto simp: load_new_item_def load_new_view_def Let_def split: if_splits)
  have s4: "same_at k L2 ?L4" if "k \<noteq> info_key I" for k
    using C(3) [OF that] put_frame(2) [OF that] by (rule same_at_trans)
  have at4: "pool_at ?L4 P = ?p\<lparr>pool_inventory_version := version\<rparr>"
    "index_at ?L4 P = grow_index (index_at L P) (inventory_space version)"
    using same_at_views(4,6) [OF s4 [OF ne [symmetric]]] G(1,2) by simp_all
  have "update_remaining (\<lambda>r. add_ov r 1) tier (pool_at ?L4 P) = Inr p'"
    using upd put_index_views(1) [of ?L4 P d'] ld by (simp add: load_pool_Inr)
  note step = stock_step_append [OF P version ld at4 app this, folded L']
  have sL: "same_at k ?L4 L'" if "k \<noteq> info_key P" for k
    unfolding L' using put_frame(4) [OF that] put_frame(1) [OF that] by (rule same_at_trans)
  have "load_item L' I = load_item ?L4 I" using same_at_views(2) [OF sL [OF ne]] .
  then have "load_item L' I = Inr \<lparr>item_version = ITEM_VERSION, item_bump = bump, item_tier = tier, item_padding = 0,
      item_position = pool_inventory_version ?p, item_pool = info_key P, item_asset = asset\<rparr>"
    unfolding item0_eq using put_item_views [OF C(2,1)] by simp
  moreover have "same_at k L L'" if "k \<noteq> info_key P" "k \<noteq> info_key I" for k
    using G(3) [OF that(1)] s4 [OF that(2)] sL [OF that(1)] by (meson same_at_trans)
  ultimately show ?thesis using step by blast
qed

end
