(* ===== verification/Vault.thy ===== *)
theory Vault
  imports Stock_Correct
begin

section \<open>The vault always covers the refunds\<close>

text \<open>
  Every pending draw may have to be refunded with the price and the bond. \<open>due\<close> is what the pool
  owes if all of them are: withdrawals and buybacks only take what the vault holds above it, a
  purchase is accepted only if the vault covers it, and a refund lowers both alike.
\<close>

definition due :: "pool \<Rightarrow> nat \<Rightarrow> nat" where
  "due p n = (unat (pool_price p) + unat (pool_bond_per_draw p)) * n"

definition solvent :: "ledger \<Rightarrow> account_info \<Rightarrow> account_info \<Rightarrow> bool" where
  "solvent L P V \<longleftrightarrow> due (pool_at L P) (unat (pool_pending_draws (pool_at L P))) \<le> unat (balance L V)"

lemma refund_amount_due: "refund_amount p count = Inr a \<Longrightarrow> unat a = due p (unat count)"
  by (simp add: refund_amount_Inr due_def)

lemma load_token_Inr:
  "load_token E L a = Inr t \<longleftrightarrow> acct_owner (acct L a) = env_token_id E \<and> length (data_of L a) = 165 \<and>
     t = \<lparr>token_mint = from_le (slice 0 32 (data_of L a)), token_owner = from_le (slice 32 32 (data_of L a)),
          token_amount = balance L a\<rparr>"
  by (auto simp: load_token_def balance_def Let_def split: if_splits)

lemma spendable_Inr:
  "spendable E L p V = Inr free \<Longrightarrow>
   due p (unat (pool_pending_draws p)) + unat free = unat (balance L V) \<and> acct_owner (acct L V) = env_token_id E"
  by (auto simp: spendable_def load_token_Inr checked_sub_Some dest!: refund_amount_due)

text \<open>Writing the bookkeeping fields of the header keeps the stock.\<close>

lemma pool_ok_put:
  assumes "pool_ok L P tags" "pool_version p = POOL_VERSION" "pool_inventory_version p = pool_inventory_version (pool_at L P)"
    and "pool_tier_count p = pool_tier_count (pool_at L P)" "pool_tiers_all p = pool_tiers_all (pool_at L P)"
  shows "pool_ok (put_pool P p L) P tags" "pool_at (put_pool P p L) P = p"
proof -
  note PD = pool_okD [OF assms(1)]
  have wf: "pool_wf p" using PD(9) assms(5) by (simp add: pool_wf_def)
  note W = put_pool_views [OF wf, where a = P and L = L]
  show at: "pool_at (put_pool P p L) P = p" by (rule W(1))
  have "load_pool (put_pool P p L) P = Inr p" using W PD assms by (simp add: load_pool_Inr)
  moreover have "pool_valid p" using PD(2) assms wf by (simp add: pool_valid_def)
  ultimately show "pool_ok (put_pool P p L) P tags"
    using assms W(2) unfolding pool_ok_def at by simp
qed

lemma pool_termsD:
  "pool_terms p' = pool_terms p \<Longrightarrow> pool_price p' = pool_price p \<and> pool_bond_per_draw p' = pool_bond_per_draw p \<and>
    pool_authority p' = pool_authority p \<and> pool_operator p' = pool_operator p \<and> pool_vault p' = pool_vault p \<and>
    pool_payment_mint p' = pool_payment_mint p \<and> pool_id p' = pool_id p \<and> pool_bump p' = pool_bump p \<and>
    pool_deadline_slots p' = pool_deadline_slots p \<and> pool_tier_count p' = pool_tier_count p"
  by (cases p; cases p') (simp add: pool_terms_def)

lemma due_terms: "pool_terms p' = pool_terms p \<Longrightarrow> due p' n = due p n"
  by (drule pool_termsD) (simp add: due_def)

text \<open>A transfer that leaves the vault.\<close>

lemma token_transfer_Inr:
  assumes "runtime_ok E" "env_invoke E (TokenTransfer src dst authority amount) s L = Inr L'"
  shows "unat amount \<le> unat (balance L src)"
    and "info_key src \<noteq> info_key dst \<Longrightarrow> unat (balance L' src) + unat amount = unat (balance L src) \<and>
      unat (balance L' dst) = unat (balance L dst) + unat amount"
    and "info_key src = info_key dst \<Longrightarrow> balance L' src = balance L src \<and> balance L' dst = balance L dst"
    and "k \<noteq> info_key src \<Longrightarrow> k \<noteq> info_key dst \<Longrightarrow> same_at k L L'"
    and "acct_owner (acct L src) = env_token_id E" "acct_owner (acct L dst) = env_token_id E"
proof -
  have "token_law E" using assms(1) by (simp add: runtime_ok_def)
  note law = this [unfolded token_law_def, rule_format, OF assms(2)]
  show "unat amount \<le> unat (balance L src)" using law by simp
  show "info_key src \<noteq> info_key dst \<Longrightarrow> unat (balance L' src) + unat amount = unat (balance L src) \<and>
      unat (balance L' dst) = unat (balance L dst) + unat amount"
    using law by simp
  show "k \<noteq> info_key src \<Longrightarrow> k \<noteq> info_key dst \<Longrightarrow> same_at k L L'" using law by simp
  show "acct_owner (acct L src) = env_token_id E" "acct_owner (acct L dst) = env_token_id E" using law by simp_all
  assume eq: "info_key src = info_key dst"
  then have "same_at (info_key src) L L'" using law by simp
  with eq show "balance L' src = balance L src \<and> balance L' dst = balance L dst"
    using same_at_data [of src L L'] same_at_data [of dst L L'] by (simp add: balance_def)
qed

lemma vault_after_transfer:
  assumes "runtime_ok E" "env_invoke E (TokenTransfer V to authority amount) s L = Inr L'"
    and "x + unat amount \<le> unat (balance L V)"
  shows "x \<le> unat (balance L' V)"
  using token_transfer_Inr [OF assms(1,2)] assms(3) by (cases "info_key V = info_key to") auto

subsection \<open>Withdraw\<close>

lemma try_withdraw_accounts_Inr:
  assumes "try_withdraw_accounts L [authority, pool, vault, destination, token_program, event_authority, program] = Inr a"
  shows "is_signer authority \<and> load_pool L pool = Inr (pool_at L pool) \<and>
    pool_authority (pool_at L pool) = info_key authority \<and> pool_vault (pool_at L pool) = info_key vault \<and>
    a = \<lparr>wd_authority = authority, wd_pool = pool, wd_vault = vault, wd_destination = destination,
      wd_event_authority = event_authority, wd_program = program\<rparr>"
  using assms by (auto simp: try_withdraw_accounts_def load_pool_Inr split: if_splits)

lemma withdraw_Inr:
  assumes ok: "runtime_ok E"
    and w: "withdraw E [authority, P, V, destination, token_program, event_authority, program] data L = Inr L'"
  shows "is_signer authority \<and> info_key authority = pool_authority (pool_at L P) \<and>
    info_key V = pool_vault (pool_at L P) \<and> same_at (info_key P) L L' \<and> solvent L' P V \<and>
    (info_key V \<noteq> info_key destination \<longrightarrow>
      unat (balance L' V) + unat (from_le (slice 0 8 data) :: u64) = unat (balance L V))"
proof -
  from w obtain a amount where a: "try_withdraw_accounts L [authority, P, V, destination, token_program, event_authority, program] = Inr a"
    and d: "try_withdraw_data data = Inr amount" and pr: "withdraw_process E a amount L = Inr L'"
    by (auto simp: withdraw_def)
  note A = try_withdraw_accounts_Inr [OF a]
  let ?p = "pool_at L P"
  from pr A obtain free L1 where sp: "spendable E L ?p V = Inr free" and le: "amount \<le> free"
    and pay: "env_invoke E (TokenTransfer V destination P amount) [pool_signer_seeds ?p] L = Inr L1"
    and em: "emit E (WithdrawEvent (info_key P) amount) event_authority program L1 = Inr L'"
    by (auto simp: withdraw_process_def pay_def not_less)
  have L': "L' = L1" using emit_same [OF ok em] .
  have own: "acct_owner (L (info_key P)) = ID" using A by (auto simp: load_pool_Inr acct_def)
  then have same: "same_at (info_key P) L L'" using invoke_keeps [OF ok pay] L' by simp
  have "due ?p (unat (pool_pending_draws ?p)) + unat amount \<le> unat (balance L V)"
    using spendable_Inr [OF sp] le by (simp add: word_le_nat_alt)
  then have "solvent L' P V"
    using vault_after_transfer [OF ok pay] same_at_views(4) [OF same] by (simp add: solvent_def L')
  moreover have "amount = from_le (slice 0 8 data)" using d by (simp add: try_withdraw_data_def split: if_splits)
  ultimately show ?thesis using A same token_transfer_Inr(2) [OF ok pay] L' by simp
qed

text \<open>
  C18: a withdrawal never touches money that refunds may need. It succeeds only for the pool's
  authority, on the pool's own vault, and afterwards the vault still covers the price and the bond of
  every pending draw; the pool account is unchanged, and the amount is what left the vault.
\<close>

theorem withdraw_leaves_refunds:
  assumes ok: "runtime_ok E"
    and w: "withdraw E [authority, P, V, destination, token_program, event_authority, program] data L = Inr L'"
  shows "is_signer authority \<and> info_key authority = pool_authority (pool_at L P) \<and>
    info_key V = pool_vault (pool_at L P) \<and> same_at (info_key P) L L' \<and> solvent L' P V \<and>
    (info_key V \<noteq> info_key destination \<longrightarrow>
      unat (balance L' V) + unat (from_le (slice 0 8 data) :: u64) = unat (balance L V))"
  by (rule withdraw_Inr [OF ok w])

end
