(* ===== verification/Example.thy ===== *)
theory Example
  imports Vault
begin

section \<open>A runtime that satisfies the laws\<close>

text \<open>
  \<open>example_env\<close> is a small executable runtime: it satisfies every law of \<open>runtime_ok\<close>, so the
  properties that assume the laws are not vacuous, and it runs the handlers on the ledgers at the
  end of this theory, which the witnesses of the properties use.
\<close>

definition system_account :: account where
  "system_account = \<lparr>acct_owner = 0, acct_lamports = 0, acct_data = []\<rparr>"

definition move_lamports :: "pubkey \<Rightarrow> pubkey \<Rightarrow> u64 \<Rightarrow> ledger \<Rightarrow> ledger result" where
  "move_lamports src dst n L =
     and_then (ok_or (checked_sub (acct_lamports (L src)) n) (External 1)) (\<lambda>s.
     let L = L(src := L src\<lparr>acct_lamports := s\<rparr>) in
     and_then (ok_or (checked_add (acct_lamports (L dst)) n) (External 1)) (\<lambda>d.
     Inr (L(dst := L dst\<lparr>acct_lamports := d\<rparr>))))"

definition set_owner_data :: "pubkey \<Rightarrow> pubkey \<Rightarrow> bytes \<Rightarrow> ledger \<Rightarrow> ledger" where
  "set_owner_data k owner d L = L(k := L k\<lparr>acct_owner := owner, acct_data := d\<rparr>)"

definition move_tokens :: "account_info \<Rightarrow> account_info \<Rightarrow> u64 \<Rightarrow> ledger \<Rightarrow> ledger result" where
  "move_tokens src dst n L =
     (if acct_owner (acct L src) \<noteq> 5 \<or> acct_owner (acct L dst) \<noteq> 5 \<or>
         length (data_of L src) \<noteq> 165 \<or> length (data_of L dst) \<noteq> 165 then Inl (External 2)
      else and_then (ok_or (checked_sub (balance L src) n) (External 3)) (\<lambda>s.
        if info_key src = info_key dst then Inr L
        else and_then (ok_or (checked_add (balance L dst) n) (External 4)) (\<lambda>d.
          Inr (write_data dst (splice_at 64 (to_le d) (data_of L dst))
            (write_data src (splice_at 64 (to_le s) (data_of L src)) L)))))"

fun example_invoke :: "cpi \<Rightarrow> seeds list \<Rightarrow> ledger \<Rightarrow> ledger result" where
  "example_invoke (CreateAccount payer a n space owner) s L =
     (if acct_owner (acct L a) \<noteq> 0 \<or> data_of L a \<noteq> [] then Inl (External 5)
      else and_then (move_lamports (info_key payer) (info_key a) n L) (\<lambda>L.
        Inr (set_owner_data (info_key a) owner (replicate (unat space) 0) L)))"
| "example_invoke (SystemTransfer payer a n) s L = move_lamports (info_key payer) (info_key a) n L"
| "example_invoke (Allocate a space) s L =
     (if acct_owner (acct L a) \<noteq> 0 \<or> data_of L a \<noteq> [] then Inl (External 5)
      else Inr (set_owner_data (info_key a) 0 (replicate (unat space) 0) L))"
| "example_invoke (Assign a owner) s L =
     (if acct_owner (acct L a) \<noteq> 0 \<or> \<not> set (data_of L a) \<subseteq> {0} then Inl (External 5)
      else Inr (set_owner_data (info_key a) owner (data_of L a) L))"
| "example_invoke (TokenTransfer src dst authority n) s L = move_tokens src dst n L"
| "example_invoke (Instruction program metas data infos) s L =
     (if program = CORE_ID
      then (case infos of
          asset # _ # _ # _ # new_owner # _ \<Rightarrow>
            if acct_owner (acct L asset) = CORE_ID
            then Inr (write_data asset (splice_at 1 (to_le (info_key new_owner)) (data_of L asset)) L)
            else Inl (External 6)
        | _ \<Rightarrow> Inl (External 6))
      else Inr L)"

text \<open>Addresses are told apart by the total length of their seeds; a draw's hash is its index.\<close>

definition example_env :: env where
  "example_env = \<lparr>
     env_sha256 = (\<lambda>bytes. from_le (drop 64 bytes)),
     env_create_program_address = (\<lambda>seeds program. Some (word_of_nat (1000 + length (concat seeds)))),
     env_find_program_address = (\<lambda>seeds program. 2000),
     env_proof_verify = (\<lambda>proof key alpha. if proof = replicate 80 1 then Some (replicate 64 0) else None),
     env_verify_strict = (\<lambda>key sig message. sig = replicate 64 9),
     env_clock = Inr \<lparr>clock_slot = 100, clock_unix_timestamp = 1000\<rparr>,
     env_rent = Inr (\<lambda>space. word_of_nat (space + 1)),
     env_realloc = (\<lambda>a n. Inr (a\<lparr>acct_data := take n (acct_data a) @ replicate (n - length (acct_data a)) 0\<rparr>)),
     env_close = (\<lambda>a. Inr system_account),
     env_invoke = example_invoke,
     env_system_id = 0, env_token_id = 5, env_associated_token_id = 6\<rparr>"

lemma program_ids: "ID \<noteq> 0" "ID \<noteq> 5" "CORE_ID \<noteq> 5" "ID \<noteq> CORE_ID" "CORE_ID \<noteq> 0"
  by (simp_all add: ID_def CORE_ID_def from_le_def)

lemma same_at_move_lamports: "move_lamports src dst n L = Inr L' \<Longrightarrow> same_at k L L'"
  by (auto simp: move_lamports_def Let_def same_at_def)

lemma same_at_set: "same_at k L (set_owner_data a owner d L) \<longleftrightarrow> k \<noteq> a \<or> (owner = acct_owner (L a) \<and> d = acct_data (L a))"
  by (auto simp: same_at_def set_owner_data_def)

lemma move_tokens_Inr:
  assumes "move_tokens src dst n L = Inr L'"
  shows "acct_owner (acct L src) = 5 \<and> acct_owner (acct L dst) = 5 \<and> unat n \<le> unat (balance L src) \<and>
     (if info_key src = info_key dst then same_at (info_key src) L L'
      else unat (balance L' src) + unat n = unat (balance L src) \<and>
        unat (balance L' dst) = unat (balance L dst) + unat n) \<and>
     (\<forall>k. acct_owner (L' k) = acct_owner (L k) \<and> length (acct_data (L' k)) = length (acct_data (L k))) \<and>
     (\<forall>k. k \<noteq> info_key src \<longrightarrow> k \<noteq> info_key dst \<longrightarrow> same_at k L L')"
proof (cases "info_key src = info_key dst")
  case True
  with assms show ?thesis by (auto simp: move_tokens_def checked_sub_Some split: if_splits)
next
  case False
  with assms obtain s d where own: "acct_owner (acct L src) = 5" "acct_owner (acct L dst) = 5"
    "length (data_of L src) = 165" "length (data_of L dst) = 165"
    and s: "checked_sub (balance L src) n = Some s" and d: "checked_add (balance L dst) n = Some d"
    and L': "L' = write_data dst (splice_at 64 (to_le d) (data_of L dst))
      (write_data src (splice_at 64 (to_le s) (data_of L src)) L)"
    by (auto simp: move_tokens_def split: if_splits)
  have "balance L' dst = d"
    using own unfolding L' balance_def by (simp add: slice_splice_at_same)
  moreover have "data_of L' src = splice_at 64 (to_le s) (data_of L src)"
    using False unfolding L' by (simp add: write_data_def data_of_def)
  then have "balance L' src = s"
    using own unfolding balance_def by (simp add: slice_splice_at_same)
  moreover have "acct_owner (L' k) = acct_owner (L k) \<and> length (acct_data (L' k)) = length (acct_data (L k))" for k
    using own unfolding L' by (auto simp: write_data_def data_of_def)
  moreover have "same_at k L L'" if "k \<noteq> info_key src" "k \<noteq> info_key dst" for k
    using that unfolding L' by (simp add: write_data_def same_at_def)
  ultimately show ?thesis using own s d False by (simp add: checked_sub_Some checked_add_Some)
qed

lemma example_invoke_frame:
  assumes "example_invoke c s L = Inr L'" "acct_owner (L k) = ID"
  shows "same_at k L L'"
proof (cases c)
  case (CreateAccount payer a n space owner)
  with assms program_ids show ?thesis
    by (auto simp: acct_def split: if_splits) (metis same_at_move_lamports same_at_set same_at_trans)
next
  case (TokenTransfer src dst authority n)
  with assms have m: "move_tokens src dst n L = Inr L'" by simp
  from move_tokens_Inr [OF m] assms(2) program_ids have "k \<noteq> info_key src" "k \<noteq> info_key dst"
    by (auto simp: acct_def)
  with move_tokens_Inr [OF m] show ?thesis by blast
next
  case (Instruction program metas data infos)
  with assms program_ids show ?thesis
    by (auto simp: write_data_at acct_def split: if_splits list.splits)
qed (use assms program_ids in \<open>auto simp: same_at_set acct_def split: if_splits intro: same_at_move_lamports\<close>)

lemma example_invoke_owner:
  assumes "example_invoke c s L = Inr L'" "acct_owner (L k) \<noteq> ID" "acct_owner (L' k) = ID"
  shows "set (acct_data (L' k)) \<subseteq> {0}"
proof (cases c)
  case (CreateAccount payer a n space owner)
  with assms obtain L1 where m: "move_lamports (info_key payer) (info_key a) n L = Inr L1"
    and L': "L' = set_owner_data (info_key a) owner (replicate (unat space) 0) L1" by (auto split: if_splits)
  with same_at_move_lamports [OF m, of k] assms(2,3) show ?thesis
    by (auto simp: set_owner_data_def same_at_def split: if_splits)
next
  case (SystemTransfer payer a n)
  with assms same_at_move_lamports [of "info_key payer" "info_key a" n L L' k] show ?thesis by (simp add: same_at_def)
next
  case (TokenTransfer src dst authority n)
  with assms move_tokens_Inr [of src dst n L L'] show ?thesis by simp
next
  case (Instruction program metas data infos)
  with assms program_ids show ?thesis
    by (auto simp: write_data_def split: if_splits list.splits)
qed (use assms in \<open>auto simp: set_owner_data_def data_of_def split: if_splits\<close>)

lemma example_runtime_ok: "runtime_ok example_env"
proof -
  have inv: "env_invoke example_env = example_invoke" and ids: "env_token_id example_env = 5" "env_system_id example_env = 0"
    by (simp_all add: example_env_def)
  have "invoke_law example_env" unfolding invoke_law_def inv using example_invoke_frame by blast
  moreover have "owner_law example_env" unfolding owner_law_def inv using example_invoke_owner by blast
  moreover have "event_law example_env" using program_ids by (simp add: event_law_def inv)
  moreover have "create_law example_env"
    unfolding create_law_def inv
  proof (intro allI impI)
    fix payer a n space owner s L L'
    assume "example_invoke (CreateAccount payer a n space owner) s L = Inr L'"
    then obtain L1 where m: "move_lamports (info_key payer) (info_key a) n L = Inr L1"
      and L': "L' = set_owner_data (info_key a) owner (replicate (unat space) 0) L1" by (auto split: if_splits)
    show "acct_owner (acct L' a) = owner \<and> data_of L' a = replicate (unat space) 0 \<and>
        (\<forall>k. k \<noteq> info_key a \<longrightarrow> same_at k L L')"
      using same_at_move_lamports [OF m] unfolding L'
      by (auto simp: set_owner_data_def acct_def data_of_def same_at_def)
  qed
  moreover have "transfer_law example_env" using same_at_move_lamports by (simp add: transfer_law_def inv)
  moreover have "allocate_law example_env"
    by (auto simp: allocate_law_def inv set_owner_data_def acct_def data_of_def same_at_def split: if_splits)
  moreover have "assign_law example_env"
    by (auto simp: assign_law_def inv set_owner_data_def acct_def data_of_def same_at_def split: if_splits)
  moreover have "token_law example_env"
    unfolding token_law_def inv ids example_invoke.simps by (intro allI impI) (rule move_tokens_Inr)
  moreover have "core_law example_env"
    using program_ids
    by (auto simp: core_law_def inv ids write_data_at acct_def split: if_splits list.splits)
  moreover have "realloc_law example_env" by (simp add: realloc_law_def example_env_def)
  moreover have "close_law example_env" by (simp add: close_law_def example_env_def system_account_def)
  ultimately show ?thesis using program_ids by (simp add: runtime_ok_def ids)
qed

subsection \<open>A pool with three prizes\<close>

text \<open>
  The pool account (1045) holds \<open>sample_pool\<close> with its index \<open>sample_index\<close>: positions 0 and 2 in tier
  0 and position 1 in tier 1. The vault is 2000, the buyer's token account 21, a pending pull 1069
  and the item of position 0 is 30. Account 1042 is the next item's address.
\<close>

definition info :: "pubkey \<Rightarrow> account_info" where
  "info k = \<lparr>info_key = k, is_signer = True, is_writable = True\<rparr>"

definition token_data :: "pubkey \<Rightarrow> pubkey \<Rightarrow> u64 \<Rightarrow> bytes" where
  "token_data mint owner amount = to_le mint @ to_le owner @ to_le amount @ replicate 36 0 @ [1] @ replicate 56 0"

definition example_pool :: pool where
  "example_pool = sample_pool\<lparr>pool_authority := 7, pool_operator := 8, pool_payment_mint := 9, pool_vault := 2000\<rparr>"

definition example_pull :: pull where
  "example_pull = \<lparr>pull_version = 1, pull_bump = 0, pull_status = STATUS_PENDING, pull_count = 1,
     pull_inventory_version = 3, pull_index = 0, pull_deadline_slot = 150, pull_pool = 1045, pull_buyer = 20,
     pull_client_seed = 77, pull_outcomes = replicate 10 \<lparr>outcome_tier = 0, outcome_asset = 0\<rparr>\<rparr>"

definition example_item :: item where
  "example_item = \<lparr>item_version = 1, item_bump = 0, item_tier = 0, item_padding = 0, item_position = 0,
     item_pool = 1045, item_asset = 40\<rparr>"

definition example_ledger :: "pool \<Rightarrow> bytes \<Rightarrow> ledger" where
  "example_ledger p pull_data = (\<lambda>_. system_account)(
     1045 := \<lparr>acct_owner = ID, acct_lamports = 1000, acct_data = encode_pool p @ sample_index\<rparr>,
     1069 := \<lparr>acct_owner = (if pull_data = [] then 0 else ID), acct_lamports = 0, acct_data = pull_data\<rparr>,
     30 := \<lparr>acct_owner = ID, acct_lamports = 500, acct_data = encode_item example_item\<rparr>,
     40 := \<lparr>acct_owner = CORE_ID, acct_lamports = 500, acct_data = replicate 66 1\<rparr>,
     2000 := \<lparr>acct_owner = 5, acct_lamports = 1, acct_data = token_data 9 1045 1000\<rparr>,
     21 := \<lparr>acct_owner = 5, acct_lamports = 1, acct_data = token_data 9 20 1000\<rparr>,
     20 := system_account\<lparr>acct_lamports := 100000\<rparr>, 7 := system_account\<lparr>acct_lamports := 100000\<rparr>)"

lemma length_sample_index [simp]: "length sample_index = 96"
  by (simp add: sample_index_def)

lemma data_of_write [simp]:
  "data_of (write_data a d L) b = (if info_key b = info_key a then d else data_of L b)"
  "acct (write_data a d L) b = (if info_key b = info_key a then (acct L a)\<lparr>acct_data := d\<rparr> else acct L b)"
  by (simp_all add: write_data_def data_of_def acct_def)

lemma info_simps [simp]: "info_key (info k) = k" "is_signer (info k)" "is_writable (info k)"
  by (simp_all add: info_def)

lemma example_ledger_at:
  "acct (example_ledger p d) (info 1045) = \<lparr>acct_owner = ID, acct_lamports = 1000, acct_data = encode_pool p @ sample_index\<rparr>"
  "acct (example_ledger p d) (info 1069) =
     \<lparr>acct_owner = (if d = [] then 0 else ID), acct_lamports = 0, acct_data = d\<rparr>"
  "acct (example_ledger p d) (info 30) = \<lparr>acct_owner = ID, acct_lamports = 500, acct_data = encode_item example_item\<rparr>"
  "acct (example_ledger p d) (info 40) = \<lparr>acct_owner = CORE_ID, acct_lamports = 500, acct_data = replicate 66 1\<rparr>"
  "acct (example_ledger p d) (info 2000) = \<lparr>acct_owner = 5, acct_lamports = 1, acct_data = token_data 9 1045 1000\<rparr>"
  "acct (example_ledger p d) (info 21) = \<lparr>acct_owner = 5, acct_lamports = 1, acct_data = token_data 9 20 1000\<rparr>"
  "acct (example_ledger p d) (info 20) = system_account\<lparr>acct_lamports := 100000\<rparr>"
  "acct (example_ledger p d) (info 7) = system_account\<lparr>acct_lamports := 100000\<rparr>"
  "acct (example_ledger p d) (info 1042) = system_account"
  by (simp_all add: example_ledger_def acct_def)

lemma data_of_acct: "data_of L a = acct_data (acct L a)"
  by (simp add: data_of_def acct_def)

lemma token_data_simps [simp]:
  "length (token_data m w n) = 165" "slice 0 32 (token_data m w n) = to_le m"
  "slice 32 32 (token_data m w n) = to_le w" "slice 64 8 (token_data m w n) = to_le n"
  by (simp_all add: token_data_def slice_walk slice_exact)

definition fits_example :: "pool \<Rightarrow> bool" where
  "fits_example p \<longleftrightarrow> pool_version p = 1 \<and> pool_inventory_version p = 3 \<and> pool_tier_count p = 2 \<and>
     pool_tiers_all p = sample_tiers \<and> pool_vault p = 2000 \<and> pool_authority p = 7 \<and> pool_operator p = 8"

lemma example_views:
  assumes "fits_example p"
  shows "load_pool (example_ledger p d) (info 1045) = Inr p" "pool_at (example_ledger p d) (info 1045) = p"
    "index_at (example_ledger p d) (info 1045) = sample_index"
    "pool_ok (example_ledger p d) (info 1045) [1, 2, 1]"
    "load_token example_env (example_ledger p d) (info 2000) =
      Inr \<lparr>token_mint = 9, token_owner = 1045, token_amount = 1000\<rparr>"
    "load_token example_env (example_ledger p d) (info 21) =
      Inr \<lparr>token_mint = 9, token_owner = 20, token_amount = 1000\<rparr>"
    "balance (example_ledger p d) (info 2000) = 1000" "balance (example_ledger p d) (info 21) = 1000"
    "load_item (example_ledger p d) (info 30) = Inr example_item"
    "pull_wf u \<Longrightarrow> pull_version u = 1 \<Longrightarrow> load_pull (example_ledger p (encode_pull u)) (info 1069) = Inr u"
    "pull_wf u \<Longrightarrow> pull_at (example_ledger p (encode_pull u)) (info 1069) = u"
proof -
  let ?L = "example_ledger p d" and ?P = "info 1045"
  have p: "pool_wf p" "pool_version p = 1" "pool_inventory_version p = 3" "pool_tier_count p = 2"
    using assms by (simp_all add: fits_example_def pool_wf_def sample_tiers_def)
  note at = data_of_acct example_ledger_at
  show pool: "pool_at ?L ?P = p" by (simp add: pool_at_def at pool_layout.dec_enc p)
  show idx: "index_at ?L ?P = sample_index" using length_encode_pool [OF p(1)] by (simp add: index_at_def at)
  show ld: "load_pool ?L ?P = Inr p"
    using length_encode_pool [OF p(1)] pool p by (simp add: load_pool_Inr at inventory_space_def div_ceil_def)
  have "pool_valid p" using p by (simp add: pool_valid_def)
  moreover have "count_list [1, 2, 1] (tier_tag t) =
      (if t < 2 then unat (tier_remaining (sample_tiers ! t)) else 0)" if t: "t < 8" for t
  proof -
    have "list_all (\<lambda>t. count_list [1, 2, 1] (tier_tag t) =
      (if t < 2 then unat (tier_remaining (sample_tiers ! t)) else 0)) [0..<8]" by code_simp
    then show ?thesis using t by (simp add: list_all_iff)
  qed
  ultimately show "pool_ok ?L ?P [1, 2, 1]"
    using ld assms p sample_index_rep unfolding pool_ok_def pool idx fits_example_def by simp
  show bal: "balance ?L (info 2000) = 1000" "balance ?L (info 21) = 1000"
    by (simp_all add: balance_def at)
  show "load_token example_env ?L (info 2000) = Inr \<lparr>token_mint = 9, token_owner = 1045, token_amount = 1000\<rparr>"
    "load_token example_env ?L (info 21) = Inr \<lparr>token_mint = 9, token_owner = 20, token_amount = 1000\<rparr>"
    by (simp_all add: load_token_def at example_env_def)
  have "decode_item (encode_item example_item) = example_item"
    using item_layout.dec_enc [of example_item "[]"] by simp
  then show "load_item ?L (info 30) = Inr example_item"
    using length_encode_item [of example_item] by (simp add: load_item_Inr at) (simp add: example_item_def)
  assume wf: "pull_wf u"
  have len: "length (encode_pull u) = 450" using length_encode_pull [OF wf] .
  have dec: "decode_pull (encode_pull u) = u" using pull_layout.dec_enc [OF wf, of "[]"] by simp
  show "pull_at (example_ledger p (encode_pull u)) (info 1069) = u" by (simp add: pull_at_def at dec)
  then show "pull_version u = 1 \<Longrightarrow> load_pull (example_ledger p (encode_pull u)) (info 1069) = Inr u"
    using len by (auto simp: load_pull_Inr at)
qed

end
