(* ===== verification/Player_Correct.thy ===== *)
theory Player_Correct
  imports Vault
begin

section \<open>Purchases and refunds\<close>

text \<open>
  A purchase reserves stock and refund cover and takes the next index of the queue; a refund pays
  the head of the queue after its deadline and releases the reservation.
\<close>

subsection \<open>Buy\<close>

lemma try_buy_accounts_Inr:
  assumes "try_buy_accounts E L [buyer, P, U, buyer_ata, V, token_program, system_program, event_authority, program] = Inr a"
  shows "is_signer buyer \<and> is_writable P \<and> is_writable U \<and> acct_owner (acct L U) = env_system_id E \<and> data_of L U = [] \<and>
    load_pool L P = Inr (pool_at L P) \<and> pool_status (pool_at L P) = POOL_ACTIVE \<and> pool_vault (pool_at L P) = info_key V \<and>
    a = \<lparr>buy_buyer = buyer, buy_pool = P, buy_pull = U, buy_buyer_ata = buyer_ata, buy_vault = V,
      buy_event_authority = event_authority, buy_program = program\<rparr>"
  using assms by (auto simp: try_buy_accounts_def check_uninitialized_def load_pool_Inr split: if_splits)

lemma try_buy_data_Inr:
  "try_buy_data data = Inr d \<Longrightarrow> length data = 38 \<and> buy_count d = data ! 0 \<and> buy_client_seed d = from_le (slice 1 32 data) \<and>
    buy_inventory_version d = from_le (slice 33 4 data) \<and> buy_bump d = data ! 37 \<and>
    0 < unat (data ! 0) \<and> unat (data ! 0) \<le> MAX_COUNT"
  by (auto simp: try_buy_data_def Let_def unat_gt_0 split: if_splits)

lemma remaining_total_Inr:
  "remaining_total p = Inr r \<Longrightarrow> pool_valid p \<Longrightarrow> unat r = sum_list (map (\<lambda>t. unat (tier_remaining t)) (tiers_of p))"
  by (auto simp: remaining_total_def dest!: sum_ov_Inr simp: comp_def)

lemma buy_reserve_Inr:
  assumes "buy_reserve E a d L = Inr (pending, amount)"
  shows "info_key (buy_pull a) \<in> set_option (env_create_program_address E
        [PULL_SEED, to_le (info_key (buy_pool a)), to_le (buy_client_seed d), [buy_bump d]] ID) \<and>
    load_pool L (buy_pool a) = Inr (pool_at L (buy_pool a)) \<and>
    buy_inventory_version d = pool_inventory_version (pool_at L (buy_pool a)) \<and>
    unat pending = unat (pool_pending_draws (pool_at L (buy_pool a))) + unat (buy_count d) \<and>
    (\<exists>r. remaining_total (pool_at L (buy_pool a)) = Inr r \<and> unat pending \<le> unat r) \<and>
    unat amount = unat (pool_price (pool_at L (buy_pool a))) * unat (buy_count d) \<and>
    acct_owner (acct L (buy_vault a)) = env_token_id E \<and> length (data_of L (buy_vault a)) = 165 \<and>
    due (pool_at L (buy_pool a)) (unat pending) \<le> unat (balance L (buy_vault a)) + unat amount"
  using assms
  by (auto simp: buy_reserve_def Let_def load_pool_Inr load_token_Inr add_ov_Inr payment_Inr not_less
      word_le_nat_alt unat_ucast_widen dest!: refund_amount_due split: if_splits)

text \<open>The accounts of a purchase before the payment: the new pull and the counters of the pool.\<close>

lemma purchase_written:
  assumes ok: "runtime_ok E" and P: "pool_ok L P tags" and PU: "info_key P \<noteq> info_key U"
    and cr: "create_pda E buyer U PULL_LEN seeds L = Inr L1" and u0: "load_new_pull L1 U = Inr u0"
    and u: "u = pull_set_inner bump count version index deadline pool_key buyer_key seed u0"
    and p': "p' = (pool_at L P)\<lparr>pool_pending_draws := pending, pool_next_index := next_index\<rparr>"
  defines "L2 \<equiv> put_pull U u L1"
  defines "L3 \<equiv> put_pool P p' L2"
  shows "pool_at L1 P = pool_at L P" "pool_at L2 P = pool_at L P" "pool_ok L3 P tags" "pool_at L3 P = p'"
    "load_pull L3 U = Inr u" "k \<noteq> info_key P \<Longrightarrow> k \<noteq> info_key U \<Longrightarrow> same_at k L L3"
proof -
  have C: "acct_owner (acct L1 U) = ID" "data_of L1 U = replicate PULL_LEN 0" "\<And>k. k \<noteq> info_key U \<Longrightarrow> same_at k L L1"
    using create_pda_Inr [OF ok cr] by simp_all
  show "pool_at L1 P = pool_at L P" using same_at_views(4) [OF C(3) [OF PU]] .
  have "pull_wf u0" using u0 by (auto simp: load_new_pull_def load_new_view_def Let_def split: if_splits)
  then have "pull_wf u" "pull_version u = PULL_VERSION" by (simp_all add: u pull_wf_def pull_set_inner_def)
  with put_pull_views [of u, where a = U and L = L1] C(1,2) have U2: "load_pull L2 U = Inr u"
    by (simp add: L2_def load_pull_Inr)
  have s2: "same_at k L L2" if "k \<noteq> info_key U" for k
    unfolding L2_def using C(3) [OF that] put_frame(3) [OF that] by (rule same_at_trans)
  show p2: "pool_at L2 P = pool_at L P" using same_at_views(4) [OF s2 [OF PU]] .
  have "pool_ok L2 P tags" using pool_ok_same [OF s2 [OF PU]] P by simp
  then show "pool_ok L3 P tags" "pool_at L3 P = p'"
    using pool_ok_put [of L2 P tags p'] pool_okD(10) [OF P] by (simp_all add: L3_def p' p2)
  show "load_pull L3 U = Inr u" using same_at_views(3) [OF put_frame(1) [OF PU [symmetric]]] U2 by (simp add: L3_def)
  show "same_at k L L3" if "k \<noteq> info_key P" "k \<noteq> info_key U"
    unfolding L3_def using s2 [OF that(2)] put_frame(1) [OF that(1)] by (rule same_at_trans)
qed

text \<open>The parts of a successful purchase, up to the payment.\<close>

lemma buy_parts:
  assumes ok: "runtime_ok E" and P: "pool_ok L P tags"
    and b: "buy E [buyer, P, U, buyer_ata, V, token_program, system_program, event_authority, program] data L = Inr L'"
  obtains a d pending amount clock u L3 where
    "try_buy_accounts E L [buyer, P, U, buyer_ata, V, token_program, system_program, event_authority, program] = Inr a"
    "try_buy_data data = Inr d" "buy_reserve E a d L = Inr (pending, amount)" "env_clock E = Inr clock"
    "unat (pull_deadline_slot u) = unat (clock_slot clock) + unat (pool_deadline_slots (pool_at L P))"
    "unat (pool_next_index (pool_at L P) + 1) = unat (pool_next_index (pool_at L P)) + 1"
    "pull_status u = STATUS_PENDING" "pull_count u = data ! 0" "pull_index u = pool_next_index (pool_at L P)"
    "pull_inventory_version u = pool_inventory_version (pool_at L P)" "pull_pool u = info_key P"
    "pull_buyer u = info_key buyer" "pull_client_seed u = from_le (slice 1 32 data)"
    "pool_ok L3 P tags" "pool_at L3 P = (pool_at L P)\<lparr>pool_pending_draws := pending,
        pool_next_index := pool_next_index (pool_at L P) + 1\<rparr>"
    "load_pull L3 U = Inr u" "\<forall>k. k \<noteq> info_key P \<longrightarrow> k \<noteq> info_key U \<longrightarrow> same_at k L L3"
    "env_invoke E (TokenTransfer buyer_ata V buyer amount) [] L3 = Inr L'"
proof -
  from b obtain a d where a: "try_buy_accounts E L [buyer, P, U, buyer_ata, V, token_program, system_program,
      event_authority, program] = Inr a" and d: "try_buy_data data = Inr d" and pr: "buy_process E a d L = Inr L'"
    by (auto simp: buy_def)
  note A = try_buy_accounts_Inr [OF a] and D = try_buy_data_Inr [OF d]
  let ?p = "pool_at L P"
  from pr A obtain pending amount L1 u0 clock deadline next_index L2 where
    res: "buy_reserve E a d L = Inr (pending, amount)"
    and cr: "create_pda E buyer U PULL_LEN (pull_seeds (info_key P) (buy_client_seed d) (buy_bump d)) L = Inr L1"
    and u0: "load_new_pull L1 U = Inr u0" and clock: "env_clock E = Inr clock"
    and dl: "add_ov (clock_slot clock) (pool_deadline_slots (pool_at L1 P)) = Inr deadline"
    and ni: "add_ov (pool_next_index (pool_at L1 P)) 1 = Inr next_index"
    and tr: "env_invoke E (TokenTransfer buyer_ata V buyer amount) [] (put_pool P
        (pool_at (put_pull U (pull_set_inner (buy_bump d) (buy_count d) (pool_inventory_version (pool_at L1 P))
          (pool_next_index (pool_at L1 P)) deadline (info_key P) (info_key buyer) (buy_client_seed d) u0) L1) P
          \<lparr>pool_pending_draws := pending, pool_next_index := next_index\<rparr>)
        (put_pull U (pull_set_inner (buy_bump d) (buy_count d) (pool_inventory_version (pool_at L1 P))
          (pool_next_index (pool_at L1 P)) deadline (info_key P) (info_key buyer) (buy_client_seed d) u0) L1)) = Inr L2"
    and em: "emit E (BuyEvent (info_key P) (info_key U) (info_key buyer) (pool_next_index (pool_at L1 P)) (buy_count d))
        event_authority program L2 = Inr L'"
    by (auto simp: buy_process_def Let_def)
  note PD = pool_okD [OF P]
  have PU: "info_key P \<noteq> info_key U" using PD(5) A runtime_okD(2) [OF ok] by (auto simp: acct_def)
  let ?u = "pull_set_inner (buy_bump d) (buy_count d) (pool_inventory_version ?p) (pool_next_index ?p) deadline
      (info_key P) (info_key buyer) (buy_client_seed d) u0"
  let ?p' = "?p\<lparr>pool_pending_draws := pending, pool_next_index := next_index\<rparr>"
  let ?L3 = "put_pool P ?p' (put_pull U ?u L1)"
  note W = purchase_written [OF ok P PU cr u0 refl [of ?u] refl [of ?p']]
  have tr': "env_invoke E (TokenTransfer buyer_ata V buyer amount) [] ?L3 = Inr L'"
    using tr emit_same [OF ok em] by (simp add: W(1,2))
  have ni': "next_index = pool_next_index ?p + 1" using ni by (auto simp: W(1) add_ov_def split: if_splits)
  have "unat (pool_next_index ?p + 1) = unat (pool_next_index ?p) + 1" using ni unfolding W(1) add_ov_Inr ni' by simp
  moreover have "unat (pull_deadline_slot ?u) = unat (clock_slot clock) + unat (pool_deadline_slots ?p)"
    using dl by (simp add: W(1) add_ov_Inr pull_set_inner_def)
  ultimately show thesis
    using that [OF a d res clock, of ?u ?L3] W(3-6) D tr' by (simp add: pull_set_inner_def ni')
qed

lemma buy_Inr:
  assumes ok: "runtime_ok E" and P: "pool_ok L P tags"
    and b: "buy E [buyer, P, U, buyer_ata, V, token_program, system_program, event_authority, program] data L = Inr L'"
  shows "\<exists>pending clock u. pool_at L' P = (pool_at L P)\<lparr>pool_pending_draws := pending,
        pool_next_index := pool_next_index (pool_at L P) + 1\<rparr> \<and>
      unat pending = unat (pool_pending_draws (pool_at L P)) + unat (data ! 0) \<and> 0 < unat (data ! 0) \<and>
      unat (data ! 0) \<le> MAX_COUNT \<and>
      unat pending \<le> sum_list (map (\<lambda>t. unat (tier_remaining t)) (tiers_of (pool_at L P))) \<and>
      (info_key buyer_ata \<noteq> info_key V \<longrightarrow>
        unat (balance L' V) = unat (balance L V) + unat (pool_price (pool_at L P)) * unat (data ! 0) \<and>
        solvent L' P V) \<and> data_of L U = [] \<and> acct_owner (acct L U) = env_system_id E \<and> pool_ok L' P tags \<and> env_clock E = Inr clock \<and>
      load_pull L' U = Inr u \<and> pull_status u = STATUS_PENDING \<and> pull_count u = data ! 0 \<and>
      pull_index u = pool_next_index (pool_at L P) \<and>
      pull_inventory_version u = pool_inventory_version (pool_at L P) \<and>
      pull_pool u = info_key P \<and> pull_buyer u = info_key buyer \<and> pull_client_seed u = from_le (slice 1 32 data) \<and>
      unat (pull_deadline_slot u) = unat (clock_slot clock) + unat (pool_deadline_slots (pool_at L P)) \<and>
      is_signer buyer \<and> pool_status (pool_at L P) = POOL_ACTIVE \<and> info_key V = pool_vault (pool_at L P) \<and>
      unat (pool_next_index (pool_at L P) + 1) = unat (pool_next_index (pool_at L P)) + 1 \<and>
      (info_key buyer_ata \<noteq> info_key V \<longrightarrow>
        unat (balance L' buyer_ata) + unat (pool_price (pool_at L P)) * unat (data ! 0) = unat (balance L buyer_ata)) \<and>
      length data = 38 \<and> from_le (slice 33 4 data) = pool_inventory_version (pool_at L P) \<and> is_writable P \<and> is_writable U \<and>
      env_create_program_address E (pull_seeds (info_key P) (from_le (slice 1 32 data)) (data ! 37)) ID = Some (info_key U)"
proof -
  let ?p = "pool_at L P"
  obtain a d pending amount clock u L3 where a: "try_buy_accounts E L [buyer, P, U, buyer_ata, V, token_program,
      system_program, event_authority, program] = Inr a" and d: "try_buy_data data = Inr d"
    and res: "buy_reserve E a d L = Inr (pending, amount)" and clock: "env_clock E = Inr clock"
    and dl: "unat (pull_deadline_slot u) = unat (clock_slot clock) + unat (pool_deadline_slots ?p)"
    and ni: "unat (pool_next_index ?p + 1) = unat (pool_next_index ?p) + 1"
    and u: "pull_status u = STATUS_PENDING" "pull_count u = data ! 0" "pull_index u = pool_next_index ?p"
      "pull_inventory_version u = pool_inventory_version ?p" "pull_pool u = info_key P"
      "pull_buyer u = info_key buyer" "pull_client_seed u = from_le (slice 1 32 data)"
    and W: "pool_ok L3 P tags" "pool_at L3 P = ?p\<lparr>pool_pending_draws := pending, pool_next_index := pool_next_index ?p + 1\<rparr>"
      "load_pull L3 U = Inr u" "\<forall>k. k \<noteq> info_key P \<longrightarrow> k \<noteq> info_key U \<longrightarrow> same_at k L L3"
    and tr: "env_invoke E (TokenTransfer buyer_ata V buyer amount) [] L3 = Inr L'"
    by (rule buy_parts [OF ok P b])
  note A = try_buy_accounts_Inr [OF a] and D = try_buy_data_Inr [OF d] and PD = pool_okD [OF P] and T = token_transfer_Inr [OF ok tr]
  have own: "acct_owner (L3 (info_key P)) = ID" "acct_owner (L3 (info_key U)) = ID"
    using pool_okD(5) [OF W(1)] W(3) by (simp_all add: acct_def load_pull_Inr)
  have fP: "pool_ok L' P tags" "pool_at L' P = pool_at L3 P" "load_pull L' U = Inr u"
    using same_at_views(3) [OF invoke_keeps [OF ok tr own(2)]] invoke_keeps [OF ok tr own(1)] W(1,3)
    by (simp_all add: pool_ok_same same_at_views)
  have R: "unat pending = unat (pool_pending_draws ?p) + unat (data ! 0)"
    "unat amount = unat (pool_price ?p) * unat (data ! 0)" "due ?p (unat pending) \<le> unat (balance L V) + unat amount"
    "unat pending \<le> sum_list (map (\<lambda>t. unat (tier_remaining t)) (tiers_of ?p))"
    "from_le (slice 33 4 data) = pool_inventory_version ?p"
    "env_create_program_address E (pull_seeds (info_key P) (from_le (slice 1 32 data)) (data ! 37)) ID = Some (info_key U)"
    using buy_reserve_Inr [OF res] A D remaining_total_Inr [OF _ PD(2)] by (auto simp: pull_seeds_def)
  have "info_key k \<noteq> info_key U \<and> info_key k \<noteq> info_key P" if "acct_owner (acct L3 k) = env_token_id E" for k
    using that own runtime_okD(3) [OF ok] by (auto simp: acct_def)
  then have bal: "balance L3 V = balance L V" "balance L3 buyer_ata = balance L buyer_ata"
    using T(5,6) W(4) same_at_views(8) by metis+
  have paid: "unat (balance L' V) = unat (balance L V) + unat amount"
    "unat (balance L' buyer_ata) + unat amount = unat (balance L buyer_ata)" if "info_key buyer_ata \<noteq> info_key V"
    using T(2) that by (simp_all add: bal)
  have "solvent L' P V" if "info_key buyer_ata \<noteq> info_key V"
    using R(3) paid [OF that] by (simp add: solvent_def due_def fP(2) W(2))
  then show ?thesis
    using fP W(2) clock dl ni u A D R paid by (intro exI [of _ pending] exI [of _ clock] exI [of _ u]) simp
qed

text \<open>
  C7: what a purchase reserves. It is accepted only for an active pool, one to ten draws, the candidate
  list that the buyer named in the instruction, which is the pool's current version, and an unused pull
  account at the address derived from the pool and the client seed. It takes the next index of the queue
  with that version and the deadline of the current slot; all pending draws stay within the remaining
  stock, the price of the draws moves from the buyer's token account to the vault, and then the vault
  covers every refund. Nothing else in the pool changes.
\<close>

theorem buy_reserves:
  assumes ok: "runtime_ok E" and P: "pool_ok L P tags" and other: "info_key buyer_ata \<noteq> info_key V"
    and b: "buy E [buyer, P, U, buyer_ata, V, token_program, system_program, event_authority, program] data L = Inr L'"
  shows "\<exists>pending clock u. pool_at L' P = (pool_at L P)\<lparr>pool_pending_draws := pending,
        pool_next_index := pool_next_index (pool_at L P) + 1\<rparr> \<and>
      unat pending = unat (pool_pending_draws (pool_at L P)) + unat (data ! 0) \<and> 0 < unat (data ! 0) \<and>
      unat (data ! 0) \<le> MAX_COUNT \<and>
      unat pending \<le> sum_list (map (\<lambda>t. unat (tier_remaining t)) (tiers_of (pool_at L P))) \<and>
      unat (balance L' V) = unat (balance L V) + unat (pool_price (pool_at L P)) * unat (data ! 0) \<and>
      solvent L' P V \<and> pool_ok L' P tags \<and> env_clock E = Inr clock \<and>
      load_pull L' U = Inr u \<and> pull_status u = STATUS_PENDING \<and> pull_count u = data ! 0 \<and>
      pull_index u = pool_next_index (pool_at L P) \<and>
      pull_inventory_version u = pool_inventory_version (pool_at L P) \<and>
      pull_pool u = info_key P \<and> pull_buyer u = info_key buyer \<and> pull_client_seed u = from_le (slice 1 32 data) \<and>
      unat (pull_deadline_slot u) = unat (clock_slot clock) + unat (pool_deadline_slots (pool_at L P)) \<and>
      is_signer buyer \<and> pool_status (pool_at L P) = POOL_ACTIVE \<and> info_key V = pool_vault (pool_at L P) \<and>
      from_le (slice 33 4 data) = pool_inventory_version (pool_at L P) \<and> length data = 38 \<and> is_writable P \<and> is_writable U \<and>
      data_of L U = [] \<and> acct_owner (acct L U) = env_system_id E \<and>
      env_create_program_address E (pull_seeds (info_key P) (from_le (slice 1 32 data)) (data ! 37)) ID = Some (info_key U) \<and>
      unat (balance L' buyer_ata) + unat (pool_price (pool_at L P)) * unat (data ! 0) = unat (balance L buyer_ata)"
  using buy_Inr [OF ok P b] other by blast

subsection \<open>Refund\<close>

lemma try_refund_accounts_Inr:
  assumes "try_refund_accounts E L [P, U, buyer, V, buyer_ata, token_program, event_authority, program] = Inr a"
  shows "is_writable P \<and> is_writable U \<and> is_writable buyer \<and> load_pool L P = Inr (pool_at L P) \<and>
    load_pull L U = Inr (pull_at L U) \<and> pull_pool (pull_at L U) = info_key P \<and>
    pull_status (pull_at L U) = STATUS_PENDING \<and> pull_index (pull_at L U) = pool_next_settle (pool_at L P) \<and>
    (\<exists>clock. env_clock E = Inr clock \<and> unat (pull_deadline_slot (pull_at L U)) < unat (clock_slot clock)) \<and>
    pull_buyer (pull_at L U) = info_key buyer \<and> pool_vault (pool_at L P) = info_key V \<and>
    acct_owner (acct L buyer_ata) = env_token_id E \<and> from_le (slice 32 32 (data_of L buyer_ata)) = info_key buyer \<and>
    a = \<lparr>rf_pool = P, rf_pull = U, rf_buyer = buyer, rf_vault = V, rf_buyer_ata = buyer_ata,
      rf_event_authority = event_authority, rf_program = program\<rparr>"
  using assms
  by (auto simp: try_refund_accounts_def load_pool_Inr load_pull_Inr load_token_Inr not_le word_less_nat_alt split: if_splits)

text \<open>The payment of a refund, between the write of the pool and the closing of the pull.\<close>

lemma refund_payment:
  assumes ok: "runtime_ok E" and P: "acct_owner (acct L P) = ID" and U: "load_pull L U = Inr u"
    and tr: "env_invoke E (TokenTransfer V buyer_ata P amount) seeds (put_pool P p' L) = Inr L1" and cl: "close E U buyer L1 = Inr L'"
  shows "unat amount \<le> unat (balance L V)"
    "info_key V \<noteq> info_key buyer_ata \<Longrightarrow> unat (balance L' V) + unat amount = unat (balance L V) \<and>
      unat (balance L' buyer_ata) = unat (balance L buyer_ata) + unat amount"
    "info_key V = info_key buyer_ata \<Longrightarrow> balance L' V = balance L V"
proof -
  note T = token_transfer_Inr [OF ok tr]
  have tok: "acct_owner (acct L V) = env_token_id E" "acct_owner (acct L buyer_ata) = env_token_id E" using T(5,6) by simp_all
  have "info_key V \<noteq> info_key P" "info_key buyer_ata \<noteq> info_key P" "info_key V \<noteq> info_key U" "info_key buyer_ata \<noteq> info_key U"
    using P U tok runtime_okD(3) [OF ok] by (auto simp: acct_def load_pull_Inr)
  then have "balance (put_pool P p' L) V = balance L V" "balance (put_pool P p' L) buyer_ata = balance L buyer_ata"
    "balance L' V = balance L1 V" "balance L' buyer_ata = balance L1 buyer_ata"
    using same_at_views(8) [OF put_frame(1)] close_Inr [OF ok cl] same_at_views(8) by metis+
  note b = this
  show "unat amount \<le> unat (balance L V)" using T(1) by (simp add: b)
  show "info_key V \<noteq> info_key buyer_ata \<Longrightarrow> unat (balance L' V) + unat amount = unat (balance L V) \<and>
      unat (balance L' buyer_ata) = unat (balance L buyer_ata) + unat amount" using T(2) by (simp add: b)
  show "info_key V = info_key buyer_ata \<Longrightarrow> balance L' V = balance L V" using T(3) by (simp add: b)
qed

lemma refund_Inr:
  assumes ok: "runtime_ok E" and P: "pool_ok L P tags"
    and r: "refund E [P, U, buyer, V, buyer_ata, token_program, event_authority, program] L = Inr L'"
  defines "p \<equiv> pool_at L P" and "u \<equiv> pull_at L U"
  shows "\<exists>pending clock. pool_at L' P = p\<lparr>pool_pending_draws := pending, pool_next_settle := pool_next_settle p + 1\<rparr> \<and>
      unat pending + unat (pull_count u) = unat (pool_pending_draws p) \<and> pool_ok L' P tags \<and>
      pull_index u = pool_next_settle p \<and> pull_status u = STATUS_PENDING \<and>
      env_clock E = Inr clock \<and> unat (pull_deadline_slot u) < unat (clock_slot clock) \<and>
      info_key V = pool_vault p \<and> from_le (slice 32 32 (data_of L buyer_ata)) = pull_buyer u \<and>
      due p (unat (pull_count u)) \<le> unat (balance L V) \<and>
      (info_key V \<noteq> info_key buyer_ata \<longrightarrow>
        unat (balance L' V) + due p (unat (pull_count u)) = unat (balance L V) \<and>
        unat (balance L' buyer_ata) = unat (balance L buyer_ata) + due p (unat (pull_count u))) \<and>
      data_of L' U = [] \<and> acct_owner (acct L' U) = env_system_id E \<and> (solvent L P V \<longrightarrow> solvent L' P V) \<and>
      load_pool L P = Inr p \<and> load_pull L U = Inr u \<and> pull_pool u = info_key P \<and> pull_buyer u = info_key buyer \<and>
      is_writable P \<and> is_writable U \<and> is_writable buyer"
proof -
  from r obtain a where a: "try_refund_accounts E L [P, U, buyer, V, buyer_ata, token_program, event_authority, program] = Inr a"
    and pr: "refund_process E a L = Inr L'" by (auto simp: refund_def)
  note A = try_refund_accounts_Inr [OF a]
  have Pl: "load_pool L P = Inr p" and Ul: "load_pull L U = Inr u" using A by (simp_all add: p_def u_def)
  note PD = pool_okD [OF P]
  from pr A Pl Ul obtain amount pending next_settle L2 L3 where
    am: "refund_amount p (ucast (pull_count u)) = Inr amount"
    and pe: "sub_ov (pool_pending_draws p) (ucast (pull_count u)) = Inr pending"
    and ns: "add_ov (pull_index u) 1 = Inr next_settle"
    and tr: "env_invoke E (TokenTransfer V buyer_ata P amount)
        [pool_signer_seeds (pool_at (put_pool P (p\<lparr>pool_pending_draws := pending, pool_next_settle := next_settle\<rparr>) L) P)]
        (put_pool P (p\<lparr>pool_pending_draws := pending, pool_next_settle := next_settle\<rparr>) L) = Inr L2"
    and cl: "close E U buyer L2 = Inr L3" and em: "emit E (RefundEvent (info_key P) (info_key U) amount) event_authority program L3 = Inr L'"
    by (auto simp: refund_process_def Let_def)
  let ?p' = "p\<lparr>pool_pending_draws := pending, pool_next_settle := next_settle\<rparr>"
  let ?L1 = "put_pool P ?p' L"
  have L': "L' = L3" using emit_same [OF ok em] .
  have p1: "pool_ok ?L1 P tags" "pool_at ?L1 P = ?p'" using pool_ok_put [OF P, of ?p'] PD(10) by (simp_all add: p_def)
  have PU: "info_key P \<noteq> info_key U" using kinds_distinct(1) [OF Pl Ul] .
  have own: "acct_owner (?L1 (info_key P)) = ID" using pool_okD(5) [OF p1(1)] by (simp add: acct_def)
  note C = close_Inr [OF ok cl]
  have "same_at (info_key P) ?L1 L'" using invoke_keeps [OF ok tr own] C PU L' by (blast intro: same_at_trans)
  then have fP: "pool_ok L' P tags" "pool_at L' P = ?p'" using p1 by (simp_all add: pool_ok_same same_at_views)
  have am': "unat amount = due p (unat (pull_count u))" using refund_amount_due [OF am] by simp
  have pe': "unat pending + unat (pull_count u) = unat (pool_pending_draws p)" using pe unfolding sub_ov_Inr by simp
  note pay = refund_payment [OF ok PD(5) Ul tr cl, folded L', unfolded am']
  have due_split: "due ?p' (unat pending) + due p (unat (pull_count u)) = due p (unat (pool_pending_draws p))"
    unfolding pe' [symmetric] by (simp add: due_def algebra_simps)
  have "solvent L P V \<longrightarrow> solvent L' P V"
  proof (cases "info_key V = info_key buyer_ata")
    case True
    then show ?thesis using pay(3) due_split unfolding solvent_def fP(2) p_def [symmetric] by simp
  next
    case False
    then show ?thesis using pay(2) due_split unfolding solvent_def fP(2) p_def [symmetric] by simp
  qed
  moreover have "next_settle = pool_next_settle p + 1" using ns A by (auto simp: add_ov_def p_def u_def split: if_splits)
  moreover have "is_writable P" "is_writable U" "is_writable buyer" using A by simp_all
  moreover have "pull_pool u = info_key P" "pull_buyer u = info_key buyer" "pull_index u = pool_next_settle p" "pull_status u = STATUS_PENDING"
    "info_key V = pool_vault p" "from_le (slice 32 32 (data_of L buyer_ata)) = info_key buyer"
    using A by (simp_all add: p_def u_def)
  moreover obtain clock where "env_clock E = Inr clock" "unat (pull_deadline_slot u) < unat (clock_slot clock)"
    using A by (auto simp: u_def)
  ultimately show ?thesis using fP pe' pay(1,2) C L' Pl Ul by (intro exI [of _ pending] exI [of _ clock]) simp
qed

text \<open>
  C8: a refund pays the head of the pool's queue its price plus the bond, once. It succeeds only for a
  pending pull of this very pool whose index is the next to settle, after its deadline; the amount goes
  from the pool's vault to a token account of the recorded buyer, the reservation is released, the
  queue advances by one, the pull account is closed, and a vault that covered all refunds still covers
  the others.
\<close>

theorem refund_pays_head:
  assumes ok: "runtime_ok E" and P: "pool_ok L P tags"
    and r: "refund E [P, U, buyer, V, buyer_ata, token_program, event_authority, program] L = Inr L'"
  defines "p \<equiv> pool_at L P" and "u \<equiv> pull_at L U"
  shows "\<exists>pending clock. pool_at L' P = p\<lparr>pool_pending_draws := pending, pool_next_settle := pool_next_settle p + 1\<rparr> \<and>
      unat pending + unat (pull_count u) = unat (pool_pending_draws p) \<and> pool_ok L' P tags \<and>
      pull_index u = pool_next_settle p \<and> pull_status u = STATUS_PENDING \<and>
      env_clock E = Inr clock \<and> unat (pull_deadline_slot u) < unat (clock_slot clock) \<and>
      info_key V = pool_vault p \<and> from_le (slice 32 32 (data_of L buyer_ata)) = pull_buyer u \<and>
      due p (unat (pull_count u)) \<le> unat (balance L V) \<and>
      (info_key V \<noteq> info_key buyer_ata \<longrightarrow>
        unat (balance L' V) + due p (unat (pull_count u)) = unat (balance L V) \<and>
        unat (balance L' buyer_ata) = unat (balance L buyer_ata) + due p (unat (pull_count u))) \<and>
      data_of L' U = [] \<and> acct_owner (acct L' U) = env_system_id E \<and> (solvent L P V \<longrightarrow> solvent L' P V) \<and>
      load_pool L P = Inr p \<and> load_pull L U = Inr u \<and> pull_pool u = info_key P \<and> pull_buyer u = info_key buyer \<and>
      is_writable P \<and> is_writable U \<and> is_writable buyer"
  unfolding p_def u_def by (rule refund_Inr [OF ok P r])

end
