(* ===== verification/Draw_Correct.thy ===== *)
theory Draw_Correct
  imports Stock_Correct
begin

section \<open>Settlement implements a reference draw\<close>

text \<open>
  The reference draw works on the list of tags: with the counts of the pinned prefix, draw \<open>i\<close> hashes
  the VRF output with \<open>i\<close>, picks a tier by weight and a rank, and takes that available position. The
  loop of \<open>draw\<close> over the Item accounts, which works on the bytes of the accounts, records exactly
  the reference draws.
\<close>

definition prefix_words :: "u8 list \<Rightarrow> nat \<Rightarrow> u32 list" where
  "prefix_words tags c = map (\<lambda>t. word_of_nat (prefix_count tags t c)) [0..<MAX_TIERS]"

fun reference_draws :: "env \<Rightarrow> pool \<Rightarrow> bytes \<Rightarrow> nat \<Rightarrow> u8 list \<Rightarrow> nat \<Rightarrow> nat \<Rightarrow> (u8 \<times> nat) list result" where
  "reference_draws E p beta c tags i 0 = Inr []"
| "reference_draws E p beta c tags i (Suc n) =
     and_then (pool_draw p (env_sha256 E (beta @ [word_of_nat i])) (prefix_words tags c)) (\<lambda>(tier, rank).
     let position = available tags (unat tier) ! unat rank in
     and_then (reference_draws E p beta c (tags[position := 0]) (Suc i) n) (\<lambda>rest.
     Inr ((tier, position) # rest)))"

lemma reference_draws_length: "reference_draws E p beta c tags i n = Inr ds \<Longrightarrow> length ds = n"
  by (induction n arbitrary: tags i ds) (auto simp: Let_def split: prod.splits)

lemma prefix_words_eqI:
  assumes "length av = 8" "\<And>t. t < 8 \<Longrightarrow> unat (av ! t) = prefix_count tags t c" "length tags < 2 ^ 32"
  shows "av = prefix_words tags c"
proof (rule nth_equalityI)
  show "length av = length (prefix_words tags c)" by (simp add: assms(1) prefix_words_def)
  fix t assume "t < length av"
  then have t: "t < 8" using assms(1) by simp
  have "prefix_count tags t c < 2 ^ 32" using prefix_count_le [of tags t c] assms(3) by linarith
  then have "unat (word_of_nat (prefix_count tags t c) :: u32) = prefix_count tags t c"
    by (simp add: unat_of_nat)
  moreover have "prefix_words tags c ! t = word_of_nat (prefix_count tags t c)"
    using t by (simp add: prefix_words_def del: upt_conv_Cons)
  ultimately show "av ! t = prefix_words tags c ! t"
    using assms(2) [OF t] by (simp add: word_unat_eq_iff)
qed

lemma prefix_words_nth:
  assumes "t < 8" "length tags < 2 ^ 32"
  shows "unat (prefix_words tags c ! t) = prefix_count tags t c"
proof -
  have "prefix_count tags t c < 2 ^ 32" using prefix_count_le [of tags t c] assms(2) by linarith
  then show ?thesis using assms(1) by (simp add: prefix_words_def unat_of_nat del: upt_conv_Cons)
qed

lemma length_prefix_words [simp]: "length (prefix_words tags c) = 8"
  by (simp add: prefix_words_def)

text \<open>A rank below the prefix count selects a position that the prefix determines.\<close>

lemma available_take:
  assumes "r < prefix_count tags t c"
  shows "available (take c tags) t ! r = available tags t ! r"
  by (rule index.available_prefix [of r "take c tags" t c]) (use assms in \<open>simp_all add: prefix_count_def\<close>)

text \<open>A pool keeps the odds of its draw as long as it keeps its terms.\<close>

lemma pool_draw_terms:
  assumes "pool_terms p' = pool_terms p" "pool_wf p" "pool_wf p'"
  shows "pool_draw p' hash cs = pool_draw p hash cs"
proof (rule pool_draw_weights [OF assms(2,3)])
  show "pool_tier_count p' = pool_tier_count p"
    using arg_cong [OF assms(1), of pool_tier_count] by (simp add: pool_terms_def)
  have "map (\<lambda>t. t\<lparr>tier_remaining := 0\<rparr>) (pool_tiers_all p') = map (\<lambda>t. t\<lparr>tier_remaining := 0\<rparr>) (pool_tiers_all p)"
    using arg_cong [OF assms(1), of pool_tiers_all] by (simp add: pool_terms_def)
  from arg_cong [OF this, of "map tier_weight"]
  show "map tier_weight (pool_tiers_all p') = map tier_weight (pool_tiers_all p)" by (simp add: comp_def)
qed

text \<open>The accounts of one draw before and after it.\<close>

definition drew ::
  "env \<Rightarrow> ledger \<Rightarrow> account_info \<Rightarrow> account_info \<Rightarrow> u8 list \<Rightarrow> nat \<Rightarrow> account_info \<Rightarrow> u8 \<Rightarrow> nat \<Rightarrow> ledger \<Rightarrow> bool" where
  "drew E L P U tags i I tier position L' \<longleftrightarrow>
     stock_step L P (tags[position := 0]) L' \<and>
     (\<exists>it. load_item L I = Inr it \<and> item_pool it = info_key P \<and> item_tier it = tier \<and>
       unat (item_position it) = position \<and> load_pull L' U = Inr (pull_at L' U) \<and>
       pull_set_outcome i tier (item_asset it) (pull_at L U) = Inr (pull_at L' U)) \<and>
     acct_owner (acct L' I) = env_system_id E \<and> data_of L' I = [] \<and>
     (\<forall>k. k \<noteq> info_key P \<longrightarrow> k \<noteq> info_key U \<longrightarrow> k \<noteq> info_key I \<longrightarrow> same_at k L L')"

lemma count_cleared:
  assumes "p < length tags" "tags ! p = tier_tag s" "s < 8" "t < 8"
  shows "count_list (tags[p := 0]) (tier_tag t) + of_bool (t = s) = count_list tags (tier_tag t)"
  using prefix_count_clear [OF assms, of "length tags"] assms(1) by (simp add: prefix_count_beyond)

text \<open>Clearing the tag of a position whose tier loses one from its counter.\<close>

lemma stock_step_clear:
  assumes P: "pool_ok L P tags" and pos: "position < length tags" "tags ! position = tier_tag (unat tier)" "unat tier < 8"
    and d: "index_rep d (tags[position := 0])"
    and upd: "update_remaining (\<lambda>r. sub_ov r 1) tier (pool_at L P) = Inr p'"
  shows "stock_step L P (tags[position := 0]) (put_pool P p' (put_index P d L))"
proof (rule stock_step_update [OF pool_okD(1,2) [OF P] upd d])
  show "length (tags[position := 0]) = unat (pool_inventory_version (pool_at L P))"
    using pool_okD(4) [OF P] by simp
  fix t :: nat assume t: "t < 8"
  let ?p = "pool_at L P"
  obtain r where sub: "sub_ov (tier_remaining (pool_tiers_all ?p ! unat tier)) 1 = Inr r"
    and r2: "unat tier < unat (pool_tier_count ?p)"
    and r3: "p' = ?p\<lparr>pool_tiers_all := (pool_tiers_all ?p)
      [unat tier := (pool_tiers_all ?p ! unat tier)\<lparr>tier_remaining := r\<rparr>]\<rparr>"
    using upd by (rule update_remaining_Inr)
  have r1: "unat r + 1 = unat (tier_remaining (pool_tiers_all ?p ! unat tier))"
    using sub unfolding sub_ov_Inr by simp
  have old: "count_list tags (tier_tag t) =
      (if t < unat (pool_tier_count ?p) then unat (tier_remaining (pool_tiers_all ?p ! t)) else 0)"
    using P t by (simp add: pool_ok_def)
  have new: "count_list (tags[position := 0]) (tier_tag t) + of_bool (t = unat tier) = count_list tags (tier_tag t)"
    using count_cleared [OF pos t] .
  have count: "pool_tier_count p' = pool_tier_count ?p" unfolding r3 by simp
  have rem: "tier_remaining (pool_tiers_all p' ! t) =
      (if t = unat tier then r else tier_remaining (pool_tiers_all ?p ! t))"
    using pool_okD(9) [OF P] t unfolding r3 by (simp add: nth_list_update)
  show "count_list (tags[position := 0]) (tier_tag t) =
      (if t < unat (pool_tier_count p') then unat (tier_remaining (pool_tiers_all p' ! t)) else 0)"
  proof (cases "t = unat tier")
    case True
    then have "count_list (tags[position := 0]) (tier_tag t) = unat r" using new old r1 r2 by simp
    with True r2 show ?thesis unfolding count rem by simp
  next
    case False
    with new old show ?thesis unfolding count rem by simp
  qed
qed

text \<open>The tier exists and the rank is within the prefix.\<close>

lemma draw_choice:
  assumes P: "pool_ok L P tags" and dr: "pool_draw (pool_at L P) hash (prefix_words tags c) = Inr (tier, rank)"
  shows "unat tier < 8" "unat rank < prefix_count tags (unat tier) c"
proof -
  note PD = pool_okD [OF P] and cases = pool_draw_cases [OF pool_okD(2) [OF P], of "prefix_words tags c" hash]
  have "sum_list (eligible (tiers_of (pool_at L P)) (prefix_words tags c)) \<noteq> 0"
    using cases dr by (auto split: if_splits)
  then have "unat tier < unat (pool_tier_count (pool_at L P))" "unat rank < unat (prefix_words tags c ! unat tier)"
    using cases dr by (auto split: if_splits)
  then show "unat tier < 8" "unat rank < prefix_count tags (unat tier) c"
    using PD(8) prefix_words_nth [OF _ index.bounded [OF PD(3)]] by simp_all
qed

text \<open>The counts that the loop carries stay the counts of the prefix.\<close>

lemma prefix_words_clear:
  assumes "sub_ov (prefix_words tags c ! t) 1 = Inr a" "t < 8" "length tags < 2 ^ 32"
    and clear: "\<And>s. s < 8 \<Longrightarrow> prefix_count (tags[p := 0]) s c + of_bool (s = t) = prefix_count tags s c"
  shows "(prefix_words tags c)[t := a] = prefix_words (tags[p := 0]) c"
proof (rule prefix_words_eqI)
  fix s :: nat assume s: "s < 8"
  have "unat a + 1 = prefix_count tags t c" using assms(1) prefix_words_nth [OF assms(2,3)] by (simp add: sub_ov_Inr)
  then show "unat ((prefix_words tags c)[t := a] ! s) = prefix_count (tags[p := 0]) s c"
    using clear [OF s] s prefix_words_nth [OF s assms(3)] assms(2) by (cases "s = t") simp_all
qed (use assms(3) in simp_all)

text \<open>A pull with one more award is still a pull.\<close>

lemma put_pull_outcome:
  assumes "load_pull L U = Inr v" "pull_set_outcome i tier asset v = Inr u"
  shows "load_pull (put_pull U u L) U = Inr u"
proof -
  have "pull_wf v" using assms(1) pull_wf_at [of L U] by (simp add: load_pull_Inr)
  then have "pull_wf u" "pull_version u = pull_version v"
    using assms(2) by (auto simp: pull_set_outcome_def pull_wf_def split: if_splits)
  with put_pull_views [of u, where a = U and L = L] assms(1) show ?thesis by (auto simp: load_pull_Inr)
qed

text \<open>The writes of a draw: the index and the pool, the pull, and the closed Item account.\<close>

lemma draw_writes:
  assumes ok: "runtime_ok E" and keys: "info_key P \<noteq> info_key U" "info_key P \<noteq> info_key I" "info_key U \<noteq> info_key I"
    and cl: "close E I O' (put_pull U u (put_index P idx L)) = Inr L3" and L': "L' = put_pool P p' L3"
  shows "pool_at L3 P = pool_at (put_index P idx L) P"
    "same_at (info_key P) (put_pool P p' (put_index P idx L)) L'"
    "same_at (info_key U) (put_pull U u (put_index P idx L)) L'"
    "acct_owner (acct L' I) = env_system_id E" "data_of L' I = []"
    "k \<noteq> info_key P \<Longrightarrow> k \<noteq> info_key U \<Longrightarrow> k \<noteq> info_key I \<Longrightarrow> same_at k L L'"
proof -
  note C = close_Inr [OF ok cl]
  have last: "same_at k L3 L'" if "k \<noteq> info_key P" for k unfolding L' using put_frame(1) [OF that] .
  have P: "same_at (info_key P) (put_index P idx L) L3"
    using same_at_trans [OF put_frame(3) [OF keys(1)]] C keys(2) by blast
  then show "pool_at L3 P = pool_at (put_index P idx L) P" by (rule same_at_views(4))
  show "same_at (info_key P) (put_pool P p' (put_index P idx L)) L'"
    using P unfolding L' by (simp add: same_at_def put_pool_def write_data_def data_of_def)
  show "same_at (info_key U) (put_pull U u (put_index P idx L)) L'"
    using C keys(3) last [OF keys(1) [symmetric]] by (blast intro: same_at_trans)
  show "acct_owner (acct L' I) = env_system_id E" "data_of L' I = []"
    using C same_at_data [OF last [OF keys(2) [symmetric]]] by simp_all
  show "same_at k L L'" if "k \<noteq> info_key P" "k \<noteq> info_key U" "k \<noteq> info_key I"
    using put_frame(4) [OF that(1)] put_frame(3) [OF that(2)] C last [OF that(1)] that(3) by (meson same_at_trans)
qed

lemma draw_one_Inr:
  assumes ok: "runtime_ok E" and P: "pool_ok L P tags" and U: "load_pull L U = Inr (pull_at L U)"
    and d: "draw_one E P U O' beta i (prefix_words tags c) I L = Inr (av', L')"
  shows "\<exists>tier rank. pool_draw (pool_at L P) (env_sha256 E (beta @ [word_of_nat i])) (prefix_words tags c) = Inr (tier, rank) \<and>
    drew E L P U tags i I tier (available tags (unat tier) ! unat rank) L' \<and>
    available tags (unat tier) ! unat rank < c \<and> available tags (unat tier) ! unat rank < length tags \<and>
    tags ! (available tags (unat tier) ! unat rank) = tier_tag (unat tier) \<and> unat tier < 8 \<and>
    av' = prefix_words (tags[available tags (unat tier) ! unat rank := 0]) c"
proof -
  note PD = pool_okD [OF P]
  from d obtain tier rank idx position a' it u L3 p' where
    dr: "pool_draw (pool_at L P) (env_sha256 E (beta @ [word_of_nat i])) (prefix_words tags c) = Inr (tier, rank)"
    and tk: "index_take (index_at L P) tier rank = Inr (idx, position)"
    and av: "sub_ov (prefix_words tags c ! unat tier) 1 = Inr a'" "av' = (prefix_words tags c)[unat tier := a']"
    and it: "load_item (put_index P idx L) I = Inr it"
    and it_ok: "item_pool it = info_key P" "item_tier it = tier" "item_position it = position"
    and u: "pull_set_outcome i tier (item_asset it) (pull_at (put_index P idx L) U) = Inr u"
    and cl: "close E I O' (put_pull U u (put_index P idx L)) = Inr L3"
    and upd: "update_remaining (\<lambda>r. sub_ov r 1) tier (pool_at L3 P) = Inr p'"
    and L': "L' = put_pool P p' L3"
    by (auto simp: draw_one_def Let_def split: if_splits)
  let ?L1 = "put_index P idx L" and ?t = "unat tier"
  note choice = draw_choice [OF P dr]
  obtain idx' position' where sel: "index_take (index_at L P) tier rank = Inr (idx', position')"
    "index_rep idx' (tags[unat position' := 0])" "unat position' < c" "unat position' < length tags"
    "tags ! unat position' = tier_tag ?t" "unat position' = available tags ?t ! unat rank"
    "\<And>s. s < 8 \<Longrightarrow> prefix_count (tags[unat position' := 0]) s c + of_bool (s = ?t) = prefix_count tags s c"
    by (rule index.select_in_prefix [OF PD(3) choice]) (rule that)
  then have same: "idx' = idx" "position' = position" using tk by simp_all
  note sel = sel [unfolded same]
  have PU: "info_key P \<noteq> info_key U" using kinds_distinct(1) [OF PD(1) U] .
  have PI: "info_key P \<noteq> info_key I"
    using put_index_views(3) [OF PD(7), of idx] it by (auto simp: load_item_Inr data_of_def)
  have s1: "same_at k L ?L1" if "k \<noteq> info_key P" for k by (rule put_frame(4) [OF that])
  have it0: "load_item L I = Inr it" using it same_at_views(2) [OF s1 [OF PI [symmetric]]] by simp
  note sU = same_at_views(3,5) [OF s1 [OF PU [symmetric]]]
  note W = draw_writes [OF ok PU PI kinds_distinct(3) [OF U it0] cl L']
  have "stock_step L P (tags[unat position := 0]) (put_pool P p' ?L1)"
    using stock_step_clear [OF P sel(4,5) choice(1) sel(2)] upd W(1) put_index_views(1) [OF PD(7)] by simp
  then have "stock_step L P (tags[unat position := 0]) L'"
    using W(2) by (simp add: stock_step_def pool_ok_same same_at_views)
  moreover have "load_pull (put_pull U u ?L1) U = Inr u" using put_pull_outcome [OF _ u] U sU by simp
  then have "load_pull L' U = Inr u" using same_at_views(3) [OF W(3)] by simp
  then have "load_pull L' U = Inr (pull_at L' U) \<and> u = pull_at L' U" by (auto simp: load_pull_Inr)
  ultimately have "drew E L P U tags i I tier (unat position) L'"
    using it0 it_ok u sU W(4-6) unfolding drew_def by simp
  moreover have "av' = prefix_words (tags[unat position := 0]) c"
    unfolding av(2) by (rule prefix_words_clear [OF av(1) choice(1) index.bounded [OF PD(3)] sel(7)])
  ultimately show ?thesis using dr sel(3-6) choice(1) by metis
qed

text \<open>
  The whole loop: the awards written to the pull are the reference draws, each at the position of
  the Item account passed for it.
\<close>

definition awards :: "ledger \<Rightarrow> account_info \<Rightarrow> (u8 \<times> nat) list \<Rightarrow> account_info list \<Rightarrow> bool" where
  "awards L P ds items \<longleftrightarrow> list_all2 (\<lambda>(tier, position) I. \<exists>it. load_item L I = Inr it \<and>
     item_pool it = info_key P \<and> item_tier it = tier \<and> unat (item_position it) = position) ds items"

definition clear_positions :: "u8 list \<Rightarrow> nat list \<Rightarrow> u8 list" where
  "clear_positions tags ps = foldl (\<lambda>tags p. tags[p := 0]) tags ps"

lemma clear_positions_simps [simp]:
  "clear_positions tags [] = tags"
  "clear_positions tags (p # ps) = clear_positions (tags[p := 0]) ps"
  by (simp_all add: clear_positions_def)

lemma length_clear_positions [simp]: "length (clear_positions tags ps) = length tags"
  by (induction ps arbitrary: tags) simp_all

lemma set_outcome_other:
  "pull_set_outcome i tier asset u = Inr u' \<Longrightarrow> j \<noteq> i \<Longrightarrow> pull_outcomes u' ! j = pull_outcomes u ! j"
  "pull_set_outcome i tier asset u = Inr u' \<Longrightarrow>
    pull_outcomes u' ! i = \<lparr>outcome_tier = tier, outcome_asset = asset\<rparr> \<and> i < length (pull_outcomes u') \<and>
    u'\<lparr>pull_outcomes := []\<rparr> = u\<lparr>pull_outcomes := []\<rparr>"
  by (auto simp: pull_set_outcome_def split: if_splits)

text \<open>What a run of draws has done, given the reference draws \<open>ds\<close>.\<close>

definition drew_all ::
  "env \<Rightarrow> ledger \<Rightarrow> account_info \<Rightarrow> account_info \<Rightarrow> u8 list \<Rightarrow> nat \<Rightarrow> nat \<Rightarrow> account_info list \<Rightarrow> (u8 \<times> nat) list \<Rightarrow> ledger \<Rightarrow> bool"
where
  "drew_all E L P U tags c i items ds L' \<longleftrightarrow> length ds = length items \<and>
    stock_step L P (clear_positions tags (map snd ds)) L' \<and> load_pull L' U = Inr (pull_at L' U) \<and>
    pull_at L' U\<lparr>pull_outcomes := []\<rparr> = pull_at L U\<lparr>pull_outcomes := []\<rparr> \<and>
    awards L P ds items \<and>
    (\<forall>j. j < i \<longrightarrow> pull_outcomes (pull_at L' U) ! j = pull_outcomes (pull_at L U) ! j) \<and>
    (\<forall>n < length items. \<exists>it. load_item L (items ! n) = Inr it \<and> i + n < MAX_COUNT \<and>
      pull_outcomes (pull_at L' U) ! (i + n) = \<lparr>outcome_tier = fst (ds ! n), outcome_asset = item_asset it\<rparr>) \<and>
    (\<forall>I \<in> set items. data_of L' I = [] \<and> acct_owner (acct L' I) = env_system_id E) \<and>
    (\<forall>(tier, position) \<in> set ds. position < c \<and> position < length tags \<and> unat tier < 8 \<and>
      tags ! position = tier_tag (unat tier)) \<and> distinct (map snd ds) \<and>
    (\<forall>k. k \<noteq> info_key P \<longrightarrow> k \<noteq> info_key U \<longrightarrow> k \<notin> info_key ` set items \<longrightarrow> same_at k L L')"

text \<open>An Item that is loaded after a draw is another one, and was there before.\<close>

lemma drew_others:
  assumes ok: "runtime_ok E" and d: "drew E L P U tags i I tier position L1" and J: "load_item L1 J = Inr j"
  shows "info_key J \<noteq> info_key P" "info_key J \<noteq> info_key U" "info_key J \<noteq> info_key I" "load_item L J = Inr j"
proof -
  have D: "pool_ok L1 P (tags[position := 0])" "load_pull L1 U = Inr (pull_at L1 U)" "acct_owner (acct L1 I) = env_system_id E"
    and frame: "\<And>k. k \<noteq> info_key P \<Longrightarrow> k \<noteq> info_key U \<Longrightarrow> k \<noteq> info_key I \<Longrightarrow> same_at k L L1"
    using d by (auto simp: drew_def stock_step_def)
  have "acct_owner (acct L1 J) = ID" using J by (simp add: load_item_Inr)
  then show JI: "info_key J \<noteq> info_key I" using D(3) runtime_okD(2) [OF ok] by (auto simp: acct_def)
  show JP: "info_key J \<noteq> info_key P" using kinds_distinct(2) [OF pool_okD(1) [OF D(1)] J] by simp
  show JU: "info_key J \<noteq> info_key U" using kinds_distinct(3) [OF D(2) J] by simp
  show "load_item L J = Inr j" using same_at_views(2) [OF frame [OF JP JU JI]] J by simp
qed

text \<open>The awards of the run: the first draw wrote its own, the others kept it.\<close>

lemma drew_outcomes:
  assumes d: "drew E L P U tags i I tier position L1" and ok: "runtime_ok E"
    and all: "drew_all E L1 P U tags' c (Suc i) items ds L'" and n: "n < length (I # items)"
  shows "\<exists>it. load_item L ((I # items) ! n) = Inr it \<and> i + n < MAX_COUNT \<and>
    pull_outcomes (pull_at L' U) ! (i + n) = \<lparr>outcome_tier = fst (((tier, position) # ds) ! n), outcome_asset = item_asset it\<rparr>"
proof (cases n)
  case 0
  obtain it where it: "load_item L I = Inr it" "pull_set_outcome i tier (item_asset it) (pull_at L U) = Inr (pull_at L1 U)"
    using d by (auto simp: drew_def)
  moreover have "pull_outcomes (pull_at L' U) ! i = pull_outcomes (pull_at L1 U) ! i" using all by (simp add: drew_all_def)
  ultimately show ?thesis
    using 0 set_outcome_other(2) [OF it(2)] pull_wf_at [of L1 U] by (simp add: pull_wf_def)
next
  case (Suc m)
  with n all obtain it where "load_item L1 (items ! m) = Inr it" "Suc i + m < MAX_COUNT"
    "pull_outcomes (pull_at L' U) ! (Suc i + m) = \<lparr>outcome_tier = fst (ds ! m), outcome_asset = item_asset it\<rparr>"
    by (auto simp: drew_all_def)
  with drew_others(4) [OF ok d] Suc show ?thesis by auto
qed

lemma drew_all_Cons:
  assumes ok: "runtime_ok E" and P: "pool_ok L P tags" and U: "load_pull L U = Inr (pull_at L U)"
    and d: "drew E L P U tags i I tier position L1"
    and pos: "position < c" "position < length tags" "tags ! position = tier_tag (unat tier)" "unat tier < 8"
    and all: "drew_all E L1 P U (tags[position := 0]) c (Suc i) items ds L'"
  shows "drew_all E L P U tags c i (I # items) ((tier, position) # ds) L'"
proof -
  note A = all [unfolded drew_all_def] and others = drew_others [OF ok d]
  obtain it where it: "load_item L I = Inr it" "item_pool it = info_key P" "item_tier it = tier"
    "unat (item_position it) = position" and set: "pull_set_outcome i tier (item_asset it) (pull_at L U) = Inr (pull_at L1 U)"
    using d by (auto simp: drew_def)
  have D: "stock_step L P (tags[position := 0]) L1" "data_of L1 I = []" "acct_owner (acct L1 I) = env_system_id E"
    and frame: "\<And>k. k \<noteq> info_key P \<Longrightarrow> k \<noteq> info_key U \<Longrightarrow> k \<noteq> info_key I \<Longrightarrow> same_at k L L1"
    using d by (auto simp: drew_def)
  have loaded: "\<exists>j. load_item L1 J = Inr j" if "J \<in> set items" for J using A that by (metis in_set_conv_nth)
  have fresh: "info_key I \<noteq> info_key P" "info_key I \<noteq> info_key U" "info_key I \<notin> info_key ` set items"
    using kinds_distinct(2) [OF pool_okD(1) [OF P] it(1)] kinds_distinct(3) [OF U it(1)] others(3) loaded by force+
  have later: "position' < length tags \<and> position' \<noteq> position \<and> position' < c \<and> unat t < 8 \<and> tags ! position' = tier_tag (unat t)"
    if "(t, position') \<in> set ds" for t position'
    using A that pos(2) by (cases "position' = position") auto
  have "awards L P ds items"
    unfolding awards_def using A others(4)
    by (auto simp: awards_def list_all2_conv_all_nth split_beta)
  moreover have "data_of L' I = [] \<and> acct_owner (acct L' I) = env_system_id E"
    using D(2,3) A same_at_data [of I L1 L'] fresh by simp
  moreover have "same_at k L L'" if "k \<noteq> info_key P" "k \<noteq> info_key U" "k \<notin> info_key ` set (I # items)" for k
    using frame [of k] A that by (auto intro: same_at_trans)
  moreover have "pull_outcomes (pull_at L' U) ! j = pull_outcomes (pull_at L U) ! j" if "j < i" for j
    using A set_outcome_other(1) [OF set, of j] that by simp
  moreover have "position \<notin> snd ` set ds" using later by fastforce
  ultimately show ?thesis
    unfolding drew_all_def
    using A it stock_step_trans [OF D(1)] set_outcome_other(2) [OF set] later pos drew_outcomes [OF d ok all]
    by (auto simp: awards_def simp del: length_Cons)
qed

lemma draw_items_drew_all:
  assumes ok: "runtime_ok E" and "pool_ok L P tags" and "load_pull L U = Inr (pull_at L U)"
    and "draw_items E P U O' beta i (prefix_words tags c) items L = Inr L'"
    and "pool_wf p0" "pool_terms (pool_at L P) = pool_terms p0"
  shows "\<exists>ds. reference_draws E p0 beta c tags i (length items) = Inr ds \<and> drew_all E L P U tags c i items ds L'"
  using assms(2-4,6)
proof (induction items arbitrary: i tags L)
  case Nil
  then show ?case by (simp add: drew_all_def awards_def stock_step_def pool_okD(1))
next
  case (Cons I items)
  from Cons.prems(3) obtain av1 L1 where
    one: "draw_one E P U O' beta i (prefix_words tags c) I L = Inr (av1, L1)"
    and rest: "draw_items E P U O' beta (Suc i) av1 items L1 = Inr L'" by auto
  from draw_one_Inr [OF ok Cons.prems(1,2) one] obtain tier rank position where
    dr: "pool_draw (pool_at L P) (env_sha256 E (beta @ [word_of_nat i])) (prefix_words tags c) = Inr (tier, rank)"
    and drew: "drew E L P U tags i I tier position L1"
    and pos: "position = available tags (unat tier) ! unat rank" "position < c" "position < length tags"
      "tags ! position = tier_tag (unat tier)" "unat tier < 8"
    and av1: "av1 = prefix_words (tags[position := 0]) c" by blast
  have P1: "pool_ok L1 P (tags[position := 0])" "load_pull L1 U = Inr (pull_at L1 U)"
    and terms: "pool_terms (pool_at L1 P) = pool_terms p0"
    using Cons.prems(4) drew by (auto simp: drew_def stock_step_def)
  from Cons.IH [OF P1 rest [unfolded av1] terms] obtain ds where
    ds: "reference_draws E p0 beta c (tags[position := 0]) (Suc i) (length items) = Inr ds"
    and all: "drew_all E L1 P U (tags[position := 0]) c (Suc i) items ds L'" by blast
  have "pool_draw p0 (env_sha256 E (beta @ [word_of_nat i])) (prefix_words tags c) = Inr (tier, rank)"
    using dr pool_draw_terms [OF Cons.prems(4) assms(5)] by simp
  then have "reference_draws E p0 beta c tags i (length (I # items)) = Inr ((tier, position) # ds)"
    using ds pos(1) by (simp add: Let_def)
  with drew_all_Cons [OF ok Cons.prems(1,2) drew pos(2-5) all] show ?case by blast
qed

lemma draw_items_Inr:
  assumes ok: "runtime_ok E" and "pool_ok L P tags" and "load_pull L U = Inr (pull_at L U)"
    and "draw_items E P U O' beta i (prefix_words tags c) items L = Inr L'"
    and "pool_wf p0" "pool_terms (pool_at L P) = pool_terms p0"
  shows "\<exists>ds. reference_draws E p0 beta c tags i (length items) = Inr ds \<and> length ds = length items \<and>
    stock_step L P (clear_positions tags (map snd ds)) L' \<and> load_pull L' U = Inr (pull_at L' U) \<and>
    pull_at L' U\<lparr>pull_outcomes := []\<rparr> = pull_at L U\<lparr>pull_outcomes := []\<rparr> \<and>
    awards L P ds items \<and>
    (\<forall>j. j < i \<longrightarrow> pull_outcomes (pull_at L' U) ! j = pull_outcomes (pull_at L U) ! j) \<and>
    (\<forall>n < length items. \<exists>it. load_item L (items ! n) = Inr it \<and> i + n < MAX_COUNT \<and>
      pull_outcomes (pull_at L' U) ! (i + n) = \<lparr>outcome_tier = fst (ds ! n), outcome_asset = item_asset it\<rparr>) \<and>
    (\<forall>I \<in> set items. data_of L' I = [] \<and> acct_owner (acct L' I) = env_system_id E) \<and>
    (\<forall>(tier, position) \<in> set ds. position < c \<and> position < length tags \<and> unat tier < 8 \<and>
      tags ! position = tier_tag (unat tier)) \<and> distinct (map snd ds) \<and>
    (\<forall>k. k \<noteq> info_key P \<longrightarrow> k \<noteq> info_key U \<longrightarrow> k \<notin> info_key ` set items \<longrightarrow> same_at k L L')"
  using draw_items_drew_all [OF assms] unfolding drew_all_def .

end
