(* ===== verification/Operator_Correct.thy ===== *)
theory Operator_Correct
  imports Vault Draw_Correct
begin

section \<open>Settlement and delivery\<close>

text \<open>
  A settlement turns the head of the queue into recorded awards, drawn from the verified output
  within the prefix that the purchase pinned; a delivery hands out one recorded award, once.
\<close>

subsection \<open>Settle\<close>

lemma try_settle_accounts_Inr:
  assumes "try_settle_accounts E L (operator # P # U # items @ [event_authority, program]) = Inr a"
  shows "load_pool L P = Inr (pool_at L P) \<and> load_pull L U = Inr (pull_at L U) \<and>
    pool_operator (pool_at L P) = info_key operator \<and> pull_pool (pull_at L U) = info_key P \<and>
    pull_status (pull_at L U) = STATUS_PENDING \<and> pull_index (pull_at L U) = pool_next_settle (pool_at L P) \<and>
    (\<exists>clock. env_clock E = Inr clock \<and> unat (clock_slot clock) \<le> unat (pull_deadline_slot (pull_at L U))) \<and>
    length items = unat (pull_count (pull_at L U)) \<and>
    a = \<lparr>st_operator = operator, st_pool = P, st_pull = U, st_items = items,
      st_event_authority = event_authority, st_program = program\<rparr>"
  using assms
  by (auto simp: try_settle_accounts_def Let_def load_pool_Inr load_pull_Inr not_less word_le_nat_alt nth_append split: if_splits)

text \<open>Drawing counts from the reference: the sum over the positions of a prefix.\<close>

lemma index_counts_prefix:
  assumes "index_rep d tags" "unat cutoff \<le> length tags" "index_counts d cutoff = Inr av"
  shows "av = prefix_words tags (unat cutoff)"
proof -
  obtain r where r: "index_counts d cutoff = Inr r" "length r = 8" "\<forall>t < 8. unat (r ! t) = prefix_count tags t (unat cutoff)"
    using index.counts_law [OF assms(1,2)] by blast
  have "r = prefix_words tags (unat cutoff)"
    by (rule prefix_words_eqI) (use r index.bounded [OF assms(1)] in auto)
  with r(1) assms(3) show ?thesis by simp
qed

text \<open>The writes after the draws: the reservation, the queue and the status of the pull.\<close>

definition settle_finish :: "account_info \<Rightarrow> account_info \<Rightarrow> u64 \<Rightarrow> u64 \<Rightarrow> ledger \<Rightarrow> ledger" where
  "settle_finish P U pending next_settle L =
     (let L = put_pool P ((pool_at L P)\<lparr>pool_pending_draws := pending\<rparr>) L;
       L = put_pool P ((pool_at L P)\<lparr>pool_next_settle := next_settle\<rparr>) L
      in put_pull U ((pull_at L U)\<lparr>pull_status := STATUS_SETTLED\<rparr>) L)"

lemma settle_finish_views:
  assumes P: "pool_ok L P tags" and U: "load_pull L U = Inr (pull_at L U)"
    and fin: "L' = settle_finish P U pending next_settle L"
  shows "pool_ok L' P tags" "pool_at L' P = (pool_at L P)\<lparr>pool_pending_draws := pending, pool_next_settle := next_settle\<rparr>"
    "load_pull L' U = Inr ((pull_at L U)\<lparr>pull_status := STATUS_SETTLED\<rparr>)"
    "k \<noteq> info_key P \<Longrightarrow> k \<noteq> info_key U \<Longrightarrow> same_at k L L'"
proof -
  let ?p1 = "(pool_at L P)\<lparr>pool_pending_draws := pending\<rparr>" and ?u = "(pull_at L U)\<lparr>pull_status := STATUS_SETTLED\<rparr>"
  let ?L1 = "put_pool P ?p1 L" and ?L2 = "put_pool P (?p1\<lparr>pool_next_settle := next_settle\<rparr>) (put_pool P ?p1 L)"
  have PU: "info_key P \<noteq> info_key U" using kinds_distinct(1) [OF pool_okD(1) [OF P] U] .
  have P1: "pool_ok ?L1 P tags" "pool_at ?L1 P = ?p1"
    using pool_ok_put [OF P, of ?p1] pool_okD(10) [OF P] by simp_all
  have P2: "pool_ok ?L2 P tags" "pool_at ?L2 P = ?p1\<lparr>pool_next_settle := next_settle\<rparr>"
    using pool_ok_put [OF P1(1), of "?p1\<lparr>pool_next_settle := next_settle\<rparr>"] pool_okD(10) [OF P1(1)] P1(2) by simp_all
  have s2: "same_at k L ?L2" if "k \<noteq> info_key P" for k using put_frame(1) [OF that] by (meson same_at_trans)
  have u: "pull_at ?L2 U = pull_at L U" using same_at_views(5) [OF s2] PU by simp
  have L': "L' = put_pull U ?u ?L2" by (simp add: fin settle_finish_def Let_def P1(2) u)
  show "pool_ok L' P tags" "pool_at L' P = (pool_at L P)\<lparr>pool_pending_draws := pending, pool_next_settle := next_settle\<rparr>"
    using put_frame(3) [OF PU, of ?L2 ?u] P2 unfolding L' by (simp_all add: pool_ok_same same_at_views)
  have "load_pull ?L2 U = Inr (pull_at L U)" using same_at_views(3) [OF s2] U PU by simp
  moreover have "pull_wf ?u" using pull_wf_at [of L U] by (simp add: pull_wf_def)
  ultimately show "load_pull L' U = Inr ?u"
    using put_pull_views [of ?u, where a = U and L = ?L2] unfolding L' by (auto simp: load_pull_Inr)
  show "same_at k L L'" if "k \<noteq> info_key P" "k \<noteq> info_key U"
    using s2 [OF that(1)] put_frame(3) [OF that(2)] unfolding L' by (rule same_at_trans)
qed

text \<open>The parts of a successful settlement.\<close>

lemma settle_parts:
  assumes ok: "runtime_ok E" and P: "pool_ok L P tags"
    and pinned: "unat (pull_inventory_version (pull_at L U)) \<le> length tags"
    and s: "settle E (operator # P # U # items @ [event_authority, program]) data L = Inr L'"
  obtains a beta ds pending next_settle L1 where
    "try_settle_accounts E L (operator # P # U # items @ [event_authority, program]) = Inr a"
    "env_proof_verify E data (pool_operator (pool_at L P))
      (env_sha256 E (to_le (info_key U) @ to_le (pull_client_seed (pull_at L U)))) = Some beta"
    "reference_draws E (pool_at L P) beta (unat (pull_inventory_version (pull_at L U))) tags 0 (length items) = Inr ds"
    "drew_all E L P U tags (unat (pull_inventory_version (pull_at L U))) 0 items ds L1"
    "sub_ov (pool_pending_draws (pool_at L1 P)) (word_of_nat (length items)) = Inr pending"
    "add_ov (pull_index (pull_at L1 U)) 1 = Inr next_settle" "L' = settle_finish P U pending next_settle L1"
proof -
  from s obtain a proof_bytes where a: "try_settle_accounts E L (operator # P # U # items @ [event_authority, program]) = Inr a"
    and d: "try_settle_data data = Inr proof_bytes" and pr: "settle_process E a proof_bytes L = Inr L'"
    by (auto simp: settle_def)
  note A = try_settle_accounts_Inr [OF a] and PD = pool_okD [OF P]
  have pb: "proof_bytes = data" using d by (simp add: try_settle_data_def split: if_splits)
  have U: "load_pull L U = Inr (pull_at L U)" using A by blast
  have PU: "info_key P \<noteq> info_key U" using kinds_distinct(1) [OF PD(1) U] .
  have other: "pull_at (put_pool P q M) U = pull_at M U" for q M
    using same_at_views(5) [OF put_frame(1), of U P] PU by simp
  let ?alpha = "env_sha256 E (to_le (info_key U) @ to_le (pull_client_seed (pull_at L U)))"
  from pr A PD(1) U pb obtain beta L1 pending next_settle outcomes where
    beta: "env_proof_verify E data (pool_operator (pool_at L P)) ?alpha = Some beta"
    and dr: "draw E P U items operator beta L = Inr L1"
    and counts: "sub_ov (pool_pending_draws (pool_at L1 P)) (word_of_nat (length items)) = Inr pending"
      "add_ov (pull_index (pull_at L1 U)) 1 = Inr next_settle"
    and em: "emit E (SettleEvent (info_key P) (info_key U) ?alpha data beta outcomes) event_authority program
      (settle_finish P U pending next_settle L1) = Inr L'"
    by (auto simp: settle_process_def Let_def load_inventory_def settle_finish_def other)
  obtain av where av: "index_counts (index_at L P) (pull_inventory_version (pull_at L U)) = Inr av"
    and it: "draw_items E P U operator beta 0 av items L = Inr L1"
    using dr by (auto simp: draw_def)
  note draws = draw_items_drew_all [OF ok P U it [unfolded index_counts_prefix [OF PD(3) pinned av]], of "pool_at L P"]
  then obtain ds where "reference_draws E (pool_at L P) beta (unat (pull_inventory_version (pull_at L U))) tags 0 (length items) = Inr ds"
    "drew_all E L P U tags (unat (pull_inventory_version (pull_at L U))) 0 items ds L1" by auto
  with that [OF a beta _ _ counts emit_same [OF ok em]] show thesis by blast
qed

text \<open>The Item accounts of a settlement were those of the draws, and are closed.\<close>

lemma settled_items:
  assumes P: "load_pool L P = Inr p" and U: "load_pull L U = Inr u" and all: "drew_all E L P U tags c 0 items ds L1"
    and same: "\<And>k. k \<noteq> info_key P \<Longrightarrow> k \<noteq> info_key U \<Longrightarrow> same_at k L1 L'" and n: "n < length items"
  shows "\<exists>it. load_item L (items ! n) = Inr it \<and> item_pool it = info_key P \<and>
        item_tier it = fst (ds ! n) \<and> unat (item_position it) = snd (ds ! n) \<and>
        pull_outcomes (pull_at L1 U) ! n = \<lparr>outcome_tier = fst (ds ! n), outcome_asset = item_asset it\<rparr> \<and>
        data_of L' (items ! n) = []"
proof -
  obtain it where it: "load_item L (items ! n) = Inr it"
    "pull_outcomes (pull_at L1 U) ! n = \<lparr>outcome_tier = fst (ds ! n), outcome_asset = item_asset it\<rparr>"
    using all n by (auto simp: drew_all_def)
  moreover have "item_pool it = info_key P \<and> item_tier it = fst (ds ! n) \<and> unat (item_position it) = snd (ds ! n)"
    using all n it(1) by (auto simp: drew_all_def awards_def list_all2_conv_all_nth split_beta)
  moreover have "data_of L1 (items ! n) = []" using all n by (simp add: drew_all_def)
  then have "data_of L' (items ! n) = []"
    using same_at_data [OF same] kinds_distinct(2) [OF P it(1)] kinds_distinct(3) [OF U it(1)] by simp
  ultimately show ?thesis by blast
qed

lemma settle_Inr:
  assumes ok: "runtime_ok E" and P: "pool_ok L P tags"
    and pinned: "unat (pull_inventory_version (pull_at L U)) \<le> length tags"
    and s: "settle E (operator # P # U # items @ [event_authority, program]) data L = Inr L'"
  defines "p \<equiv> pool_at L P" and "u \<equiv> pull_at L U"
  shows "\<exists>clock beta ds pending. pull_pool u = info_key P \<and> pull_status u = STATUS_PENDING \<and>
      pull_index u = pool_next_settle p \<and> length items = unat (pull_count u) \<and>
      env_clock E = Inr clock \<and> unat (clock_slot clock) \<le> unat (pull_deadline_slot u) \<and>
      env_proof_verify E data (pool_operator p)
        (env_sha256 E (to_le (info_key U) @ to_le (pull_client_seed u))) = Some beta \<and>
      reference_draws E p beta (unat (pull_inventory_version u)) tags 0 (length items) = Inr ds \<and>
      (\<forall>n < length items. \<exists>it. load_item L (items ! n) = Inr it \<and> item_pool it = info_key P \<and>
        item_tier it = fst (ds ! n) \<and> unat (item_position it) = snd (ds ! n) \<and>
        pull_outcomes (pull_at L' U) ! n = \<lparr>outcome_tier = fst (ds ! n), outcome_asset = item_asset it\<rparr> \<and>
        data_of L' (items ! n) = []) \<and>
      distinct (map snd ds) \<and> (\<forall>(tier, position) \<in> set ds. position < unat (pull_inventory_version u) \<and>
        tags ! position = tier_tag (unat tier)) \<and>
      pool_ok L' P (clear_positions tags (map snd ds)) \<and> pool_terms (pool_at L' P) = pool_terms p \<and>
      unat pending + length items = unat (pool_pending_draws p) \<and> pool_pending_draws (pool_at L' P) = pending \<and>
      pool_next_settle (pool_at L' P) = pool_next_settle p + 1 \<and> pool_next_index (pool_at L' P) = pool_next_index p \<and>
      load_pull L' U = Inr (pull_at L' U) \<and>
      pull_at L' U\<lparr>pull_outcomes := []\<rparr> = u\<lparr>pull_status := STATUS_SETTLED, pull_outcomes := []\<rparr> \<and>
      pool_status (pool_at L' P) = pool_status p"
proof -
  obtain a beta ds pending next_settle L1 where
    a: "try_settle_accounts E L (operator # P # U # items @ [event_authority, program]) = Inr a"
    and beta: "env_proof_verify E data (pool_operator p) (env_sha256 E (to_le (info_key U) @ to_le (pull_client_seed u))) = Some beta"
    and ds: "reference_draws E p beta (unat (pull_inventory_version u)) tags 0 (length items) = Inr ds"
    and all: "drew_all E L P U tags (unat (pull_inventory_version u)) 0 items ds L1"
    and pending: "sub_ov (pool_pending_draws (pool_at L1 P)) (word_of_nat (length items)) = Inr pending"
    and ns: "add_ov (pull_index (pull_at L1 U)) 1 = Inr next_settle" and L': "L' = settle_finish P U pending next_settle L1"
    unfolding p_def u_def by (rule settle_parts [OF ok P pinned s])
  note A = try_settle_accounts_Inr [OF a] and D = all [unfolded drew_all_def]
  have step: "stock_step L P (clear_positions tags (map snd ds)) L1" and Ueq: "pull_at L1 U\<lparr>pull_outcomes := []\<rparr> = u\<lparr>pull_outcomes := []\<rparr>"
    using D by (simp_all add: u_def)
  have P1: "pool_ok L1 P (clear_positions tags (map snd ds))" and U1: "load_pull L1 U = Inr (pull_at L1 U)"
    using step D by (simp_all add: stock_step_def)
  note F = settle_finish_views [OF P1 U1 L']
  have at: "pull_at L' U = pull_at L1 U\<lparr>pull_status := STATUS_SETTLED\<rparr>" using F(3) by (simp add: load_pull_Inr)
  have items: "\<exists>it. load_item L (items ! n) = Inr it \<and> item_pool it = info_key P \<and>
        item_tier it = fst (ds ! n) \<and> unat (item_position it) = snd (ds ! n) \<and>
        pull_outcomes (pull_at L' U) ! n = \<lparr>outcome_tier = fst (ds ! n), outcome_asset = item_asset it\<rparr> \<and>
        data_of L' (items ! n) = []" if "n < length items" for n
    using settled_items [OF pool_okD(1) [OF P] _ all F(4) that] A at by simp
  have cnt: "length items = unat (pull_count u)" using A by (simp add: u_def)
  have "length items < 2 ^ 64" unfolding cnt by (rule order.strict_trans [OF unat_u8_bound]) simp
  then have "unat (word_of_nat (length items) :: u64) = length items" by (simp add: unat_of_nat)
  then have count: "unat pending + length items = unat (pool_pending_draws p)"
    using pending step unfolding sub_ov_Inr stock_step_def p_def by simp
  have "pull_at L' U\<lparr>pull_outcomes := []\<rparr> = (pull_at L1 U\<lparr>pull_outcomes := []\<rparr>)\<lparr>pull_status := STATUS_SETTLED\<rparr>"
    unfolding at by simp
  then have rest: "pull_at L' U\<lparr>pull_outcomes := []\<rparr> = u\<lparr>pull_status := STATUS_SETTLED, pull_outcomes := []\<rparr>"
    unfolding Ueq by simp
  have "pull_index (pull_at L1 U) = pull_index u" using arg_cong [OF Ueq, of pull_index] by simp
  then have "next_settle = pool_next_settle p + 1" using ns A by (auto simp: add_ov_def p_def u_def split: if_splits)
  moreover have "pool_terms (pool_at L' P) = pool_terms p" "pool_next_index (pool_at L' P) = pool_next_index p"
    "pool_status (pool_at L' P) = pool_status p"
    using step F(2) by (simp_all add: stock_step_def p_def pool_terms_def)
  moreover obtain clock where "env_clock E = Inr clock" "unat (clock_slot clock) \<le> unat (pull_deadline_slot u)"
    using A by (auto simp: u_def)
  moreover have "\<forall>(tier, position) \<in> set ds. position < unat (pull_inventory_version u) \<and> tags ! position = tier_tag (unat tier)"
    using D by auto
  ultimately show ?thesis
    using A beta ds items D F(1,2,3) count rest at
    by (intro exI [of _ clock] exI [of _ beta] exI [of _ ds] exI [of _ pending]) (simp add: p_def u_def)
qed

text \<open>
  C1: settlement records exactly the reference draw. A successful settlement was for the pending pull
  at the head of the queue, before its deadline, with a proof that verifies for the pool's operator
  and the pull's own seed. The awards are those of the reference draw over the pinned prefix: draw
  \<open>n\<close> got the tier, and the asset of the Item account at the position, that the reference selects;
  the positions are distinct, available and inside the prefix, they become unavailable and their Item
  accounts are closed; the reservation shrinks by the number of draws and the queue advances by one.
\<close>

theorem settle_records_reference_draw:
  assumes ok: "runtime_ok E" and P: "pool_ok L P tags"
    and pinned: "unat (pull_inventory_version (pull_at L U)) \<le> length tags"
    and s: "settle E (operator # P # U # items @ [event_authority, program]) data L = Inr L'"
  defines "p \<equiv> pool_at L P" and "u \<equiv> pull_at L U"
  shows "\<exists>clock beta ds pending. pull_pool u = info_key P \<and> pull_status u = STATUS_PENDING \<and>
      pull_index u = pool_next_settle p \<and> length items = unat (pull_count u) \<and>
      env_clock E = Inr clock \<and> unat (clock_slot clock) \<le> unat (pull_deadline_slot u) \<and>
      env_proof_verify E data (pool_operator p)
        (env_sha256 E (to_le (info_key U) @ to_le (pull_client_seed u))) = Some beta \<and>
      reference_draws E p beta (unat (pull_inventory_version u)) tags 0 (length items) = Inr ds \<and>
      (\<forall>n < length items. \<exists>it. load_item L (items ! n) = Inr it \<and> item_pool it = info_key P \<and>
        item_tier it = fst (ds ! n) \<and> unat (item_position it) = snd (ds ! n) \<and>
        pull_outcomes (pull_at L' U) ! n = \<lparr>outcome_tier = fst (ds ! n), outcome_asset = item_asset it\<rparr> \<and>
        data_of L' (items ! n) = []) \<and>
      distinct (map snd ds) \<and> (\<forall>(tier, position) \<in> set ds. position < unat (pull_inventory_version u) \<and>
        tags ! position = tier_tag (unat tier)) \<and>
      pool_ok L' P (clear_positions tags (map snd ds)) \<and> pool_terms (pool_at L' P) = pool_terms p \<and>
      unat pending + length items = unat (pool_pending_draws p) \<and> pool_pending_draws (pool_at L' P) = pending \<and>
      pool_next_settle (pool_at L' P) = pool_next_settle p + 1 \<and> pool_next_index (pool_at L' P) = pool_next_index p \<and>
      load_pull L' U = Inr (pull_at L' U) \<and>
      pull_at L' U\<lparr>pull_outcomes := []\<rparr> = u\<lparr>pull_status := STATUS_SETTLED, pull_outcomes := []\<rparr>"
  unfolding p_def u_def using settle_Inr [OF ok P pinned s] by blast

subsection \<open>Deliver\<close>

lemma try_deliver_accounts_Inr:
  assumes "try_deliver_accounts L [payer, P, U, buyer, asset, collection, core_program, system_program, event_authority, program] = Inr a"
  shows "is_signer payer \<and> load_pool L P = Inr (pool_at L P) \<and> load_pull L U = Inr (pull_at L U) \<and>
    pull_pool (pull_at L U) = info_key P \<and> pull_status (pull_at L U) = STATUS_SETTLED \<and>
    pull_buyer (pull_at L U) = info_key buyer \<and>
    a = \<lparr>dl_payer = payer, dl_pool = P, dl_pull = U, dl_buyer = buyer, dl_asset = asset,
      dl_collection = collection, dl_core_program = core_program, dl_system_program = system_program,
      dl_event_authority = event_authority, dl_program = program\<rparr>"
  using assms by (auto simp: try_deliver_accounts_def load_pool_Inr load_pull_Inr split: if_splits)

text \<open>The Core transfer a delivery makes: from the pool, signed by it, to the buyer.\<close>

definition delivery_transfer :: "account_info \<Rightarrow> account_info \<Rightarrow> account_info \<Rightarrow> account_info \<Rightarrow> account_info \<Rightarrow> account_info
    \<Rightarrow> account_info \<Rightarrow> core_transfer" where
  "delivery_transfer payer P buyer asset collection core_program system_program =
     \<lparr>ct_payer = payer, ct_authority = P, ct_new_owner = buyer, ct_asset = asset, ct_collection = collection,
      ct_core_program = core_program, ct_system_program = system_program\<rparr>"

text \<open>The pull with award \<open>i\<close> marked.\<close>

definition marked :: "pull \<Rightarrow> nat \<Rightarrow> pull" where
  "marked u i = u\<lparr>pull_outcomes := (pull_outcomes u)[i := (pull_outcomes u ! i)\<lparr>outcome_tier := DELIVERED\<rparr>]\<rparr>"

lemma marked_simps [simp]:
  "pull_pool (marked u i) = pull_pool u" "pull_status (marked u i) = pull_status u" "pull_buyer (marked u i) = pull_buyer u"
  "pull_count (marked u i) = pull_count u" "pull_version (marked u i) = pull_version u" "pull_wf (marked u i) = pull_wf u"
  by (simp_all add: marked_def pull_wf_def)

lemma nth_marked:
  "pull_wf u \<Longrightarrow> j < 10 \<Longrightarrow> outcome_tier (pull_outcomes (marked u i) ! j) =
    (if j = i then DELIVERED else outcome_tier (pull_outcomes u ! j))"
  by (simp add: marked_def pull_wf_def nth_list_update)

lemma mark_delivered_Inr:
  "pull_mark_delivered i u = Inr u' \<Longrightarrow> pull_wf u \<Longrightarrow> i < 10 \<and> u' = marked u i"
  by (auto simp: pull_mark_delivered_def pull_wf_def marked_def split: if_splits)

lemma all_delivered_marked:
  assumes "pull_all_delivered (marked u i) = Inr all" "pull_wf u"
  shows "all \<longleftrightarrow> (\<forall>j < unat (pull_count u). j = i \<or> outcome_tier (pull_outcomes u ! j) = DELIVERED)"
proof -
  have wf: "length (pull_outcomes (marked u i)) = 10" using assms(2) by (simp add: marked_def pull_wf_def)
  then have ten: "unat (pull_count u) \<le> 10"
    and "all = list_all (\<lambda>o'. outcome_tier o' = DELIVERED) (take (unat (pull_count u)) (pull_outcomes (marked u i)))"
    using assms(1) by (auto simp: pull_all_delivered_def split: if_splits)
  then have "all \<longleftrightarrow> (\<forall>j < unat (pull_count u). outcome_tier (pull_outcomes (marked u i) ! j) = DELIVERED)"
    using wf by (simp add: list_all_length)
  then show ?thesis using ten nth_marked [OF assms(2)] by auto
qed

text \<open>The parts of a successful delivery.\<close>

lemma deliver_parts:
  assumes ok: "runtime_ok E"
    and d: "deliver E [payer, P, U, buyer, asset, collection, core_program, system_program, event_authority, program]
      data L = Inr L'"
  defines "u \<equiv> pull_at L U" and "i \<equiv> unat (data ! 0)"
  obtains a L1 all where
    "try_deliver_accounts L [payer, P, U, buyer, asset, collection, core_program, system_program, event_authority, program] = Inr a"
    "i < unat (pull_count u)" "i < 10" "outcome_tier (pull_outcomes u ! i) \<noteq> DELIVERED"
    "outcome_asset (pull_outcomes u ! i) = info_key asset"
    "core_transfer_invoke E (delivery_transfer payer P buyer asset collection core_program system_program)
      [pool_signer_seeds (pool_at L P)] L = Inr L1"
    "pull_all_delivered (marked u i) = Inr all" "length data = 1"
    "(if all then close E U buyer (put_pull U (marked u i) L1) else Inr (put_pull U (marked u i) L1)) = Inr L'"
proof -
  let ?accs = "[payer, P, U, buyer, asset, collection, core_program, system_program, event_authority, program]"
  from d obtain a oi where a: "try_deliver_accounts L ?accs = Inr a" and oi: "try_deliver_data data = Inr oi"
    and pr: "deliver_process E a oi L = Inr L'" by (auto simp: deliver_def)
  note A = try_deliver_accounts_Inr [OF a]
  have data: "unat oi = i" "length data = 1" using oi by (simp_all add: try_deliver_data_def i_def split: if_splits)
  have U: "load_pull L U = Inr u" and P: "load_pool L P = Inr (pool_at L P)" using A by (simp_all add: u_def)
  from pr A U P data(1) obtain tier as L1 u1 all L2 where
    lt: "i < unat (pull_count u)" and out: "pull_outcome u i = Inr (tier, as)" "tier \<noteq> DELIVERED" "as = info_key asset"
    and core: "core_transfer_invoke E (delivery_transfer payer P buyer asset collection core_program system_program)
      [pool_signer_seeds (pool_at L P)] L = Inr L1"
    and u1: "pull_mark_delivered i (pull_at L1 U) = Inr u1"
    and all: "pull_all_delivered (pull_at (put_pull U u1 L1) U) = Inr all"
    and L2: "(if all then close E U buyer (put_pull U u1 L1) else Inr (put_pull U u1 L1)) = Inr L2"
    and em: "emit E (DeliverEvent (info_key U) (info_key asset) oi) event_authority program L2 = Inr L'"
    by (auto simp: deliver_process_def Let_def delivery_transfer_def split: if_splits)
  have "acct_owner (L (info_key U)) = ID" using U by (simp add: load_pull_Inr acct_def)
  then have "pull_at L1 U = u"
    using same_at_views(5) [OF invoke_keeps [OF ok core [unfolded core_transfer_invoke_def]]] by (simp add: u_def)
  then have m: "i < 10" "u1 = marked u i" using mark_delivered_Inr [OF u1] by (simp_all add: u_def)
  have "pull_all_delivered (marked u i) = Inr all"
    using all put_pull_views(1) [of u1 U L1] by (simp add: m(2) u_def)
  moreover have "outcome_tier (pull_outcomes u ! i) \<noteq> DELIVERED" "outcome_asset (pull_outcomes u ! i) = info_key asset"
    using out by (auto simp: pull_outcome_def split: if_splits)
  ultimately show thesis using that [OF a lt m(1) _ _ core _ data(2)] L2 [unfolded m(2)] emit_same [OF ok em] by blast
qed

text \<open>A marked award is refused.\<close>

lemma deliver_again:
  assumes a: "try_deliver_accounts L [payer, P, U, buyer, asset, collection, core_program, system_program, event_authority, program] = Inr a"
    and U: "load_pull L U = Inr u" "load_pull L' U = Inr (marked u (unat (data ! 0)))" and P: "load_pool L' P = load_pool L P"
    and i: "unat (data ! 0) < 10" "unat (data ! 0) < unat (pull_count u)" "length data = 1"
  shows "deliver E [payer, P, U, buyer, asset, collection, core_program, system_program, event_authority, program] data L'
    = Inl (gerr InvalidOutcome)"
proof -
  let ?i = "unat (data ! 0)"
  have wf: "pull_wf u" using U(1) by (auto simp: load_pull_Inr)
  have "try_deliver_accounts L' [payer, P, U, buyer, asset, collection, core_program, system_program, event_authority, program] = Inr a"
    using a U P by (auto simp: try_deliver_accounts_def split: if_splits sum.splits)
  moreover have "dl_pull a = U" using try_deliver_accounts_Inr [OF a] by simp
  moreover have "?i < length (pull_outcomes (marked u ?i))" using wf i(1) by (simp add: marked_def pull_wf_def)
  ultimately show ?thesis
    using U(2) i nth_marked [OF wf i(1), of ?i] by (simp add: deliver_def deliver_process_def try_deliver_data_def Let_def pull_outcome_def)
qed

lemma deliver_Inr:
  assumes ok: "runtime_ok E"
    and d: "deliver E [payer, P, U, buyer, asset, collection, core_program, system_program, event_authority, program]
      data L = Inr L'"
  defines "u \<equiv> pull_at L U" and "i \<equiv> unat (data ! 0)"
  shows "pull_status u = STATUS_SETTLED \<and> pull_buyer u = info_key buyer \<and> i < unat (pull_count u) \<and> i < MAX_COUNT \<and>
    outcome_tier (pull_outcomes u ! i) \<noteq> DELIVERED \<and> outcome_asset (pull_outcomes u ! i) = info_key asset \<and>
    (\<exists>L1. core_transfer_invoke E (delivery_transfer payer P buyer asset collection core_program system_program)
       [pool_signer_seeds (pool_at L P)] L = Inr L1) \<and>
    same_at (info_key P) L L' \<and>
    (if \<forall>j < unat (pull_count u). j = i \<or> outcome_tier (pull_outcomes u ! j) = DELIVERED
     then data_of L' U = [] \<and> acct_owner (acct L' U) = env_system_id E
     else load_pull L' U = Inr (u\<lparr>pull_outcomes := (pull_outcomes u)[i := (pull_outcomes u ! i)\<lparr>outcome_tier := DELIVERED\<rparr>]\<rparr>) \<and>
       deliver E [payer, P, U, buyer, asset, collection, core_program, system_program, event_authority, program] data L'
         = Inl (gerr InvalidOutcome))"
proof -
  obtain a L1 all where a:
    "try_deliver_accounts L [payer, P, U, buyer, asset, collection, core_program, system_program, event_authority, program] = Inr a"
    and i: "i < unat (pull_count u)" "i < 10" "length data = 1"
    and out: "outcome_tier (pull_outcomes u ! i) \<noteq> DELIVERED" "outcome_asset (pull_outcomes u ! i) = info_key asset"
    and core: "core_transfer_invoke E (delivery_transfer payer P buyer asset collection core_program system_program)
      [pool_signer_seeds (pool_at L P)] L = Inr L1"
    and all: "pull_all_delivered (marked u i) = Inr all"
    and L': "(if all then close E U buyer (put_pull U (marked u i) L1) else Inr (put_pull U (marked u i) L1)) = Inr L'"
    unfolding u_def i_def by (rule deliver_parts [OF ok d])
  let ?L1 = "put_pull U (marked u i) L1"
  note A = try_deliver_accounts_Inr [OF a] and all_iff = all_delivered_marked [OF all]
  have U: "load_pull L U = Inr u" and P: "load_pool L P = Inr (pool_at L P)" using A by (simp_all add: u_def)
  have PU: "info_key P \<noteq> info_key U" using kinds_distinct(1) [OF P U] .
  have inv: "same_at k L L1" if "acct_owner (L k) = ID" for k
    using invoke_keeps [OF ok core [unfolded core_transfer_invoke_def] that] .
  have own: "acct_owner (L (info_key U)) = ID" "acct_owner (L (info_key P)) = ID"
    using P U by (simp_all add: load_pool_Inr load_pull_Inr acct_def)
  have sP: "same_at (info_key P) L ?L1" using inv [OF own(2)] put_frame(3) [OF PU] by (rule same_at_trans)
  have "load_pull L1 U = Inr u" using same_at_views(3) [OF inv [OF own(1)]] U by simp
  then have U1: "load_pull ?L1 U = Inr (marked u i)"
    using put_pull_views [of "marked u i", where a = U and L = L1] by (auto simp: load_pull_Inr)
  show ?thesis
  proof (cases all)
    case True
    note C = close_Inr [OF ok, of U buyer ?L1 L']
    have "same_at (info_key P) L L'" using sP C PU L' True by (auto intro: same_at_trans)
    then show ?thesis using True all_iff C L' i core out A by (auto simp: u_def)
  next
    case False
    then have L'1: "L' = ?L1" using L' by simp
    have "deliver E [payer, P, U, buyer, asset, collection, core_program, system_program, event_authority, program] data L'
        = Inl (gerr InvalidOutcome)"
      using deliver_again [OF a U U1 [unfolded i_def]] same_at_views(1) [OF sP] i unfolding L'1 i_def by simp
    then show ?thesis using False all_iff i core sP out A U1 unfolding L'1 by (auto simp: u_def marked_def)
  qed
qed

text \<open>
  C13: an award is delivered once and only to its buyer. A successful delivery was for an undelivered
  award of a settled pull, with the recorded asset and the recorded buyer, and made the Core transfer
  of that asset to that buyer signed by the pool. Afterwards either every award was delivered and the
  pull account is closed to the buyer, or the award is marked delivered, every other award is as it
  was, and delivering the same award again is refused; the pool account is unchanged.
\<close>

theorem deliver_once_to_buyer:
  assumes ok: "runtime_ok E"
    and d: "deliver E [payer, P, U, buyer, asset, collection, core_program, system_program, event_authority, program]
      data L = Inr L'"
  defines "u \<equiv> pull_at L U" and "i \<equiv> unat (data ! 0)"
  shows "pull_status u = STATUS_SETTLED \<and> pull_buyer u = info_key buyer \<and> i < unat (pull_count u) \<and> i < MAX_COUNT \<and>
    outcome_tier (pull_outcomes u ! i) \<noteq> DELIVERED \<and> outcome_asset (pull_outcomes u ! i) = info_key asset \<and>
    (\<exists>L1. core_transfer_invoke E (delivery_transfer payer P buyer asset collection core_program system_program)
       [pool_signer_seeds (pool_at L P)] L = Inr L1) \<and>
    same_at (info_key P) L L' \<and>
    (if \<forall>j < unat (pull_count u). j = i \<or> outcome_tier (pull_outcomes u ! j) = DELIVERED
     then data_of L' U = [] \<and> acct_owner (acct L' U) = env_system_id E
     else load_pull L' U = Inr (u\<lparr>pull_outcomes := (pull_outcomes u)[i := (pull_outcomes u ! i)\<lparr>outcome_tier := DELIVERED\<rparr>]\<rparr>) \<and>
       deliver E [payer, P, U, buyer, asset, collection, core_program, system_program, event_authority, program] data L'
         = Inl (gerr InvalidOutcome))"
  unfolding u_def i_def by (rule deliver_Inr [OF ok d])

end
