(* ===== verification/Admin_Correct.thy ===== *)
theory Admin_Correct
  imports Vault Draw_Correct
begin

section \<open>Stocking, retiring and creating a pool\<close>

subsection \<open>Restocking through DepositItem and Buyback\<close>

lemma check_restock_Inr:
  "check_restock E p key I tier bump L = Inr position \<Longrightarrow>
   tier < pool_tier_count p \<and> position = pool_inventory_version p \<and>
   env_create_program_address E (item_seeds key tier position bump) ID = Some (info_key I) \<and>
   acct_owner (acct L I) = env_system_id E \<and> data_of L I = []"
  by (auto simp: check_restock_def check_uninitialized_def item_seeds_def Let_def split: if_splits)

lemma try_deposit_item_accounts_Inr:
  assumes "try_deposit_item_accounts L [authority, P, I, asset, collection, core_program, system_program, event_authority, program] = Inr a"
  shows "is_signer authority \<and> is_writable P \<and> is_writable I \<and> load_pool L P = Inr (pool_at L P) \<and> pool_authority (pool_at L P) = info_key authority \<and>
    pool_status (pool_at L P) \<noteq> POOL_RETIRED \<and>
    a = \<lparr>di_authority = authority, di_pool = P, di_item = I, di_asset = asset, di_collection = collection,
      di_core_program = core_program, di_system_program = system_program, di_event_authority = event_authority,
      di_program = program\<rparr>"
  using assms by (auto simp: try_deposit_item_accounts_def load_pool_Inr split: if_splits)

text \<open>The parts of a successful deposit: the checks, the restock and the Core transfer to the pool.\<close>

lemma deposit_parts:
  assumes ok: "runtime_ok E"
    and d: "deposit_item E [authority, P, I, asset, collection, core_program, system_program, event_authority, program]
      data L = Inr L'"
  obtains a position L1 where
    "try_deposit_item_accounts L [authority, P, I, asset, collection, core_program, system_program, event_authority, program] = Inr a"
    "length data = 2" "check_restock E (pool_at L P) (info_key P) I (data ! 0) (data ! 1) L = Inr position"
    "restock E authority P I (info_key asset) (data ! 0) (data ! 1) L = Inr L1"
    "core_transfer_invoke E \<lparr>ct_payer = authority, ct_authority = authority, ct_new_owner = P,
      ct_asset = asset, ct_collection = collection, ct_core_program = core_program,
      ct_system_program = system_program\<rparr> [] L1 = Inr L'"
proof -
  from d obtain a di where a: "try_deposit_item_accounts L [authority, P, I, asset, collection, core_program, system_program,
      event_authority, program] = Inr a" and di: "try_deposit_item_data data = Inr di" and pr: "deposit_item_process E a di L = Inr L'"
    by (auto simp: deposit_item_def)
  note A = try_deposit_item_accounts_Inr [OF a]
  have D: "di_tier di = data ! 0" "di_bump di = data ! 1" "length data = 2" using di by (auto simp: try_deposit_item_data_def split: if_splits)
  from pr A D obtain position L1 L2 where
    ck: "check_restock E (pool_at L P) (info_key P) I (data ! 0) (data ! 1) L = Inr position"
    and rs: "restock E authority P I (info_key asset) (data ! 0) (data ! 1) L = Inr L1"
    and core: "core_transfer_invoke E \<lparr>ct_payer = authority, ct_authority = authority, ct_new_owner = P,
      ct_asset = asset, ct_collection = collection, ct_core_program = core_program,
      ct_system_program = system_program\<rparr> [] L1 = Inr L2"
    and em: "emit E (DepositItemEvent (info_key P) (info_key asset) (data ! 0) position) event_authority program L2 = Inr L'"
    by (auto simp: deposit_item_process_def)
  show thesis using that [OF a D(3) ck rs] core emit_same [OF ok em] by simp
qed

lemma deposit_item_Inr:
  assumes ok: "runtime_ok E" and P: "pool_ok L P tags"
    and d: "deposit_item E [authority, P, I, asset, collection, core_program, system_program, event_authority, program]
      data L = Inr L'"
  shows "is_signer authority \<and> info_key authority = pool_authority (pool_at L P) \<and>
    pool_status (pool_at L P) \<noteq> POOL_RETIRED \<and> unat (data ! 0) < unat (pool_tier_count (pool_at L P)) \<and>
    stock_step L P (tags @ [tier_tag (unat (data ! 0))]) L' \<and>
    load_item L' I = Inr \<lparr>item_version = ITEM_VERSION, item_bump = data ! 1, item_tier = data ! 0, item_padding = 0,
      item_position = pool_inventory_version (pool_at L P), item_pool = info_key P, item_asset = info_key asset\<rparr> \<and>
    (\<forall>k. acct_owner (L k) = ID \<and> k \<noteq> info_key P \<longrightarrow> same_at k L L')"
proof -
  obtain a position L1 where a: "try_deposit_item_accounts L [authority, P, I, asset, collection, core_program,
      system_program, event_authority, program] = Inr a"
    and ck: "check_restock E (pool_at L P) (info_key P) I (data ! 0) (data ! 1) L = Inr position"
    and rs: "restock E authority P I (info_key asset) (data ! 0) (data ! 1) L = Inr L1"
    and core: "core_transfer_invoke E \<lparr>ct_payer = authority, ct_authority = authority, ct_new_owner = P,
      ct_asset = asset, ct_collection = collection, ct_core_program = core_program,
      ct_system_program = system_program\<rparr> [] L1 = Inr L'"
    by (rule deposit_parts [OF ok d])
  note A = try_deposit_item_accounts_Inr [OF a]
  note K = check_restock_Inr [OF ck]
  have PI: "info_key I \<noteq> info_key P"
    using K pool_okD(5) [OF P] runtime_okD(2) [OF ok] by (auto simp: acct_def)
  note R = restock_Inr [OF ok P rs PI]
  have keep: "same_at k L1 L'" if "acct_owner (L1 k) = ID" for k
    using invoke_keeps [OF ok core [unfolded core_transfer_invoke_def] that] .
  have P1: "pool_ok L1 P (tags @ [tier_tag (unat (data ! 0))])" using R by (simp add: stock_step_def)
  have own: "acct_owner (L1 (info_key P)) = ID" "acct_owner (L1 (info_key I)) = ID"
    using pool_okD(5) [OF P1] R by (auto simp: acct_def load_item_Inr)
  have "stock_step L P (tags @ [tier_tag (unat (data ! 0))]) L'"
    using stock_step_trans [of L P _ L1] R stock_step_same [OF keep [OF own(1)] P1] by blast
  moreover have "load_item L' I = load_item L1 I" using same_at_views(2) [OF keep [OF own(2)]] .
  moreover have "same_at k L L'" if k: "acct_owner (L k) = ID" "k \<noteq> info_key P" for k
  proof -
    have "k \<noteq> info_key I" using k(1) K runtime_okD(2) [OF ok] by (auto simp: acct_def)
    with R k(2) have s: "same_at k L L1" by blast
    with k(1) have "acct_owner (L1 k) = ID" by (simp add: same_at_def)
    with s keep show ?thesis by (blast intro: same_at_trans)
  qed
  ultimately show ?thesis using A R by simp
qed

text \<open>
  C20: a deposit adds exactly one prize. It succeeds only for the authority of a pool that is not
  retired, an existing tier and an unused account at the address derived for the next position; the
  stock gains one available position of that tier at the end, the Item account records it with its
  asset, the pool's terms, queue and reservations stay the same, and so does every other account of the
  program, in particular every pending pull with its pinned prefix. The result is the ledger of the Core
  transfer of that asset from the authority to the pool, after the restock.
\<close>

theorem deposit_appends_prize:
  assumes ok: "runtime_ok E" and P: "pool_ok L P tags"
    and d: "deposit_item E [authority, P, I, asset, collection, core_program, system_program, event_authority, program]
      data L = Inr L'"
  shows "is_signer authority \<and> info_key authority = pool_authority (pool_at L P) \<and>
    pool_status (pool_at L P) \<noteq> POOL_RETIRED \<and> unat (data ! 0) < unat (pool_tier_count (pool_at L P)) \<and>
    stock_step L P (tags @ [tier_tag (unat (data ! 0))]) L' \<and>
    load_item L' I = Inr \<lparr>item_version = ITEM_VERSION, item_bump = data ! 1, item_tier = data ! 0, item_padding = 0,
      item_position = pool_inventory_version (pool_at L P), item_pool = info_key P, item_asset = info_key asset\<rparr> \<and>
    (\<forall>k. acct_owner (L k) = ID \<and> k \<noteq> info_key P \<longrightarrow> same_at k L L') \<and>
    is_writable P \<and> is_writable I \<and> length data = 2 \<and> acct_owner (acct L I) = env_system_id E \<and> data_of L I = [] \<and>
    env_create_program_address E (item_seeds (info_key P) (data ! 0) (pool_inventory_version (pool_at L P)) (data ! 1)) ID
      = Some (info_key I) \<and>
    (\<exists>L1. restock E authority P I (info_key asset) (data ! 0) (data ! 1) L = Inr L1 \<and>
      core_transfer_invoke E \<lparr>ct_payer = authority, ct_authority = authority, ct_new_owner = P, ct_asset = asset,
        ct_collection = collection, ct_core_program = core_program, ct_system_program = system_program\<rparr> [] L1 = Inr L')"
proof -
  obtain a position L1 where a: "try_deposit_item_accounts L [authority, P, I, asset, collection, core_program,
      system_program, event_authority, program] = Inr a" and "length data = 2"
    and ck: "check_restock E (pool_at L P) (info_key P) I (data ! 0) (data ! 1) L = Inr position"
    and "restock E authority P I (info_key asset) (data ! 0) (data ! 1) L = Inr L1"
    "core_transfer_invoke E \<lparr>ct_payer = authority, ct_authority = authority, ct_new_owner = P, ct_asset = asset,
      ct_collection = collection, ct_core_program = core_program, ct_system_program = system_program\<rparr> [] L1 = Inr L'"
    by (rule deposit_parts [OF ok d])
  then show ?thesis
    using deposit_item_Inr [OF ok P d] try_deposit_item_accounts_Inr [OF a] check_restock_Inr [OF ck] by auto
qed

subsection \<open>SetStatus\<close>

lemma try_set_status_accounts_Inr:
  assumes "try_set_status_accounts L [authority, P, event_authority, program] = Inr a"
  shows "is_signer authority \<and> load_pool L P = Inr (pool_at L P) \<and> pool_authority (pool_at L P) = info_key authority \<and>
    a = \<lparr>ss_authority = authority, ss_pool = P, ss_event_authority = event_authority, ss_program = program\<rparr>"
  using assms by (auto simp: try_set_status_accounts_def load_pool_Inr split: if_splits)

lemma set_status_Inr:
  assumes ok: "runtime_ok E" and P: "pool_ok L P tags"
    and s: "set_status E [authority, P, event_authority, program] data L = Inr L'"
  shows "is_signer authority \<and> info_key authority = pool_authority (pool_at L P) \<and> unat (data ! 0) \<le> 2 \<and>
    (pool_status (pool_at L P) = POOL_RETIRED \<longrightarrow> data ! 0 = POOL_RETIRED) \<and>
    pool_at L' P = (pool_at L P)\<lparr>pool_status := data ! 0\<rparr> \<and> pool_ok L' P tags \<and>
    (\<forall>k. k \<noteq> info_key P \<longrightarrow> L' k = L k)"
proof -
  from s obtain a st where a: "try_set_status_accounts L [authority, P, event_authority, program] = Inr a"
    and st: "try_set_status_data data = Inr st" and pr: "set_status_process E a st L = Inr L'" by (auto simp: set_status_def)
  note A = try_set_status_accounts_Inr [OF a]
  have D: "st = data ! 0" "unat (data ! 0) \<le> 2"
    using st by (auto simp: try_set_status_data_def Let_def not_less word_le_nat_alt split: if_splits)
  let ?p = "(pool_at L P)\<lparr>pool_status := data ! 0\<rparr>"
  from pr A D have ret: "pool_status (pool_at L P) = POOL_RETIRED \<longrightarrow> data ! 0 = POOL_RETIRED"
    and em: "emit E (SetStatusEvent (info_key P) (data ! 0)) event_authority program (put_pool P ?p L) = Inr L'"
    by (auto simp: set_status_process_def Let_def split: if_splits)
  have L': "L' = put_pool P ?p L" using emit_same [OF ok em] .
  have "pool_ok L' P tags" "pool_at L' P = ?p"
    using pool_ok_put [OF P, of ?p] pool_okD(10) [OF P] unfolding L' by simp_all
  moreover have "L' k = L k" if "k \<noteq> info_key P" for k
    using that unfolding L' by (simp add: put_pool_def write_data_def)
  ultimately show ?thesis using A D ret by simp
qed

text \<open>
  C29: the status changes only by the authority, only to a defined status, and retirement is terminal.
  Nothing but the status of the pool changes.
\<close>

theorem set_status_exact:
  assumes ok: "runtime_ok E" and P: "pool_ok L P tags"
    and s: "set_status E [authority, P, event_authority, program] data L = Inr L'"
  shows "is_signer authority \<and> info_key authority = pool_authority (pool_at L P) \<and> unat (data ! 0) \<le> 2 \<and>
    (pool_status (pool_at L P) = POOL_RETIRED \<longrightarrow> data ! 0 = POOL_RETIRED) \<and>
    pool_at L' P = (pool_at L P)\<lparr>pool_status := data ! 0\<rparr> \<and> pool_ok L' P tags \<and>
    (\<forall>k. k \<noteq> info_key P \<longrightarrow> L' k = L k)"
  by (rule set_status_Inr [OF ok P s])

subsection \<open>Reclaim\<close>

lemma try_reclaim_accounts_Inr:
  assumes "try_reclaim_accounts L [authority, P, I, asset, collection, core_program, system_program, event_authority, program] = Inr a"
  shows "is_signer authority \<and> is_writable authority \<and> is_writable P \<and> is_writable I \<and> load_pool L P = Inr (pool_at L P) \<and> pool_authority (pool_at L P) = info_key authority \<and>
    pool_status (pool_at L P) = POOL_RETIRED \<and> pool_pending_draws (pool_at L P) = 0 \<and>
    (\<exists>i. load_item L I = Inr i \<and> item_pool i = info_key P \<and> item_asset i = info_key asset) \<and>
    a = \<lparr>rc_authority = authority, rc_pool = P, rc_item = I, rc_asset = asset, rc_collection = collection,
      rc_core_program = core_program, rc_system_program = system_program, rc_event_authority = event_authority,
      rc_program = program\<rparr>"
  using assms
  by (auto simp: try_reclaim_accounts_def reclaim_item_ok_def load_pool_Inr load_item_Inr split: if_splits)

text \<open>The parts of a successful reclaim: the writes of the stock, the Core transfer and the closing.\<close>

lemma reclaim_parts:
  assumes ok: "runtime_ok E" and P: "pool_ok L P tags"
    and r: "reclaim E [authority, P, I, asset, collection, core_program, system_program, event_authority, program] L = Inr L'"
  obtains a i idx p' L2 where
    "try_reclaim_accounts L [authority, P, I, asset, collection, core_program, system_program, event_authority, program] = Inr a"
    "load_item L I = Inr i" "item_pool i = info_key P" "item_asset i = info_key asset"
    "index_remove (index_at L P) (item_position i) (item_tier i) = Inr idx"
    "update_remaining (\<lambda>r. sub_ov r 1) (item_tier i) (pool_at L P) = Inr p'"
    "core_transfer_invoke E \<lparr>ct_payer = authority, ct_authority = P, ct_new_owner = authority,
      ct_asset = asset, ct_collection = collection, ct_core_program = core_program, ct_system_program = system_program\<rparr>
      [pool_signer_seeds (pool_at (put_pool P p' (put_index P idx L)) P)] (put_pool P p' (put_index P idx L)) = Inr L2"
    "close E I authority L2 = Inr L'"
proof -
  from r obtain a where a: "try_reclaim_accounts L [authority, P, I, asset, collection, core_program, system_program,
      event_authority, program] = Inr a" and pr: "reclaim_process E a L = Inr L'" by (auto simp: reclaim_def)
  note A = try_reclaim_accounts_Inr [OF a] and PD = pool_okD [OF P]
  from A obtain i where i: "load_item L I = Inr i" "item_pool i = info_key P" "item_asset i = info_key asset" by blast
  from pr A i PD(1) obtain idx p' L2 L3 where
    rm: "index_remove (index_at L P) (item_position i) (item_tier i) = Inr idx"
    and upd: "update_remaining (\<lambda>r. sub_ov r 1) (item_tier i) (pool_at (put_index P idx L) P) = Inr p'"
    and core: "core_transfer_invoke E \<lparr>ct_payer = authority, ct_authority = P, ct_new_owner = authority,
      ct_asset = asset, ct_collection = collection, ct_core_program = core_program, ct_system_program = system_program\<rparr>
      [pool_signer_seeds (pool_at (put_pool P p' (put_index P idx L)) P)] (put_pool P p' (put_index P idx L)) = Inr L2"
    and cl: "close E I authority L2 = Inr L3"
    and em: "emit E (ReclaimEvent (info_key P) (info_key asset) (item_position i)) event_authority program L3 = Inr L'"
    by (auto simp: reclaim_process_def Let_def load_inventory_def)
  have "update_remaining (\<lambda>r. sub_ov r 1) (item_tier i) (pool_at L P) = Inr p'"
    using upd put_index_views(1) [OF PD(7)] by simp
  then show thesis using that [OF a i rm _ core] cl emit_same [OF ok em] by simp
qed

lemma signer_seeds_terms: "pool_terms p = pool_terms q \<Longrightarrow> pool_signer_seeds p = pool_signer_seeds q"
  by (cases p; cases q) (simp add: pool_terms_def pool_signer_seeds_def)

lemma reclaim_Inr:
  assumes ok: "runtime_ok E" and P: "pool_ok L P tags"
    and r: "reclaim E [authority, P, I, asset, collection, core_program, system_program, event_authority, program] L = Inr L'"
  shows "is_signer authority \<and> info_key authority = pool_authority (pool_at L P) \<and>
    pool_status (pool_at L P) = POOL_RETIRED \<and> pool_pending_draws (pool_at L P) = 0 \<and>
    (\<exists>i. load_item L I = Inr i \<and> item_pool i = info_key P \<and> item_asset i = info_key asset \<and>
      unat (item_position i) < length tags \<and> tags ! unat (item_position i) = tier_tag (unat (item_tier i)) \<and>
      stock_step L P (tags[unat (item_position i) := 0]) L') \<and>
    data_of L' I = [] \<and> acct_owner (acct L' I) = env_system_id E \<and>
    (\<forall>k. acct_owner (L k) = ID \<and> k \<noteq> info_key P \<and> k \<noteq> info_key I \<longrightarrow> same_at k L L') \<and>
    is_writable authority \<and> is_writable P \<and> is_writable I \<and>
    (\<exists>L1 L2. pool_at L1 P = pool_at L' P \<and> index_at L1 P = index_at L' P \<and> (\<forall>k. k \<noteq> info_key P \<longrightarrow> L1 k = L k) \<and>
      core_transfer_invoke E \<lparr>ct_payer = authority, ct_authority = P, ct_new_owner = authority, ct_asset = asset,
        ct_collection = collection, ct_core_program = core_program, ct_system_program = system_program\<rparr>
        [pool_signer_seeds (pool_at L P)] L1 = Inr L2 \<and> close E I authority L2 = Inr L')"
proof -
  obtain a i idx p' L2 where a: "try_reclaim_accounts L [authority, P, I, asset, collection, core_program, system_program,
      event_authority, program] = Inr a"
    and i: "load_item L I = Inr i" "item_pool i = info_key P" "item_asset i = info_key asset"
    and rm: "index_remove (index_at L P) (item_position i) (item_tier i) = Inr idx"
    and upd': "update_remaining (\<lambda>r. sub_ov r 1) (item_tier i) (pool_at L P) = Inr p'"
    and core: "core_transfer_invoke E \<lparr>ct_payer = authority, ct_authority = P, ct_new_owner = authority,
      ct_asset = asset, ct_collection = collection, ct_core_program = core_program, ct_system_program = system_program\<rparr>
      [pool_signer_seeds (pool_at (put_pool P p' (put_index P idx L)) P)] (put_pool P p' (put_index P idx L)) = Inr L2"
    and cl: "close E I authority L2 = Inr L'"
    by (rule reclaim_parts [OF ok P r])
  note A = try_reclaim_accounts_Inr [OF a] and PD = pool_okD [OF P]
  let ?L1 = "put_pool P p' (put_index P idx L)"
  have t8: "unat (item_tier i) < 8" using upd' PD(8) by (auto elim!: update_remaining_Inr)
  have hit: "unat (item_position i) < length tags \<and> tags ! unat (item_position i) = tier_tag (unat (item_tier i))"
    using index.discard_missing [OF PD(3) t8, of "item_position i"] rm by force
  then have idx: "index_rep idx (tags[unat (item_position i) := 0])"
    using index.discard_law [OF PD(3) t8, of "item_position i"] rm by auto
  have step: "stock_step L P (tags[unat (item_position i) := 0]) ?L1"
    using stock_step_clear [OF P _ _ t8 idx upd'] hit by simp
  then have P1: "pool_ok ?L1 P (tags[unat (item_position i) := 0])" by (simp add: stock_step_def)
  have keep: "same_at k ?L1 L2" if "acct_owner (?L1 k) = ID" for k
    using invoke_keeps [OF ok core [unfolded core_transfer_invoke_def] that] .
  have PI: "info_key P \<noteq> info_key I" using kinds_distinct(2) [OF PD(1) i(1)] .
  note C = close_Inr [OF ok cl]
  have "acct_owner (?L1 (info_key P)) = ID" using pool_okD(5) [OF P1] by (simp add: acct_def)
  then have sP: "same_at (info_key P) ?L1 L'" using keep C PI by (blast intro: same_at_trans)
  then have "stock_step L P (tags[unat (item_position i) := 0]) L'"
    using stock_step_trans [OF step] stock_step_same P1 by blast
  moreover have "same_at k L L'" if k: "acct_owner (L k) = ID" "k \<noteq> info_key P" "k \<noteq> info_key I" for k
  proof -
    have s: "same_at k L ?L1" using put_frame(4) [OF k(2)] put_frame(1) [OF k(2)] by (rule same_at_trans)
    with k(1) have "acct_owner (?L1 k) = ID" by (simp add: same_at_def)
    with s keep C k(3) show ?thesis by (blast intro: same_at_trans)
  qed
  moreover have "\<exists>L1 L2. pool_at L1 P = pool_at L' P \<and> index_at L1 P = index_at L' P \<and> (\<forall>k. k \<noteq> info_key P \<longrightarrow> L1 k = L k) \<and>
      core_transfer_invoke E \<lparr>ct_payer = authority, ct_authority = P, ct_new_owner = authority, ct_asset = asset,
        ct_collection = collection, ct_core_program = core_program, ct_system_program = system_program\<rparr>
        [pool_signer_seeds (pool_at L P)] L1 = Inr L2 \<and> close E I authority L2 = Inr L'"
  proof (intro exI conjI)
    show "pool_at ?L1 P = pool_at L' P" "index_at ?L1 P = index_at L' P"
      using same_at_views(4) [OF sP] same_at_data [OF sP] by (simp_all add: index_at_def)
    show "\<forall>k. k \<noteq> info_key P \<longrightarrow> ?L1 k = L k" by (simp add: put_pool_def put_index_def write_data_def)
    have "pool_signer_seeds (pool_at ?L1 P) = pool_signer_seeds (pool_at L P)"
      using step by (intro signer_seeds_terms) (simp add: stock_step_def)
    then show "core_transfer_invoke E \<lparr>ct_payer = authority, ct_authority = P, ct_new_owner = authority, ct_asset = asset,
        ct_collection = collection, ct_core_program = core_program, ct_system_program = system_program\<rparr>
        [pool_signer_seeds (pool_at L P)] ?L1 = Inr L2" using core by simp
  qed (rule cl)
  ultimately show ?thesis using A i hit C by auto
qed

text \<open>
  C21: prizes leave only a retired pool that owes nothing, and one at a time. A successful reclaim was
  made by the authority with no pending draw; the position of the Item was available in its tier and
  becomes unavailable, and every other account of the program is unchanged but the Item, which is
  closed. The result is the closing of the Item after the Core transfer of its asset from the pool to
  the authority, signed by the pool, on the ledger whose pool already has the position cleared.
\<close>

theorem reclaim_removes_prize:
  assumes ok: "runtime_ok E" and P: "pool_ok L P tags"
    and r: "reclaim E [authority, P, I, asset, collection, core_program, system_program, event_authority, program] L = Inr L'"
  shows "is_signer authority \<and> info_key authority = pool_authority (pool_at L P) \<and>
    pool_status (pool_at L P) = POOL_RETIRED \<and> pool_pending_draws (pool_at L P) = 0 \<and>
    (\<exists>i. load_item L I = Inr i \<and> item_pool i = info_key P \<and> item_asset i = info_key asset \<and>
      unat (item_position i) < length tags \<and> tags ! unat (item_position i) = tier_tag (unat (item_tier i)) \<and>
      stock_step L P (tags[unat (item_position i) := 0]) L') \<and>
    data_of L' I = [] \<and> acct_owner (acct L' I) = env_system_id E \<and>
    (\<forall>k. acct_owner (L k) = ID \<and> k \<noteq> info_key P \<and> k \<noteq> info_key I \<longrightarrow> same_at k L L') \<and>
    is_writable authority \<and> is_writable P \<and> is_writable I \<and>
    (\<exists>L1 L2. pool_at L1 P = pool_at L' P \<and> index_at L1 P = index_at L' P \<and> (\<forall>k. k \<noteq> info_key P \<longrightarrow> L1 k = L k) \<and>
      core_transfer_invoke E \<lparr>ct_payer = authority, ct_authority = P, ct_new_owner = authority, ct_asset = asset,
        ct_collection = collection, ct_core_program = core_program, ct_system_program = system_program\<rparr>
        [pool_signer_seeds (pool_at L P)] L1 = Inr L2 \<and> close E I authority L2 = Inr L')"
  by (rule reclaim_Inr [OF ok P r])

subsection \<open>CreatePool\<close>

lemma try_create_pool_accounts_Inr:
  assumes "try_create_pool_accounts E L [authority, P, operator, mint, V, system_program, event_authority, program] = Inr a"
  shows "is_signer authority \<and> acct_owner (acct L P) = env_system_id E \<and> data_of L P = [] \<and>
    a = \<lparr>cp_authority = authority, cp_pool = P, cp_operator = operator, cp_payment_mint = mint, cp_vault = V,
      cp_event_authority = event_authority, cp_program = program\<rparr>"
  using assms by (auto simp: try_create_pool_accounts_def check_uninitialized_def split: if_splits)

lemma try_create_pool_data_Inr:
  assumes "try_create_pool_data data = Inr d"
  shows "0 < unat (cp_tier_count d) \<and> unat (cp_tier_count d) \<le> MAX_TIERS \<and> length (cp_weights d) = MAX_TIERS \<and>
    0 \<notin> set (take (unat (cp_tier_count d)) (cp_weights d)) \<and>
    0 < unat (cp_price d) \<and> 0 < unat (cp_bond_per_draw d) \<and> 0 < unat (cp_deadline_slots d) \<and>
    (unat (cp_price d) + unat (cp_bond_per_draw d)) * 10 < 2 ^ 64"
proof -
  from assms have d: "0 < unat (cp_tier_count d)" "unat (cp_tier_count d) \<le> MAX_TIERS" "length (cp_weights d) = MAX_TIERS"
    "0 \<notin> set (take (unat (cp_tier_count d)) (cp_weights d))"
    "0 < unat (cp_price d)" "0 < unat (cp_bond_per_draw d)" "0 < unat (cp_deadline_slots d)"
    and some: "Option.bind (checked_add (cp_price d) (cp_bond_per_draw d)) (\<lambda>amount. checked_mul amount 10) \<noteq> None"
    by (auto simp: try_create_pool_data_def Let_def unat_gt_0 not_less split: if_splits simp del: upt_conv_Cons)
  from some obtain s m where "checked_add (cp_price d) (cp_bond_per_draw d) = Some s" "checked_mul s 10 = Some m"
    by (cases "checked_add (cp_price d) (cp_bond_per_draw d)") auto
  then have "unat m = (unat (cp_price d) + unat (cp_bond_per_draw d)) * 10"
    by (simp add: checked_add_Some checked_mul_Some)
  with unat_u64_bound [of m] d show ?thesis by simp
qed

lemma from_le_zeros [simp]: "from_le (replicate n 0) = 0"
proof -
  have "le_nat (replicate n 0) = 0" by (induction n) simp_all
  then show ?thesis by (simp add: from_le_def)
qed

lemma slice_zeros [simp]: "slice off n (replicate m 0) = replicate (min n (m - off)) 0"
  by (simp add: slice_def)

lemma set_weights_spec:
  "length ws = length ts \<Longrightarrow> map tier_weight (set_weights ts ws) = ws \<and>
   map tier_remaining (set_weights ts ws) = map tier_remaining ts \<and> length (set_weights ts ws) = length ts"
  by (induction ts ws rule: set_weights.induct) auto

lemma decode_zero_pool:
  defines "z \<equiv> decode_pool (replicate POOL_LEN 0)"
  shows "pool_inventory_version z = 0" "pool_pending_draws z = 0" "pool_next_index z = 0" "pool_next_settle z = 0"
    "\<And>t. t < 8 \<Longrightarrow> tier_remaining (pool_tiers_all z ! t) = 0" "length (pool_tiers_all z) = 8"
  by (simp_all add: z_def decode_pool_def decode_tier_def del: upt_conv_Cons)

text \<open>The header that \<open>set_inner\<close> writes over zeros.\<close>

lemma set_inner_zero:
  assumes p: "pool_set_inner bump authority operator mint vault pid price deadline_slots bond ws
      (decode_pool (replicate POOL_LEN 0)) = Inr p" and n: "length ws \<le> 8"
  shows "pool_version p = POOL_VERSION" "pool_status p = POOL_PAUSED" "pool_authority p = authority"
    "pool_operator p = operator" "pool_payment_mint p = mint" "pool_vault p = vault" "pool_price p = price"
    "pool_bond_per_draw p = bond" "pool_deadline_slots p = deadline_slots" "pool_inventory_version p = 0"
    "pool_pending_draws p = 0" "pool_next_index p = 0" "pool_next_settle p = 0" "unat (pool_tier_count p) = length ws"
    "pool_wf p" "map tier_weight (tiers_of p) = ws" "\<And>t. t < length ws \<Longrightarrow> tier_remaining (pool_tiers_all p ! t) = 0"
proof -
  let ?z = "decode_pool (replicate POOL_LEN 0)" and ?n = "length ws"
  let ?ts = "set_weights (take ?n (pool_tiers_all ?z)) ws"
  note Z = decode_zero_pool
  have un: "unat (word_of_nat ?n :: u8) = ?n" using n by (simp add: unat_of_nat)
  have S: "map tier_weight ?ts = ws" "map tier_remaining ?ts = map tier_remaining (take ?n (pool_tiers_all ?z))" "length ?ts = ?n"
    using set_weights_spec [of ws "take ?n (pool_tiers_all ?z)"] Z(6) n by simp_all
  have P: "p = ?z\<lparr>pool_version := POOL_VERSION, pool_bump := bump, pool_tier_count := word_of_nat ?n,
      pool_status := POOL_PAUSED, pool_authority := authority, pool_operator := operator,
      pool_payment_mint := mint, pool_vault := vault, pool_id := pid, pool_price := price,
      pool_deadline_slots := deadline_slots, pool_bond_per_draw := bond,
      pool_tiers_all := ?ts @ drop ?n (pool_tiers_all ?z)\<rparr>"
    using p un Z(6) n by (simp add: pool_set_inner_def Let_def pool_tiers_def)
  then have tiers: "pool_tiers_all p = ?ts @ drop ?n (pool_tiers_all ?z)" "unat (pool_tier_count p) = ?n"
    using un by simp_all
  show "pool_version p = POOL_VERSION" "pool_status p = POOL_PAUSED" "pool_authority p = authority"
    "pool_operator p = operator" "pool_payment_mint p = mint" "pool_vault p = vault" "pool_price p = price"
    "pool_bond_per_draw p = bond" "pool_deadline_slots p = deadline_slots" "pool_inventory_version p = 0"
    "pool_pending_draws p = 0" "pool_next_index p = 0" "pool_next_settle p = 0"
    by (simp_all add: P Z(1-4))
  show "unat (pool_tier_count p) = ?n" by (rule tiers(2))
  show "pool_wf p" using tiers(1) S(3) Z(6) n by (simp add: pool_wf_def)
  show "map tier_weight (tiers_of p) = ws" using S(1,3) unfolding tiers_of_def tiers by simp
  show "tier_remaining (pool_tiers_all p ! t) = 0" if "t < ?n" for t
  proof -
    have "tier_remaining (?ts ! t) = tier_remaining (take ?n (pool_tiers_all ?z) ! t)"
      using arg_cong [OF S(2), of "\<lambda>xs. xs ! t"] S(3) that Z(6) n by simp
    then show ?thesis using that n Z(5) S(3) unfolding tiers(1) by (simp add: nth_append)
  qed
qed

lemma create_pool_Inr:
  assumes ok: "runtime_ok E"
    and c: "create_pool E [authority, P, operator, mint, V, system_program, event_authority, program] data L = Inr L'"
  shows "\<exists>d p. try_create_pool_data data = Inr d \<and> p = pool_at L' P \<and> is_signer authority \<and>
    env_create_program_address E (pool_seeds (info_key authority) (cp_id d) (cp_bump d)) ID = Some (info_key P) \<and>
    info_key V = ata E (info_key P) (info_key mint) \<and> data_of L P = [] \<and> pool_ok L' P [] \<and>
    pool_status p = POOL_PAUSED \<and> pool_pending_draws p = 0 \<and> pool_next_index p = 0 \<and> pool_next_settle p = 0 \<and>
    pool_authority p = info_key authority \<and> pool_operator p = info_key operator \<and>
    pool_payment_mint p = info_key mint \<and> pool_vault p = info_key V \<and> pool_price p = cp_price d \<and>
    pool_bond_per_draw p = cp_bond_per_draw d \<and> pool_deadline_slots p = cp_deadline_slots d \<and>
    map tier_weight (tiers_of p) = take (unat (cp_tier_count d)) (cp_weights d) \<and>
    (\<forall>t \<in> set (tiers_of p). 0 < unat (tier_weight t)) \<and> 0 < unat (pool_price p) \<and>
    0 < unat (pool_bond_per_draw p) \<and> 0 < unat (pool_deadline_slots p) \<and> due p MAX_COUNT < 2 ^ 64 \<and> solvent L' P V"
proof -
  from c obtain a d where a: "try_create_pool_accounts E L [authority, P, operator, mint, V, system_program,
      event_authority, program] = Inr a" and d: "try_create_pool_data data = Inr d" and pr: "create_pool_process E a d L = Inr L'"
    by (auto simp: create_pool_def)
  note A = try_create_pool_accounts_Inr [OF a] and D = try_create_pool_data_Inr [OF d]
  let ?ws = "take (unat (cp_tier_count d)) (cp_weights d)"
  from pr A obtain L1 p0 p where
    addr: "env_create_program_address E (pool_seeds (info_key authority) (cp_id d) (cp_bump d)) ID = Some (info_key P)"
    and v: "info_key V = ata E (info_key P) (info_key mint)"
    and cr: "create_pda E authority P POOL_LEN (pool_seeds (info_key authority) (cp_id d) (cp_bump d)) L = Inr L1"
    and p0: "load_new_pool L1 P = Inr p0"
    and p: "pool_set_inner (cp_bump d) (info_key authority) (info_key operator) (info_key mint) (info_key V) (cp_id d)
      (cp_price d) (cp_deadline_slots d) (cp_bond_per_draw d) ?ws p0 = Inr p"
    and em: "emit E (CreatePoolEvent (info_key P)) event_authority program (put_pool P p L1) = Inr L'"
    by (auto simp: create_pool_process_def Let_def pool_seeds_def split: if_splits)
  have L': "L' = put_pool P p L1" using emit_same [OF ok em] .
  have C: "acct_owner (acct L1 P) = ID" "data_of L1 P = replicate POOL_LEN 0"
    using create_pda_Inr [OF ok cr] by simp_all
  have z: "p0 = decode_pool (replicate POOL_LEN 0)"
    using p0 C(2) by (auto simp: load_new_pool_def load_new_view_def Let_def split: if_splits)
  have n: "length ?ws = unat (cp_tier_count d)" "length ?ws \<le> 8" using D by auto
  note pf = set_inner_zero [OF p [unfolded z] n(2), unfolded n(1)]
  note W = put_pool_views [OF pf(15), where a = P and L = L1]
  have at: "pool_at L' P = p" "index_at L' P = []" "length (data_of L' P) = POOL_LEN"
    using W C(2) unfolding L' by (simp_all add: index_at_def)
  have "load_pool L' P = Inr p"
    using at pf(1,10) C(1) unfolding L' by (simp add: load_pool_Inr inventory_space_def div_ceil_def)
  moreover have "pool_valid p" using pf(14,15) D by (simp add: pool_valid_def)
  ultimately have "pool_ok L' P []"
    using pf(10,14,17) at index_rep_empty by (simp add: pool_ok_def)
  moreover have "0 < unat (tier_weight t)" if "t \<in> set (tiers_of p)" for t
  proof -
    have "tier_weight t \<in> set ?ws" using that pf(16) by (metis image_eqI set_map)
    with D have "tier_weight t \<noteq> 0" by metis
    then show ?thesis by (simp add: unat_gt_0)
  qed
  moreover have "solvent L' P V" using pf(11) at(1) by (simp add: solvent_def due_def)
  ultimately show ?thesis using A D addr v d pf at(1) by (intro exI [of _ d] exI [of _ p]) (simp add: due_def)
qed

text \<open>
  C22: a new pool is well formed and safe to use. It is created only at the address derived for its
  signing authority, with the vault that is the pool's own token account; it starts paused, empty,
  with no pending draw and the queue at zero, with the given terms; every tier has a positive weight,
  price, bond and deadline are positive, and the refund of a full purchase cannot overflow.
\<close>

theorem create_pool_initial:
  assumes ok: "runtime_ok E"
    and c: "create_pool E [authority, P, operator, mint, V, system_program, event_authority, program] data L = Inr L'"
  shows "\<exists>d p. try_create_pool_data data = Inr d \<and> p = pool_at L' P \<and> is_signer authority \<and>
    env_create_program_address E (pool_seeds (info_key authority) (cp_id d) (cp_bump d)) ID = Some (info_key P) \<and>
    info_key V = ata E (info_key P) (info_key mint) \<and> data_of L P = [] \<and> pool_ok L' P [] \<and>
    pool_status p = POOL_PAUSED \<and> pool_pending_draws p = 0 \<and> pool_next_index p = 0 \<and> pool_next_settle p = 0 \<and>
    pool_authority p = info_key authority \<and> pool_operator p = info_key operator \<and>
    pool_payment_mint p = info_key mint \<and> pool_vault p = info_key V \<and> pool_price p = cp_price d \<and>
    pool_bond_per_draw p = cp_bond_per_draw d \<and> pool_deadline_slots p = cp_deadline_slots d \<and>
    map tier_weight (tiers_of p) = take (unat (cp_tier_count d)) (cp_weights d) \<and>
    (\<forall>t \<in> set (tiers_of p). 0 < unat (tier_weight t)) \<and> 0 < unat (pool_price p) \<and>
    0 < unat (pool_bond_per_draw p) \<and> 0 < unat (pool_deadline_slots p) \<and> due p MAX_COUNT < 2 ^ 64 \<and> solvent L' P V"
  by (rule create_pool_Inr [OF ok c])

end
