(* ===== verification/Buyback_Correct.thy ===== *)
theory Buyback_Correct
  imports Admin_Correct
begin

section \<open>Buybacks\<close>

text \<open>
  A buyback is a deposit by a player, paid from the vault against a quote that the authority signed.
\<close>

lemma try_buyback_accounts_Inr:
  assumes "try_buyback_accounts E L [payer, seller, P, I, asset, collection, V, destination, core_program, token_program,
    system_program, event_authority, program] = Inr a"
  shows "is_signer payer \<and> is_signer seller \<and> is_writable P \<and> is_writable I \<and> acct_owner (acct L destination) = env_token_id E \<and>
    length (data_of L destination) = 165 \<and> load_pool L P = Inr (pool_at L P) \<and>
    pool_status (pool_at L P) = POOL_ACTIVE \<and> pool_vault (pool_at L P) = info_key V \<and>
    from_le (slice 32 32 (data_of L destination)) = info_key seller \<and>
    a = \<lparr>bb_payer = payer, bb_seller = seller, bb_pool = P, bb_item = I, bb_asset = asset, bb_collection = collection,
      bb_vault = V, bb_destination = destination, bb_core_program = core_program, bb_system_program = system_program,
      bb_event_authority = event_authority, bb_program = program\<rparr>"
  using assms by (auto simp: try_buyback_accounts_def load_pool_Inr load_token_Inr split: if_splits)

lemma try_buyback_data_Inr:
  "try_buyback_data E data = Inr d \<Longrightarrow> length data = 82 \<and> bb_tier d = data ! 0 \<and> bb_price d = from_le (slice 1 8 data) \<and>
   bb_expires_at d = from_le (slice 9 8 data) \<and> bb_signature d = slice 17 64 data \<and> bb_bump d = data ! 81 \<and>
   (\<exists>clock. env_clock E = Inr clock \<and> sint (clock_unix_timestamp clock) < sint (bb_expires_at d))"
  by (auto simp: try_buyback_data_def Let_def not_le split: if_splits)

text \<open>A Core transfer leaves the program's accounts and the token accounts.\<close>

lemma core_transfer_keeps:
  assumes ok: "runtime_ok E" and core: "core_transfer_invoke E t seeds L = Inr L'"
    and k: "acct_owner (L k) = ID \<or> acct_owner (L k) = env_token_id E"
  shows "same_at k L L'"
  using k invoke_keeps [OF ok core [unfolded core_transfer_invoke_def]] ok core
  unfolding runtime_ok_def core_law_def core_transfer_invoke_def by blast

text \<open>A vault that pays what is spendable still covers the refunds.\<close>

lemma solvent_paid:
  assumes ok: "runtime_ok E" and P: "stock_step L P tags L1" and V: "balance L1 V = balance L V"
    and sp: "spendable E L (pool_at L P) V = Inr free" and le: "amount \<le> free"
    and tr: "env_invoke E (TokenTransfer V to P amount) seeds L1 = Inr L'" and same: "stock_step L P tags L'"
  shows "solvent L' P V"
proof -
  let ?p = "pool_at L P"
  have "due ?p (unat (pool_pending_draws ?p)) + unat amount \<le> unat (balance L1 V)"
    using spendable_Inr [OF sp] le V by (simp add: word_le_nat_alt)
  then have "due ?p (unat (pool_pending_draws ?p)) \<le> unat (balance L' V)" by (rule vault_after_transfer [OF ok tr])
  moreover have "due (pool_at L' P) n = due ?p n" for n using same by (intro due_terms) (simp add: stock_step_def)
  ultimately show ?thesis using same by (simp add: solvent_def stock_step_def)
qed

text \<open>
  The parts of a successful buyback: the checks, then the Core transfer of the asset to the pool, the
  restock and the payment, in this order.
\<close>

lemma buyback_parts:
  assumes ok: "runtime_ok E"
    and b: "buyback E [payer, seller, P, I, asset, collection, V, destination, core_program, token_program,
      system_program, event_authority, program] data L = Inr L'"
  obtains a d free position L1 L2 where
    "try_buyback_accounts E L [payer, seller, P, I, asset, collection, V, destination, core_program, token_program,
      system_program, event_authority, program] = Inr a" "try_buyback_data E data = Inr d"
    "env_verify_strict E (pool_authority (pool_at L P)) (slice 17 64 data)
      (buyback_message (info_key P) (info_key asset) (from_le (slice 1 8 data)) (from_le (slice 9 8 data)) (data ! 0))"
    "spendable E L (pool_at L P) V = Inr free" "(from_le (slice 1 8 data) :: u64) \<le> free"
    "check_restock E (pool_at L P) (info_key P) I (data ! 0) (data ! 81) L = Inr position"
    "core_transfer_invoke E \<lparr>ct_payer = payer, ct_authority = seller, ct_new_owner = P, ct_asset = asset,
      ct_collection = collection, ct_core_program = core_program, ct_system_program = system_program\<rparr> [] L = Inr L1"
    "restock E payer P I (info_key asset) (data ! 0) (data ! 81) L1 = Inr L2"
    "pay E P V destination (from_le (slice 1 8 data)) L2 = Inr L'"
proof -
  let ?accs = "[payer, seller, P, I, asset, collection, V, destination, core_program, token_program,
      system_program, event_authority, program]"
  from b obtain a d where a: "try_buyback_accounts E L ?accs = Inr a" and d: "try_buyback_data E data = Inr d"
    and pr: "buyback_process E a d L = Inr L'" by (auto simp: buyback_def)
  note A = try_buyback_accounts_Inr [OF a] and D = try_buyback_data_Inr [OF d]
  let ?p = "pool_at L P" and ?price = "from_le (slice 1 8 data) :: u64" and ?expires_at = "from_le (slice 9 8 data) :: i64"
  from pr A D obtain free position L1 L2 L3 where
    sig: "env_verify_strict E (pool_authority ?p) (slice 17 64 data)
      (buyback_message (info_key P) (info_key asset) ?price ?expires_at (data ! 0))"
    and sp: "spendable E L ?p V = Inr free" and le: "?price \<le> free"
    and ck: "check_restock E ?p (info_key P) I (data ! 0) (data ! 81) L = Inr position"
    and core: "core_transfer_invoke E \<lparr>ct_payer = payer, ct_authority = seller, ct_new_owner = P, ct_asset = asset,
      ct_collection = collection, ct_core_program = core_program, ct_system_program = system_program\<rparr> [] L = Inr L1"
    and rs: "restock E payer P I (info_key asset) (data ! 0) (data ! 81) L1 = Inr L2"
    and pay: "pay E P V destination ?price L2 = Inr L3"
    and em: "emit E (BuybackEvent (info_key P) (info_key asset) (info_key seller) ?price position) event_authority program L3 = Inr L'"
    by (auto simp: buyback_process_def not_less split: if_splits)
  show thesis using that [OF a d sig sp le ck core rs] pay emit_same [OF ok em] by simp
qed

lemma buyback_Inr:
  assumes ok: "runtime_ok E" and P: "pool_ok L P tags"
    and b: "buyback E [payer, seller, P, I, asset, collection, V, destination, core_program, token_program,
      system_program, event_authority, program] data L = Inr L'"
  defines "price \<equiv> from_le (slice 1 8 data) :: u64" and "expires_at \<equiv> from_le (slice 9 8 data) :: i64"
  shows "\<exists>clock. is_signer seller \<and> pool_status (pool_at L P) = POOL_ACTIVE \<and> info_key V = pool_vault (pool_at L P) \<and>
    env_clock E = Inr clock \<and> sint (clock_unix_timestamp clock) < sint expires_at \<and>
    env_verify_strict E (pool_authority (pool_at L P)) (slice 17 64 data)
      (buyback_message (info_key P) (info_key asset) price expires_at (data ! 0)) \<and>
    from_le (slice 32 32 (data_of L destination)) = info_key seller \<and>
    stock_step L P (tags @ [tier_tag (unat (data ! 0))]) L' \<and>
    load_item L' I = Inr \<lparr>item_version = ITEM_VERSION, item_bump = data ! 81, item_tier = data ! 0, item_padding = 0,
      item_position = pool_inventory_version (pool_at L P), item_pool = info_key P, item_asset = info_key asset\<rparr> \<and>
    (info_key V \<noteq> info_key destination \<longrightarrow> unat (balance L' V) + unat price = unat (balance L V)) \<and>
    (info_key V \<noteq> info_key destination \<longrightarrow> unat (balance L' destination) = unat (balance L destination) + unat price) \<and>
    solvent L' P V"
proof -
  let ?p = "pool_at L P"
  obtain a d free position L1 L2 where
    a: "try_buyback_accounts E L [payer, seller, P, I, asset, collection, V, destination, core_program, token_program,
      system_program, event_authority, program] = Inr a" and d: "try_buyback_data E data = Inr d"
    and sig: "env_verify_strict E (pool_authority ?p) (slice 17 64 data)
      (buyback_message (info_key P) (info_key asset) price expires_at (data ! 0))"
    and sp: "spendable E L ?p V = Inr free" and le: "price \<le> free"
    and ck: "check_restock E ?p (info_key P) I (data ! 0) (data ! 81) L = Inr position"
    and core: "core_transfer_invoke E \<lparr>ct_payer = payer, ct_authority = seller, ct_new_owner = P, ct_asset = asset,
      ct_collection = collection, ct_core_program = core_program, ct_system_program = system_program\<rparr> [] L = Inr L1"
    and rs: "restock E payer P I (info_key asset) (data ! 0) (data ! 81) L1 = Inr L2"
    and pay: "pay E P V destination price L2 = Inr L'"
    unfolding price_def expires_at_def by (rule buyback_parts [OF ok b])
  note A = try_buyback_accounts_Inr [OF a] and D = try_buyback_data_Inr [OF d]
  note K = check_restock_Inr [OF ck] and S = spendable_Inr [OF sp] and PD = pool_okD [OF P]
  note core' = core_transfer_keeps [OF ok core]
  have own: "acct_owner (L (info_key P)) = ID" "acct_owner (L (info_key V)) = env_token_id E"
    using PD(5) S by (simp_all add: acct_def)
  have P1: "pool_ok L1 P tags" "pool_at L1 P = ?p"
    using core' [of "info_key P"] own(1) P by (simp_all add: pool_ok_same same_at_views)
  have PI: "info_key I \<noteq> info_key P"
    using K PD(5) runtime_okD(2) [OF ok] by (auto simp: acct_def)
  have token: "info_key t \<noteq> info_key P" "info_key t \<noteq> info_key I"
    if "acct_owner (acct L t) = env_token_id E" "length (data_of L t) = 165" for t
    using that own(1) K runtime_okD(3) [OF ok] by (auto simp: acct_def data_of_def)
  have V165: "length (data_of L V) = 165" using sp by (auto simp: spendable_def load_token_Inr)
  note R = restock_Inr [OF ok P1(1) rs PI]
  let ?tags = "tags @ [tier_tag (unat (data ! 0))]"
  have step2: "stock_step L P ?tags L2" using R P1(2) by (simp add: stock_step_def)
  then have P2: "pool_ok L2 P ?tags" by (simp add: stock_step_def)
  have "same_at (info_key t) L L2" if "acct_owner (acct L t) = env_token_id E" "length (data_of L t) = 165" for t
    using core' [of "info_key t"] that R token [OF that] by (auto simp: acct_def intro: same_at_trans)
  then have V2: "balance L2 V = balance L V" and D2: "balance L2 destination = balance L destination"
    using own(2) V165 A by (simp_all add: same_at_views acct_def)
  from pay pool_okD(1) [OF P2] have tr: "env_invoke E (TokenTransfer V destination P price)
      [pool_signer_seeds (pool_at L2 P)] L2 = Inr L'" by (simp add: pay_def)
  have keep: "same_at k L2 L'" if "acct_owner (L2 k) = ID" for k
    using invoke_keeps [OF ok tr that] .
  have own2: "acct_owner (L2 (info_key P)) = ID" "acct_owner (L2 (info_key I)) = ID"
    using pool_okD(5) [OF P2] R by (auto simp: acct_def load_item_Inr)
  have step: "stock_step L P ?tags L'"
    using stock_step_trans [OF step2] stock_step_same [OF keep [OF own2(1)] P2] by blast
  have "load_item L' I = load_item L2 I" using same_at_views(2) [OF keep [OF own2(2)]] .
  moreover have "unat (balance L' V) + unat price = unat (balance L V)" if "info_key V \<noteq> info_key destination"
    using token_transfer_Inr(2) [OF ok tr that] V2 by simp
  moreover have "unat (balance L' destination) = unat (balance L destination) + unat price" if "info_key V \<noteq> info_key destination"
    using token_transfer_Inr(2) [OF ok tr that] D2 by simp
  moreover have "solvent L' P V"
    using solvent_paid [OF ok step2 V2 sp le tr] step by blast
  ultimately show ?thesis using A D sig R P1(2) step by (auto simp: expires_at_def)
qed

text \<open>
  C19: a buyback pays only what the authority quoted and the refunds can spare, and only for the prize.
  It succeeds only with an unexpired signature of the pool's authority over exactly this pool, asset,
  price, expiry and tier. The asset is transferred from the seller to the pool by Core, on the resulting
  ledger the stock gains it as its last position, and on that ledger the quoted price goes from the
  vault to a token account of the seller; the vault still covers the refund of every pending draw.
\<close>

theorem buyback_pays_quote:
  assumes ok: "runtime_ok E" and P: "pool_ok L P tags"
    and b: "buyback E [payer, seller, P, I, asset, collection, V, destination, core_program, token_program,
      system_program, event_authority, program] data L = Inr L'"
  defines "price \<equiv> from_le (slice 1 8 data) :: u64" and "expires_at \<equiv> from_le (slice 9 8 data) :: i64"
  shows "\<exists>clock. is_signer seller \<and> pool_status (pool_at L P) = POOL_ACTIVE \<and> info_key V = pool_vault (pool_at L P) \<and>
    env_clock E = Inr clock \<and> sint (clock_unix_timestamp clock) < sint expires_at \<and>
    env_verify_strict E (pool_authority (pool_at L P)) (slice 17 64 data)
      (buyback_message (info_key P) (info_key asset) price expires_at (data ! 0)) \<and>
    from_le (slice 32 32 (data_of L destination)) = info_key seller \<and>
    stock_step L P (tags @ [tier_tag (unat (data ! 0))]) L' \<and>
    load_item L' I = Inr \<lparr>item_version = ITEM_VERSION, item_bump = data ! 81, item_tier = data ! 0, item_padding = 0,
      item_position = pool_inventory_version (pool_at L P), item_pool = info_key P, item_asset = info_key asset\<rparr> \<and>
    (info_key V \<noteq> info_key destination \<longrightarrow> unat (balance L' V) + unat price = unat (balance L V) \<and>
      unat (balance L' destination) = unat (balance L destination) + unat price) \<and>
    solvent L' P V \<and> is_signer payer \<and> is_writable P \<and> is_writable I \<and> length data = 82 \<and>
    unat (data ! 0) < unat (pool_tier_count (pool_at L P)) \<and>
    (\<exists>L1 L2. core_transfer_invoke E \<lparr>ct_payer = payer, ct_authority = seller, ct_new_owner = P, ct_asset = asset,
        ct_collection = collection, ct_core_program = core_program, ct_system_program = system_program\<rparr> [] L = Inr L1 \<and>
      restock E payer P I (info_key asset) (data ! 0) (data ! 81) L1 = Inr L2 \<and> pay E P V destination price L2 = Inr L')"
proof -
  obtain a d free position L1 L2 where
    a: "try_buyback_accounts E L [payer, seller, P, I, asset, collection, V, destination, core_program, token_program,
      system_program, event_authority, program] = Inr a" and d: "try_buyback_data E data = Inr d"
    and ck: "check_restock E (pool_at L P) (info_key P) I (data ! 0) (data ! 81) L = Inr position"
    and moved: "core_transfer_invoke E \<lparr>ct_payer = payer, ct_authority = seller, ct_new_owner = P, ct_asset = asset,
      ct_collection = collection, ct_core_program = core_program, ct_system_program = system_program\<rparr> [] L = Inr L1"
      "restock E payer P I (info_key asset) (data ! 0) (data ! 81) L1 = Inr L2" "pay E P V destination price L2 = Inr L'"
    unfolding price_def by (rule buyback_parts [OF ok b])
  then show ?thesis
    using buyback_Inr [OF ok P b, folded price_def expires_at_def] try_buyback_accounts_Inr [OF a] try_buyback_data_Inr [OF d]
      check_restock_Inr [OF ck] by (auto simp: word_less_nat_alt)
qed

end
