(* ===== verification/Witnesses.thy ===== *)
theory Witnesses
  imports Example Player_Correct Operator_Correct Admin_Correct Buyback_Correct
begin

section \<open>The instructions on concrete ledgers\<close>

text \<open>
  Every property of a handler has a witness here: the handler succeeds on a ledger of theory
  \<open>Example\<close> under the runtime \<open>example_env\<close>, and the property, applied to that run, gives the
  concrete values.
\<close>

definition pool_a :: pool where
  "pool_a = sample_pool\<lparr>pool_vault := 2000\<rparr>"

lemma pool_a:
  "fits_example (pool_a\<lparr>pool_pending_draws := n, pool_status := s\<rparr>)" "fits_example pool_a"
  "pool_pending_draws pool_a = 1" "pool_price pool_a = 100" "pool_bond_per_draw pool_a = 10"
  "pool_status pool_a = 1" "pool_authority pool_a = 7" "pool_operator pool_a = 8" "pool_vault pool_a = 2000"
  "pool_next_settle pool_a = 0" "pool_next_index pool_a = 1" "pool_deadline_slots pool_a = 50"
  "pool_inventory_version pool_a = 3" "pool_tier_count pool_a = 2" "pool_wf pool_a" "pool_tiers_all pool_a = sample_tiers"
  "pool_version pool_a = 1"
  by (simp_all add: fits_example_def pool_a_def sample_pool_def pool_wf_def sample_tiers_def)

lemma emit_example [simp]: "event_fits e \<Longrightarrow> emit example_env e a b L = Inr L"
  by (simp add: emit_def event_data_fits emit_data_def example_env_def program_ids)

lemma example_env_simps [simp]:
  "env_invoke example_env = example_invoke" "env_clock example_env = Inr \<lparr>clock_slot = 100, clock_unix_timestamp = 1000\<rparr>"
  "env_system_id example_env = 0" "env_token_id example_env = 5"
  "env_close example_env a = Inr system_account"
  "env_create_program_address example_env seeds program = Some (word_of_nat (1000 + length (concat seeds)))"
  "env_rent example_env = Inr (\<lambda>space. word_of_nat (space + 1))"
  by (simp_all add: example_env_def)

lemma move_tokens_ok:
  assumes "acct_owner (acct L src) = 5" "acct_owner (acct L dst) = 5" "length (data_of L src) = 165"
    "length (data_of L dst) = 165" "info_key src \<noteq> info_key dst" "unat n \<le> unat (balance L src)"
    "unat (balance L dst) + unat n < 2 ^ 64"
  shows "\<exists>L'. move_tokens src dst n L = Inr L' \<and>
    (\<forall>a. info_key a \<noteq> info_key src \<longrightarrow> info_key a \<noteq> info_key dst \<longrightarrow> acct L' a = acct L a)"
  using assms by (auto simp: move_tokens_def checked_add_def checked_sub_def)

lemma close_ok:
  assumes "unat (acct_lamports (acct L to)) + unat (acct_lamports (acct L a)) < 2 ^ 64"
  shows "close example_env a to L = Inr (L(info_key to := acct L to\<lparr>acct_lamports := acct_lamports (acct L to) + acct_lamports (acct L a)\<rparr>,
     info_key a := system_account))"
  using assms by (simp add: close_def checked_add_def Let_def)


lemma core_ok:
  assumes "acct_owner (acct L (ct_asset t)) = CORE_ID"
  shows "core_transfer_invoke example_env t signers L =
    Inr (write_data (ct_asset t) (splice_at 1 (to_le (info_key (ct_new_owner t))) (data_of L (ct_asset t))) L)"
  using assms by (simp add: core_transfer_invoke_def)

subsection \<open>withdraw\<close>

definition withdraw_infos :: "account_info list" where
  "withdraw_infos = map info [7, 1045, 2000, 21, 5, 2, 3]"

lemma withdraw_run:
  "\<exists>L'. withdraw example_env withdraw_infos (to_le (50 :: u64)) (example_ledger pool_a []) = Inr L'"
  using move_tokens_ok [of "example_ledger pool_a []" "info 2000" "info 21" 50]
  by (auto simp: withdraw_infos_def withdraw_def try_withdraw_accounts_def try_withdraw_data_def withdraw_process_def
      spendable_def refund_amount_def checked_add_def checked_mul_def checked_sub_def pay_def slice_all
      example_views pool_a example_ledger_at data_of_acct)

theorem withdraw_leaves_refunds_witness:
  "\<exists>L'. withdraw example_env withdraw_infos (to_le (50 :: u64)) (example_ledger pool_a []) = Inr L' \<and>
     unat (balance L' (info 2000)) = 950"
proof -
  from withdraw_run obtain L' where L': "withdraw example_env withdraw_infos (to_le (50 :: u64)) (example_ledger pool_a []) = Inr L'"
    by blast
  show ?thesis
    using withdraw_leaves_refunds [OF example_runtime_ok L' [unfolded withdraw_infos_def list.map]] L'
    by (simp add: slice_all example_views pool_a)
qed

subsection \<open>set\_status\<close>

theorem set_status_exact_witness:
  "\<exists>L'. set_status example_env (map info [7, 1045, 2, 3]) [2] (example_ledger pool_a []) = Inr L' \<and>
     pool_status (pool_at L' (info 1045)) = POOL_RETIRED"
proof -
  obtain L' where L': "set_status example_env [info 7, info 1045, info 2, info 3] [2] (example_ledger pool_a []) = Inr L'"
    by (simp add: set_status_def try_set_status_accounts_def try_set_status_data_def set_status_process_def
        example_views pool_a)
  show ?thesis
    using set_status_exact [OF example_runtime_ok example_views(4) [OF pool_a(2)] L'] L' by simp
qed

subsection \<open>refund\<close>

text \<open>A pending pull of one draw whose deadline, slot 50, is over.\<close>

definition late_pull :: pull where
  "late_pull = example_pull\<lparr>pull_deadline_slot := 50\<rparr>"

lemma late_pull:
  "pull_wf late_pull" "pull_version late_pull = 1" "pull_pool late_pull = 1045" "pull_status late_pull = STATUS_PENDING"
  "pull_index late_pull = 0" "pull_deadline_slot late_pull = 50" "pull_buyer late_pull = 20" "pull_count late_pull = 1"
  by (simp_all add: late_pull_def example_pull_def pull_wf_def)

lemma refund_run:
  "\<exists>L'. refund example_env (map info [1045, 1069, 20, 2000, 21, 5, 2, 3]) (example_ledger pool_a (encode_pull late_pull)) = Inr L'"
proof -
  let ?L = "put_pool (info 1045) (pool_a\<lparr>pool_pending_draws := 0, pool_next_settle := 1\<rparr>) (example_ledger pool_a (encode_pull late_pull))"
  have at: "acct ?L (info k) = acct (example_ledger pool_a (encode_pull late_pull)) (info k)" 
     "data_of ?L (info k) = data_of (example_ledger pool_a (encode_pull late_pull)) (info k)" if "k \<noteq> 1045" for k
    using that by (simp_all add: put_pool_def)
  have "\<exists>L'. move_tokens (info 2000) (info 21) 110 ?L = Inr L' \<and>
      (\<forall>a. info_key a \<noteq> info_key (info 2000) \<longrightarrow> info_key a \<noteq> info_key (info 21) \<longrightarrow> acct L' a = acct ?L a)"
    by (rule move_tokens_ok) (simp_all add: at balance_def data_of_acct example_ledger_at)
  then obtain L' where L': "move_tokens (info 2000) (info 21) 110 ?L = Inr L'"
    "\<And>a. info_key a \<noteq> 2000 \<Longrightarrow> info_key a \<noteq> 21 \<Longrightarrow> acct L' a = acct ?L a" by auto
  have "acct_lamports (acct L' (info 20)) = 100000" "acct_lamports (acct L' (info 1069)) = 0"
    by (simp_all add: L'(2) at example_ledger_at)
  then show ?thesis using L'(1)
    by (simp add: refund_def try_refund_accounts_def refund_process_def
      refund_amount_def checked_add_def checked_mul_def checked_sub_def add_ov_def sub_ov_def close_ok
      example_views pool_a late_pull)
qed

theorem refund_pays_head_witness:
  "\<exists>L'. refund example_env (map info [1045, 1069, 20, 2000, 21, 5, 2, 3])
      (example_ledger pool_a (encode_pull late_pull)) = Inr L' \<and>
     unat (balance L' (info 21)) = 1110 \<and> pool_next_settle (pool_at L' (info 1045)) = 1 \<and> data_of L' (info 1069) = []"
proof -
  let ?L = "example_ledger pool_a (encode_pull late_pull)"
  obtain L' where L': "refund example_env [info 1045, info 1069, info 20, info 2000, info 21, info 5, info 2, info 3] ?L = Inr L'"
    using refund_run by auto
  show ?thesis
    using refund_pays_head [OF example_runtime_ok example_views(4) [OF pool_a(2)] L'] L'
    by (auto simp: example_views pool_a late_pull due_def)
qed

subsection \<open>deliver\<close>

text \<open>A settled pull of two awards, the assets 40 and 41; the first is delivered.\<close>

definition won_pull :: pull where
  "won_pull = example_pull\<lparr>pull_status := STATUS_SETTLED, pull_count := 2,
     pull_outcomes := [\<lparr>outcome_tier = 0, outcome_asset = 40\<rparr>, \<lparr>outcome_tier = 1, outcome_asset = 41\<rparr>]
       @ replicate 8 \<lparr>outcome_tier = 0, outcome_asset = 0\<rparr>\<rparr>"

lemma won_pull:
  "pull_wf won_pull" "pull_version won_pull = 1" "pull_pool won_pull = 1045" "pull_status won_pull = STATUS_SETTLED"
  "pull_buyer won_pull = 20" "pull_count won_pull = 2"
  "pull_outcomes won_pull = [\<lparr>outcome_tier = 0, outcome_asset = 40\<rparr>, \<lparr>outcome_tier = 1, outcome_asset = 41\<rparr>]
       @ replicate 8 \<lparr>outcome_tier = 0, outcome_asset = 0\<rparr>"
  by (simp_all add: won_pull_def example_pull_def pull_wf_def)

lemma deliver_run:
  "\<exists>L'. deliver example_env (map info [4, 1045, 1069, 20, 40, 41, 11, 12, 2, 3]) [0]
     (example_ledger pool_a (encode_pull won_pull)) = Inr L'"
proof -
  let ?L = "example_ledger pool_a (encode_pull won_pull)"
  have own: "acct_owner (acct ?L (info 40)) = CORE_ID" by (simp add: example_ledger_at)
  have at: "pull_at (write_data (info 40) d ?L) (info 1069) = won_pull" for d
    using example_views(11) [OF pool_a(2) won_pull(1)] by (simp add: pull_at_def)
  have wf: "pull_wf (won_pull\<lparr>pull_outcomes := (pull_outcomes won_pull)[0 := x]\<rparr>)" for x
    by (simp add: pull_wf_def won_pull)
  show ?thesis
    by (simp add: deliver_def try_deliver_accounts_def try_deliver_data_def deliver_process_def example_views pool_a won_pull
        pull_outcome_def core_transfer_invoke_def own at pull_mark_delivered_def put_pull_views pull_wf_def pull_all_delivered_def)
qed

theorem deliver_once_to_buyer_witness:
  "\<exists>L'. deliver example_env (map info [4, 1045, 1069, 20, 40, 41, 11, 12, 2, 3]) [0]
      (example_ledger pool_a (encode_pull won_pull)) = Inr L' \<and>
    deliver example_env (map info [4, 1045, 1069, 20, 40, 41, 11, 12, 2, 3]) [0] L' = Inl (gerr InvalidOutcome)"
proof -
  let ?L = "example_ledger pool_a (encode_pull won_pull)"
  obtain L' where L': "deliver example_env [info 4, info 1045, info 1069, info 20, info 40, info 41, info 11,
      info 12, info 2, info 3] [0] ?L = Inr L'"
    using deliver_run by auto
  have "\<not> (\<forall>j < 2. j = 0 \<or> outcome_tier (pull_outcomes won_pull ! j) = DELIVERED)"
    by (auto simp: won_pull intro!: exI [of _ 1])
  then show ?thesis
    using deliver_once_to_buyer [OF example_runtime_ok L'] L'
    by (simp add: example_views(11) [OF pool_a(2) won_pull(1)] won_pull(6))
qed

subsection \<open>buy\<close>

lemma create_ok:
  assumes "acct_owner (acct L a) = 0" "data_of L a = []" "acct_lamports (acct L a) = 0" "info_key payer \<noteq> info_key a"
    and "unat (word_of_nat (space + 1) :: u64) \<le> unat (acct_lamports (acct L payer))"
  shows "\<exists>L'. create_pda example_env payer a space seeds L = Inr L'"
  using assms
  by (simp add: create_pda_def move_lamports_def checked_sub_def checked_add_def acct_def data_of_def Let_def)

lemma decode_zero_version:
  "pull_version (decode_pull (replicate 450 0)) = 0" "pool_version (decode_pool (replicate 256 0)) = 0"
  "item_version (decode_item (replicate 72 0)) = 0"
  by (simp_all add: decode_pull_def decode_pool_def decode_item_def from_le_def)

definition buy_bytes :: bytes where
  "buy_bytes = 1 # to_le (77 :: bytes32) @ to_le (3 :: u32) @ [0]"

lemma buy_bytes:
  "length buy_bytes = 38" "buy_bytes ! 0 = 1" "slice (Suc 0) 32 buy_bytes = to_le (77 :: bytes32)"
  "slice 33 4 buy_bytes = to_le (3 :: u32)" "buy_bytes ! 37 = 0"
  by (simp_all add: buy_bytes_def slice_def nth_append)

lemma buy_run:
  "\<exists>L'. buy example_env (map info [20, 1045, 1069, 21, 2000, 5, 0, 2, 3]) buy_bytes (example_ledger pool_a []) = Inr L'"
proof -
  let ?L = "example_ledger pool_a []" and ?P = "info 1045" and ?U = "info 1069"
  have "\<exists>L'. create_pda example_env (info 20) ?U PULL_LEN (pull_seeds 1045 77 0) ?L = Inr L'"
    by (rule create_ok) (simp_all add: data_of_acct example_ledger_at system_account_def)
  then obtain L1 where cr: "create_pda example_env (info 20) ?U PULL_LEN (pull_seeds 1045 77 0) ?L = Inr L1" ..
  note C = create_pda_Inr [OF example_runtime_ok cr]
  have same: "same_at k ?L L1" if "k \<noteq> 1069" for k using C that by simp
  have pool: "pool_at L1 ?P = pool_a"
    using same_at_views(4) [OF same, of ?P] example_views(2) [OF pool_a(2)] by simp
  have data: "data_of L1 (info k) = data_of ?L (info k)" "acct_owner (acct L1 (info k)) = acct_owner (acct ?L (info k))"
    if "k \<noteq> 1069" for k using same_at_data [OF same, of "info k"] that by simp_all
  let ?u = "pull_set_inner 0 1 3 1 150 1045 20 77 (decode_pull (replicate 450 0))"
  let ?L2 = "put_pool ?P (pool_a\<lparr>pool_pending_draws := 2, pool_next_index := 2\<rparr>) (put_pull ?U ?u L1)"
  have at: "pool_at (put_pull ?U ?u L1) ?P = pool_a"
    using same_at_views(4) [OF put_frame(3), where a = ?P and L = L1] pool by simp
  have data2: "data_of ?L2 (info k) = data_of ?L (info k)" "acct_owner (acct ?L2 (info k)) = acct_owner (acct ?L (info k))"
    if "k \<noteq> 1069" "k \<noteq> 1045" for k
    using data [OF that(1)] that by (simp_all add: put_pool_def put_pull_def)
  have "\<exists>L'. move_tokens (info 21) (info 2000) 100 ?L2 = Inr L' \<and>
      (\<forall>a. info_key a \<noteq> info_key (info 21) \<longrightarrow> info_key a \<noteq> info_key (info 2000) \<longrightarrow> acct L' a = acct ?L2 a)"
    by (rule move_tokens_ok) (simp_all add: data data2 balance_def, simp_all add: data_of_acct example_ledger_at)
  then obtain L' where L': "move_tokens (info 21) (info 2000) 100 ?L2 = Inr L'" by blast
  have new: "load_new_pull L1 ?U = Inr (decode_pull (replicate 450 0))"
    using C by (simp add: load_new_pull_def load_new_view_def decode_zero_version)
  have un: "check_uninitialized example_env ?L ?U = Inr ()"
    by (simp add: check_uninitialized_def data_of_acct example_ledger_at)
  have "remaining_total pool_a = Inr 3"
    by (simp add: remaining_total_def pool_tiers_def pool_a sample_tiers_def sum_ov_def add_ov_def)
  then show ?thesis using cr L'
    by (simp add: buy_def try_buy_accounts_def try_buy_data_def buy_bytes buy_process_def buy_reserve_def un new pool at
        example_views pool_a refund_amount_def payment_def checked_add_def checked_mul_def add_ov_def Let_def PULL_SEED_def)
qed

theorem buy_reserves_witness:
  "\<exists>L'. buy example_env (map info [20, 1045, 1069, 21, 2000, 5, 0, 2, 3]) buy_bytes (example_ledger pool_a []) = Inr L' \<and>
     pool_next_index (pool_at L' (info 1045)) = 2 \<and> unat (pool_pending_draws (pool_at L' (info 1045))) = 2 \<and>
     unat (balance L' (info 2000)) = 1100 \<and> pull_index (pull_at L' (info 1069)) = 1"
proof -
  obtain L' where L': "buy example_env [info 20, info 1045, info 1069, info 21, info 2000, info 5, info 0, info 2, info 3]
      buy_bytes (example_ledger pool_a []) = Inr L'"
    using buy_run by auto
  have "info_key (info 21) \<noteq> info_key (info 2000)" by simp
  from buy_reserves [OF example_runtime_ok example_views(4) [OF pool_a(2)] this L'] L'
  show ?thesis by (auto simp: example_views pool_a buy_bytes load_pull_Inr)
qed

subsection \<open>create\_pool\<close>

definition create_bytes :: bytes where
  "create_bytes = to_le (0 :: u64) @ to_le (100 :: u64) @ to_le (50 :: u64) @ to_le (10 :: u64) @ [2] @
     concat (map to_le [3, 5, 0, 0, 0, 0, 0, 0 :: u32]) @ [0]"

definition empty_ledger :: ledger where
  "empty_ledger = (\<lambda>_. system_account)(7 := system_account\<lparr>acct_lamports := 100000\<rparr>)"

lemma create_bytes:
  "try_create_pool_data create_bytes = Inr \<lparr>cp_id = 0, cp_price = 100, cp_deadline_slots = 50, cp_bond_per_draw = 10,
     cp_tier_count = 2, cp_weights = [3, 5, 0, 0, 0, 0, 0, 0], cp_bump = 0\<rparr>"
  by (simp add: try_create_pool_data_def create_bytes_def slice_def checked_add_def checked_mul_def upt_rec nth_append Let_def)

lemma create_pool_run:
  "\<exists>L'. create_pool example_env (map info [7, 1045, 8, 9, 2000, 0, 2, 3]) create_bytes empty_ledger = Inr L'"
proof -
  have "\<exists>L'. create_pda example_env (info 7) (info 1045) POOL_LEN (pool_seeds 7 0 0) empty_ledger = Inr L'"
    by (rule create_ok) (simp_all add: data_of_acct acct_def empty_ledger_def system_account_def)
  then obtain L1 where cr: "create_pda example_env (info 7) (info 1045) POOL_LEN (pool_seeds 7 0 0) empty_ledger = Inr L1" ..
  note C = create_pda_Inr [OF example_runtime_ok cr]
  have new: "load_new_pool L1 (info 1045) = Inr (decode_pool (replicate POOL_LEN 0))"
    using C by (simp add: load_new_pool_def load_new_view_def decode_zero_version)
  have un: "check_uninitialized example_env empty_ledger (info 1045) = Inr ()"
    by (simp add: check_uninitialized_def data_of_acct acct_def empty_ledger_def system_account_def)
  have n: "length (pool_tiers_all (decode_pool (replicate POOL_LEN 0))) = 8" by (simp add: decode_pool_def)
  have "\<exists>p. pool_set_inner 0 7 8 9 2000 0 100 50 10 [3, 5] (decode_pool (replicate POOL_LEN 0)) = Inr p"
    using n by (simp add: pool_set_inner_def pool_tiers_def Let_def)
  then obtain p where "pool_set_inner 0 7 8 9 2000 0 100 50 10 [3, 5] (decode_pool (replicate POOL_LEN 0)) = Inr p" ..
  then show ?thesis using cr
    by (simp add: create_pool_def try_create_pool_accounts_def create_bytes create_pool_process_def un new ata_def
        POOL_SEED_def) (simp add: example_env_def)
qed

theorem create_pool_initial_witness:
  "\<exists>L'. create_pool example_env (map info [7, 1045, 8, 9, 2000, 0, 2, 3]) create_bytes empty_ledger = Inr L' \<and>
     pool_status (pool_at L' (info 1045)) = POOL_PAUSED \<and> pool_price (pool_at L' (info 1045)) = 100 \<and>
     map tier_weight (tiers_of (pool_at L' (info 1045))) = [3, 5] \<and> pool_ok L' (info 1045) []"
proof -
  obtain L' where L': "create_pool example_env [info 7, info 1045, info 8, info 9, info 2000, info 0, info 2, info 3]
      create_bytes empty_ledger = Inr L'"
    using create_pool_run by auto
  from create_pool_initial [OF example_runtime_ok L'] L' show ?thesis by (auto simp: create_bytes)
qed

subsection \<open>reclaim\<close>

definition pool_r :: pool where
  "pool_r = pool_a\<lparr>pool_pending_draws := 0, pool_status := 2\<rparr>"

lemma pool_r:
  "fits_example pool_r" "pool_pending_draws pool_r = 0" "pool_status pool_r = 2" "pool_authority pool_r = 7"
  "pool_tier_count pool_r = 2" "pool_tiers_all pool_r = sample_tiers" "pool_wf pool_r" "pool_inventory_version pool_r = 3"
  unfolding pool_r_def using pool_a(1) by (simp_all add: pool_a) (simp add: pool_wf_def pool_a sample_tiers_def)

lemma example_item:
  "item_pool example_item = 1045" "item_asset example_item = 40" "item_tier example_item = 0" "item_position example_item = 0"
  by (simp_all add: example_item_def)

lemma sample_tiers_0: "length sample_tiers = 8" "sample_tiers \<noteq> []" "sample_tiers ! 0 = \<lparr>tier_weight = 3, tier_remaining = 2\<rparr>"
  by (simp_all add: sample_tiers_def)

lemma reclaim_run:
  "\<exists>L'. reclaim example_env (map info [7, 1045, 30, 40, 41, 11, 12, 2, 3]) (example_ledger pool_r []) = Inr L'"
proof -
  let ?L = "example_ledger pool_r []" and ?P = "info 1045"
  have P: "pool_ok ?L ?P [1, 2, 1]" by (rule example_views(4) [OF pool_r(1)])
  obtain d where d: "index_remove sample_index 0 0 = Inr d"
    using index.discard_law [OF sample_index_rep, of 0 0] by (auto simp: tier_tag_def)
  let ?p = "pool_r\<lparr>pool_tiers_all := sample_tiers[0 := \<lparr>tier_weight = 3, tier_remaining = 1\<rparr>]\<rparr>"
  let ?L1 = "put_pool ?P ?p (put_index ?P d ?L)"
  have at: "pool_at (put_index ?P d ?L) ?P = pool_r"
    using put_index_views(1) [OF pool_okD(7) [OF P]] example_views(2) [OF pool_r(1)] by simp
  have wf: "pool_wf ?p" by (simp add: pool_wf_def sample_tiers_0)
  have keep: "acct ?L1 (info k) = acct ?L (info k)" if "k \<noteq> 1045" for k
    using that by (simp add: put_pool_def put_index_def)
  have upd: "update_remaining (\<lambda>r. sub_ov r 1) 0 pool_r = Inr ?p"
    by (simp add: update_remaining_def pool_tiers_def pool_r sample_tiers_0 sub_ov_def)
  have item: "reclaim_item_ok pool_r example_item 1045 40 = Inr ()"
    by (simp add: reclaim_item_ok_def example_item pool_tiers_def pool_r sample_tiers_0)
  have inv: "load_inventory ?L ?P = Inr sample_index"
    by (simp add: load_inventory_def example_views pool_r)
  have acc: "try_reclaim_accounts ?L (map info [7, 1045, 30, 40, 41, 11, 12, 2, 3]) = Inr \<lparr>rc_authority = info 7, rc_pool = ?P,
      rc_item = info 30, rc_asset = info 40, rc_collection = info 41, rc_core_program = info 11,
      rc_system_program = info 12, rc_event_authority = info 2, rc_program = info 3\<rparr>"
    by (simp add: try_reclaim_accounts_def example_views pool_r item)
  show ?thesis unfolding reclaim_def acc
    by (simp add: reclaim_process_def core_ok inv upd d at keep example_views pool_r example_item
        close_ok example_ledger_at system_account_def Let_def)
qed

theorem reclaim_removes_prize_witness:
  "\<exists>L'. reclaim example_env (map info [7, 1045, 30, 40, 41, 11, 12, 2, 3]) (example_ledger pool_r []) = Inr L' \<and>
     pool_ok L' (info 1045) [0, 2, 1] \<and> data_of L' (info 30) = []"
proof -
  obtain L' where L': "reclaim example_env [info 7, info 1045, info 30, info 40, info 41, info 11, info 12, info 2, info 3]
      (example_ledger pool_r []) = Inr L'"
    using reclaim_run by auto
  from reclaim_removes_prize [OF example_runtime_ok example_views(4) [OF pool_r(1)] L'] L'
  show ?thesis by (auto simp: example_views pool_r example_item stock_step_def)
qed

subsection \<open>deposit\_item\<close>

text \<open>Position 3 still fits the first block, so the account does not grow; tier 0 gains the asset.\<close>

lemma restock_ok:
  assumes P: "pool_ok L (info 1045) [1, 2, 1]" and p: "pool_at L (info 1045) = pool_a"
    and I: "acct L (info 1042) = system_account" and payer: "200 \<le> unat (acct_lamports (acct L (info k)))"
    and k: "k \<noteq> 1042" "k \<noteq> 1045"
  shows "\<exists>L'. restock example_env (info k) (info 1045) (info 1042) asset 0 0 L = Inr L'"
proof -
  let ?P = "info 1045" and ?I = "info 1042"
  note PD = pool_okD [OF P, unfolded p]
  let ?p1 = "pool_a\<lparr>pool_inventory_version := 4\<rparr>"
  let ?L1 = "put_pool ?P ?p1 L"
  have wf: "pool_wf ?p1" using PD(9) by (simp add: pool_wf_def)
  have len: "length (data_of L ?P) = 352" using PD(6) by (simp add: pool_a inventory_space_def div_ceil_def)
  note V = put_pool_views [OF wf, where a = ?P and L = L]
  have len1: "length (data_of ?L1 ?P) = 352" using V(3) len by simp
  have grow: "grow_pool example_env (info k) ?P 352 ?L1 = Inr ?L1" by (simp add: grow_pool_def len1)
  have keep: "acct ?L1 (info j) = acct L (info j)" "data_of ?L1 (info j) = data_of L (info j)" if "j \<noteq> 1045" for j
    using that by (simp_all add: put_pool_def)
  have "\<exists>L2. create_pda example_env (info k) ?I ITEM_LEN (item_seeds 1045 0 3 0) ?L1 = Inr L2"
    by (rule create_ok) (use I payer k in \<open>simp_all add: keep data_of_acct system_account_def\<close>)
  then obtain L2 where cr: "create_pda example_env (info k) ?I ITEM_LEN (item_seeds 1045 0 3 0) ?L1 = Inr L2" ..
  note C = create_pda_Inr [OF example_runtime_ok cr]
  have new: "load_new_item L2 ?I = Inr (decode_item (replicate ITEM_LEN 0))"
    using C by (simp add: load_new_item_def load_new_view_def decode_zero_version)
  let ?L3 = "put_item ?I (item_set_inner 0 0 3 1045 asset (decode_item (replicate ITEM_LEN 0))) L2"
  have "same_at 1045 ?L1 ?L3"
    using C same_at_trans [OF _ put_frame(2)] by simp
  then have at3: "pool_at ?L3 ?P = ?p1" "index_at ?L3 ?P = index_at L ?P" "load_pool ?L3 ?P = load_pool ?L1 ?P"
    using same_at_views [of ?P ?L1 ?L3] V by simp_all
  have ld: "load_pool ?L3 ?P = Inr ?p1"
    unfolding at3(3) using V PD(5) len1 by (simp add: load_pool_Inr pool_a inventory_space_def div_ceil_def)
  have "grow_index (index_at L ?P) 96 = index_at L ?P" using len by (simp add: grow_index_def index_at_def)
  then obtain d where d: "index_append (index_at L ?P) 3 0 = Inr d"
    using index.restock_law [OF PD(3), of 0 3] by (auto simp: index_restock_def div_ceil_def)
  have at4: "pool_at (put_index ?P d ?L3) ?P = ?p1"
    using put_index_views(1) [of ?L3 ?P d] ld at3(1) by (simp add: load_pool_Inr)
  have "\<exists>p'. update_remaining (\<lambda>r. add_ov r 1) 0 ?p1 = Inr p'"
    by (simp add: update_remaining_def pool_tiers_def pool_a sample_tiers_0 add_ov_def)
  then obtain p' where upd: "update_remaining (\<lambda>r. add_ov r 1) 0 ?p1 = Inr p'" ..
  have "add_ov 3 1 = Inr (4 :: u32)" "inventory_space 4 = 96" by (simp_all add: add_ov_def inventory_space_def div_ceil_def)
  then show ?thesis using PD(1) grow cr d upd
    by (simp add: restock_def pool_a load_inventory_def new ld at3 at4)
qed

lemma deposit_run:
  "\<exists>L'. deposit_item example_env (map info [7, 1045, 1042, 40, 41, 11, 12, 2, 3]) [0, 0] (example_ledger pool_a []) = Inr L'"
proof -
  let ?L = "example_ledger pool_a []" and ?P = "info 1045"
  have P: "pool_ok ?L ?P [1, 2, 1]" "pool_at ?L ?P = pool_a" by (rule example_views [OF pool_a(2)])+
  have I: "acct ?L (info 1042) = system_account" by (simp add: example_ledger_at)
  have "200 \<le> unat (acct_lamports (acct ?L (info 7)))" by (simp add: example_ledger_at)
  then obtain L1 where L1: "restock example_env (info 7) ?P (info 1042) 40 0 0 ?L = Inr L1"
    using restock_ok [OF P I, of 7] by auto
  have "same_at 40 ?L L1" using restock_Inr [OF example_runtime_ok P(1) L1] by simp
  then have own: "acct_owner (acct L1 (info 40)) = CORE_ID"
    by (simp add: same_at_def acct_def) (simp add: example_ledger_at [unfolded acct_def, simplified])
  have ck: "check_restock example_env pool_a 1045 (info 1042) 0 0 ?L = Inr 3"
    by (simp add: check_restock_def check_uninitialized_def pool_a I data_of_acct system_account_def ITEM_SEED_def)
  show ?thesis
    by (simp add: deposit_item_def try_deposit_item_accounts_def try_deposit_item_data_def deposit_item_process_def
        example_views pool_a ck L1 core_ok own)
qed

theorem deposit_appends_prize_witness:
  "\<exists>L'. deposit_item example_env (map info [7, 1045, 1042, 40, 41, 11, 12, 2, 3]) [0, 0] (example_ledger pool_a []) = Inr L' \<and>
     pool_ok L' (info 1045) [1, 2, 1, 1]"
proof -
  obtain L' where L': "deposit_item example_env [info 7, info 1045, info 1042, info 40, info 41, info 11, info 12, info 2, info 3]
      [0, 0] (example_ledger pool_a []) = Inr L'"
    using deposit_run by auto
  from deposit_appends_prize [OF example_runtime_ok example_views(4) [OF pool_a(2)] L'] L'
  show ?thesis by (auto simp: stock_step_def tier_tag_def)
qed

subsection \<open>buyback\<close>

text \<open>The seller 20 gives asset 40 back for 30 tokens; the quote expires at 2000.\<close>

definition quote_bytes :: bytes where
  "quote_bytes = [0] @ to_le (30 :: u64) @ to_le (2000 :: i64) @ replicate 64 9 @ [0]"

lemma quote_bytes:
  "length quote_bytes = 82" "quote_bytes ! 0 = 0" "slice (Suc 0) 8 quote_bytes = to_le (30 :: u64)"
  "slice 9 8 quote_bytes = to_le (2000 :: i64)" "slice 17 64 quote_bytes = replicate 64 9" "quote_bytes ! 81 = 0"
  by (simp_all add: quote_bytes_def slice_def nth_append)

lemma buyback_run:
  "\<exists>L'. buyback example_env (map info [20, 20, 1045, 1042, 40, 41, 2000, 21, 11, 5, 12, 2, 3]) quote_bytes
     (example_ledger pool_a []) = Inr L'"
proof -
  let ?L = "example_ledger pool_a []" and ?P = "info 1045"
  let ?L1 = "write_data (info 40) (splice_at 1 (to_le (1045 :: pubkey)) (data_of ?L (info 40))) ?L"
  have same: "same_at k ?L ?L1" if "k \<noteq> 40" for k using that by (simp add: write_data_at)
  have P: "pool_ok ?L1 ?P [1, 2, 1]" "pool_at ?L1 ?P = pool_a"
    using pool_ok_same [OF same, of ?P] same_at_views(4) [OF same, of ?P] example_views(2,4) [OF pool_a(2)] by simp_all
  have I: "acct ?L1 (info 1042) = system_account" by (simp add: example_ledger_at)
  have "200 \<le> unat (acct_lamports (acct ?L1 (info 20)))" by (simp add: example_ledger_at)
  then obtain L2 where L2: "restock example_env (info 20) ?P (info 1042) 40 0 0 ?L1 = Inr L2"
    using restock_ok [OF P I, of 20] by auto
  note R = restock_Inr [OF example_runtime_ok P(1) L2]
  have s2: "same_at k ?L L2" if "k \<notin> {40, 1045, 1042}" for k
    using same_at_trans [OF same, of k L2] R that by simp
  have tok: "data_of L2 (info k) = data_of ?L (info k)" "acct_owner (acct L2 (info k)) = acct_owner (acct ?L (info k))"
    if "k \<notin> {40, 1045, 1042}" for k using same_at_data [OF s2, of "info k"] that by simp_all
  have "\<exists>L'. move_tokens (info 2000) (info 21) 30 L2 = Inr L' \<and>
      (\<forall>a. info_key a \<noteq> info_key (info 2000) \<longrightarrow> info_key a \<noteq> info_key (info 21) \<longrightarrow> acct L' a = acct L2 a)"
    by (rule move_tokens_ok) (simp_all add: tok balance_def, simp_all add: data_of_acct example_ledger_at)
  then obtain L3 where L3: "move_tokens (info 2000) (info 21) 30 L2 = Inr L3" by blast
  obtain p' where p': "load_pool L2 ?P = Inr p'" using R pool_okD(1) unfolding stock_step_def by auto
  have own: "acct_owner (acct ?L (info 40)) = CORE_ID" by (simp add: example_ledger_at)
  have ck: "check_restock example_env pool_a 1045 (info 1042) 0 0 ?L = Inr 3"
    by (simp add: check_restock_def check_uninitialized_def pool_a data_of_acct example_ledger_at system_account_def ITEM_SEED_def)
  have sp: "spendable example_env ?L pool_a (info 2000) = Inr 890"
    by (simp add: spendable_def example_views pool_a refund_amount_def checked_add_def checked_mul_def checked_sub_def)
  have sig: "env_verify_strict example_env k (replicate 64 9) m" for k m by (simp add: example_env_def)
  show ?thesis using L2 L3 p'
    by (simp add: buyback_def try_buyback_accounts_def try_buyback_data_def buyback_process_def quote_bytes
        example_views pool_a sp ck sig core_ok own pay_def Let_def)
qed

theorem buyback_pays_quote_witness:
  "\<exists>L'. buyback example_env (map info [20, 20, 1045, 1042, 40, 41, 2000, 21, 11, 5, 12, 2, 3]) quote_bytes
      (example_ledger pool_a []) = Inr L' \<and> unat (balance L' (info 2000)) = 970 \<and> pool_ok L' (info 1045) [1, 2, 1, 1]"
proof -
  obtain L' where L': "buyback example_env [info 20, info 20, info 1045, info 1042, info 40, info 41, info 2000, info 21,
      info 11, info 5, info 12, info 2, info 3] quote_bytes (example_ledger pool_a []) = Inr L'"
    using buyback_run by auto
  from buyback_pays_quote [OF example_runtime_ok example_views(4) [OF pool_a(2)] L'] L'
  show ?thesis by (auto simp: quote_bytes example_views pool_a stock_step_def tier_tag_def)
qed

subsection \<open>settle\<close>

lemma sample_counts: "index_counts sample_index 3 = Inr [2, 1, 0, 0, 0, 0, 0, 0]"
proof -
  have "unat (3 :: u32) \<le> length [1, 2, 1 :: u8]" by simp
  with index.counts_law [OF sample_index_rep this] obtain r where r: "index_counts sample_index 3 = Inr r"
    "length r = 8" "\<forall>t < 8. unat (r ! t) = prefix_count [1, 2, 1] t 3" by auto
  have "r ! t = [2, 1, 0, 0, 0, 0, 0, 0] ! t" if t: "t < 8" for t
  proof -
    have "list_all (\<lambda>t. prefix_count [1, 2, 1] t 3 = unat ([2, 1, 0, 0, 0, 0, 0, 0 :: u32] ! t)) [0..<8]" by code_simp
    with r(3) t show ?thesis by (simp add: list_all_iff word_unat_eq_iff)
  qed
  then show ?thesis using r by (simp add: list_eq_iff_nth_eq)
qed

lemma sample_draw: "pool_draw pool_a 0 [2, 1, 0, 0, 0, 0, 0, 0] = Inr (0, 0)"
proof -
  have ts: "pool_tiers pool_a = Inr [\<lparr>tier_weight = 3, tier_remaining = 2\<rparr>, \<lparr>tier_weight = 5, tier_remaining = 1\<rparr>]"
    by (simp add: pool_tiers_def pool_a sample_tiers_def)
  have "to_le (0 :: bytes32) = replicate 32 0" by code_simp
  then have h: "hash_u64 0 n = 0" for n by (simp add: hash_u64_def)
  show ?thesis by (simp add: pool_draw_def draw_tier_def ts total_weight_def sum_ov_def add_ov_def h)
qed

lemma example_pull:
  "pull_wf example_pull" "pull_version example_pull = 1" "pull_pool example_pull = 1045"
  "pull_status example_pull = STATUS_PENDING" "pull_index example_pull = 0" "pull_deadline_slot example_pull = 150"
  "pull_count example_pull = 1" "pull_inventory_version example_pull = 3"
  by (simp_all add: example_pull_def pull_wf_def)

text \<open>The draw of the Pull's one Item gives the Pull after the draw, and takes one pending draw off the Pool.\<close>

abbreviation drawn_pull :: pull where
  "drawn_pull \<equiv> example_pull\<lparr>pull_outcomes := (pull_outcomes example_pull)[0 := \<lparr>outcome_tier = 0, outcome_asset = 40\<rparr>]\<rparr>"

lemma draw_run:
  obtains p' L' where
    "draw example_env (info 1045) (info 1069) [info 30] (info 8) (replicate 64 0)
      (example_ledger pool_a (encode_pull example_pull)) = Inr (put_pool (info 1045) p' L')"
    "pool_at L' (info 1045) = pool_a" "pull_at L' (info 1069) = drawn_pull" "pool_pending_draws p' = 1" "pool_wf p'"
proof -
  let ?L = "example_ledger pool_a (encode_pull example_pull)" and ?P = "info 1045" and ?U = "info 1069"
  have P: "pool_ok ?L ?P [1, 2, 1]" by (rule example_views(4) [OF pool_a(2)])
  have views: "load_pool ?L ?P = Inr pool_a" "index_at ?L ?P = sample_index" "pool_at ?L ?P = pool_a"
    "load_pull ?L ?U = Inr example_pull" "pull_at ?L ?U = example_pull" "load_item ?L (info 30) = Inr example_item"
    by (simp_all add: example_views [OF pool_a(2)] example_pull)
  have sha: "env_sha256 example_env (replicate 64 0 @ [0]) = 0"
    by (simp add: example_env_def from_le_def)
  obtain d where d: "index_take sample_index 0 0 = Inr (d, 0)"
    using index.select_law [OF sample_index_rep, of 0 0] 
    by (auto simp: tier_tag_def available_def upt_rec unat_eq_0)
  let ?L1 = "put_index ?P d ?L"
  have keep: "same_at k ?L ?L1" if "k \<noteq> 1045" for k using put_frame(4) [of k ?P] that by simp
  have at1: "pool_at ?L1 ?P = pool_a" using put_index_views(1) [OF pool_okD(7) [OF P]] views by simp
  have at1': "load_item ?L1 (info 30) = Inr example_item" "pull_at ?L1 ?U = example_pull"
    using same_at_views(2,5) [OF keep] views by simp_all
  let ?u = drawn_pull
  have u: "pull_set_outcome 0 0 40 example_pull = Inr ?u" by (simp add: pull_set_outcome_def example_pull_def)
  let ?L2 = "put_pull ?U ?u ?L1"
  have "acct ?L2 (info k) = acct ?L (info k)" if "k \<notin> {1045, 1069}" for k
    using that by (simp add: put_pull_def put_index_def)
  then have lam: "acct_lamports (acct ?L2 (info 8)) = 0" "acct_lamports (acct ?L2 (info 30)) = 500"
    by (simp_all add: example_ledger_at) (simp_all add: acct_def example_ledger_def system_account_def)
  have "\<exists>L3. close example_env (info 30) (info 8) ?L2 = Inr L3" using lam by (simp add: close_ok)
  then obtain L3 where L3: "close example_env (info 30) (info 8) ?L2 = Inr L3" ..
  have keep3: "same_at k ?L2 L3" if "k \<noteq> 30" for k using close_Inr [OF example_runtime_ok L3] that by simp
  have "same_at 1045 ?L1 L3" using same_at_trans [OF put_frame(3) keep3] by simp
  then have at3: "pool_at L3 ?P = pool_a" using same_at_views(4) [of ?P ?L1 L3] at1 by simp
  have u3: "pull_at L3 ?U = ?u"
    using same_at_views(5) [OF keep3, of ?U] put_pull_views(1) [of ?u ?U ?L1]
    by (simp add: pull_wf_def example_pull_def)
  obtain p' where p': "update_remaining (\<lambda>r. sub_ov r 1) 0 pool_a = Inr p'"
    by (simp add: update_remaining_def pool_tiers_def pool_a sample_tiers_0 sub_ov_def)
  have t': "pool_pending_draws p' = 1" "pool_wf p'"
    using update_remaining_terms [OF p'] update_remaining_valid [OF p'] pool_okD(2) [OF P] views
    by (simp_all add: pool_a pool_valid_def)
  have two: "sub_ov 2 1 = Inr (1 :: u32)" by (simp add: sub_ov_def)
  let ?L4 = "put_pool ?P p' L3"
  have one: "draw_one example_env ?P ?U (info 8) (replicate 64 0) 0 [2, 1, 0, 0, 0, 0, 0, 0] (info 30) ?L =
      Inr ([1, 1, 0, 0, 0, 0, 0, 0], ?L4)"
    by (simp add: draw_one_def sha views sample_draw d at1' example_item u L3 at3 p' two)
  then have dr: "draw example_env ?P ?U [info 30] (info 8) (replicate 64 0) ?L = Inr ?L4"
    by (simp add: draw_def views example_pull sample_counts)
  show thesis by (rule that [OF dr at3 u3 t'])
qed

lemma settle_run:
  "\<exists>L'. settle example_env (map info [8, 1045, 1069, 30, 2, 3]) (replicate 80 1)
     (example_ledger pool_a (encode_pull example_pull)) = Inr L'"
proof -
  let ?L = "example_ledger pool_a (encode_pull example_pull)" and ?P = "info 1045" and ?U = "info 1069"
  have P: "pool_ok ?L ?P [1, 2, 1]" by (rule example_views(4) [OF pool_a(2)])
  have views: "load_pool ?L ?P = Inr pool_a" "index_at ?L ?P = sample_index" "pool_at ?L ?P = pool_a"
    "load_pull ?L ?U = Inr example_pull" "pull_at ?L ?U = example_pull" "load_item ?L (info 30) = Inr example_item"
    by (simp_all add: example_views [OF pool_a(2)] example_pull)
  have vrf: "env_proof_verify example_env (replicate 80 1) k a = Some (replicate 64 0)" for k a
    by (simp add: example_env_def)
  obtain p' L3 where dr: "draw example_env ?P ?U [info 30] (info 8) (replicate 64 0) ?L = Inr (put_pool ?P p' L3)"
    and at3: "pool_at L3 ?P = pool_a" and u3: "pull_at L3 ?U = drawn_pull" and t': "pool_pending_draws p' = 1" "pool_wf p'"
    by (rule draw_run)
  note V = put_pool_views(1) [where a = ?P]
  have other: "pull_at (put_pool ?P q M) ?U = pull_at M ?U" for q M
    using same_at_views(5) [OF put_frame(1), of ?U ?P] by simp
  have arith: "sub_ov 1 1 = Inr (0 :: u64)" "add_ov 0 1 = Inr (1 :: u64)" by (simp_all add: sub_ov_def add_ov_def)
  have wf: "pull_wf (drawn_pull\<lparr>pull_status := 1\<rparr>)" by (simp add: pull_wf_def example_pull_def)
  have out: "pull_outcome_bytes (drawn_pull\<lparr>pull_status := 1\<rparr>) (Suc 0) = Inr (encode_outcome \<lparr>outcome_tier = 0, outcome_asset = 40\<rparr>)"
    by (simp add: pull_outcome_bytes_def example_pull_def numeral_eq_Suc)
  show ?thesis
    by (simp add: settle_def try_settle_accounts_def try_settle_data_def settle_process_def check_item_def views pool_a example_pull
      load_inventory_def vrf dr V t' other u3 arith out put_pull_views(1) [OF wf] Let_def encode_outcome_def)
qed

theorem settle_records_reference_draw_witness:
  "\<exists>L'. settle example_env (map info [8, 1045, 1069, 30, 2, 3]) (replicate 80 1)
      (example_ledger pool_a (encode_pull example_pull)) = Inr L' \<and>
    outcome_asset (pull_outcomes (pull_at L' (info 1069)) ! 0) = 40 \<and>
    pull_status (pull_at L' (info 1069)) = STATUS_SETTLED \<and> pool_next_settle (pool_at L' (info 1045)) = 1"
proof -
  let ?L = "example_ledger pool_a (encode_pull example_pull)"
  note views = example_views [OF pool_a(2)]
  have pull: "pull_at ?L (info 1069) = example_pull" by (simp add: views example_pull)
  obtain L' where L': "settle example_env (info 8 # info 1045 # info 1069 # [info 30] @ [info 2, info 3]) (replicate 80 1) ?L = Inr L'"
    using settle_run by auto
  have "unat (pull_inventory_version (pull_at ?L (info 1069))) \<le> length [1, 2, 1 :: u8]" by (simp add: pull example_pull)
  from settle_records_reference_draw [OF example_runtime_ok views(4) this L'] L'
  show ?thesis
    by (auto simp: pull views pool_a example_pull example_item dest!: arg_cong [where f = pull_status])
qed

end
