(* ===== verification/Protocol.thy ===== *)
theory Protocol
  imports Draw_Correct
begin

section \<open>The protocol: queue, reservations and custody\<close>

text \<open>
  An abstract state machine of the whole program. Its state is what the accounts mean: for every
  pool its terms, status, counters and the tags of its positions; the pulls; and the Item accounts.
  One rule per kind of instruction. The theory \<open>Simulation\<close> shows that every successful instruction
  is a step of this machine; here are the invariants that hold in every state it reaches.
\<close>

record stock_pool =
  sp_terms :: pool
  sp_status :: u8
  sp_pending :: nat
  sp_next_index :: nat
  sp_next_settle :: nat
  sp_tags :: "u8 list"

record protocol =
  pr_pools :: "pubkey \<Rightarrow> stock_pool option"
  pr_pulls :: "pubkey \<Rightarrow> pull option"
  pr_items :: "pubkey \<Rightarrow> item option"

text \<open>Terms a pool may be created with: every tier can be drawn and no refund overflows.\<close>

definition fair_terms :: "pool \<Rightarrow> bool" where
  "fair_terms p \<longleftrightarrow> pool_valid p \<and> (\<forall>t \<in> set (tiers_of p). 0 < unat (tier_weight t)) \<and>
     (unat (pool_price p) + unat (pool_bond_per_draw p)) * MAX_COUNT < 2 ^ 64"

text \<open>The available positions in the first \<open>c\<close> positions.\<close>

definition stock_below :: "u8 list \<Rightarrow> nat \<Rightarrow> nat" where
  "stock_below tags c = length (filter (\<lambda>x. x \<noteq> 0) (take c tags))"

subsection \<open>The steps\<close>

inductive protocol_step :: "protocol \<Rightarrow> protocol \<Rightarrow> bool" where
  create: "pr_pools s P = None \<Longrightarrow> fair_terms (sp_terms p) \<Longrightarrow> sp_status p = POOL_PAUSED \<Longrightarrow> sp_pending p = 0 \<Longrightarrow>
    sp_next_index p = 0 \<Longrightarrow> sp_next_settle p = 0 \<Longrightarrow> sp_tags p = [] \<Longrightarrow>
    protocol_step s (s\<lparr>pr_pools := (pr_pools s)(P \<mapsto> p)\<rparr>)"
| deposit: "pr_pools s P = Some p \<Longrightarrow> sp_status p \<noteq> POOL_RETIRED \<Longrightarrow> pr_items s I = None \<Longrightarrow> item_pool i = P \<Longrightarrow>
    unat (item_position i) = length (sp_tags p) \<Longrightarrow> unat (item_tier i) < unat (pool_tier_count (sp_terms p)) \<Longrightarrow>
    protocol_step s (s\<lparr>pr_pools := (pr_pools s)(P \<mapsto> p\<lparr>sp_tags := sp_tags p @ [tier_tag (unat (item_tier i))]\<rparr>),
      pr_items := (pr_items s)(I \<mapsto> i)\<rparr>)"
| reclaim: "pr_pools s P = Some p \<Longrightarrow> sp_status p = POOL_RETIRED \<Longrightarrow> sp_pending p = 0 \<Longrightarrow> pr_items s I = Some i \<Longrightarrow>
    item_pool i = P \<Longrightarrow> unat (item_position i) < length (sp_tags p) \<Longrightarrow>
    sp_tags p ! unat (item_position i) = tier_tag (unat (item_tier i)) \<Longrightarrow>
    protocol_step s (s\<lparr>pr_pools := (pr_pools s)(P \<mapsto> p\<lparr>sp_tags := (sp_tags p)[unat (item_position i) := 0]\<rparr>),
      pr_items := (pr_items s)(I := None)\<rparr>)"
| set_status: "pr_pools s P = Some p \<Longrightarrow> unat st \<le> 2 \<Longrightarrow> sp_status p \<noteq> POOL_RETIRED \<or> st = POOL_RETIRED \<Longrightarrow>
    protocol_step s (s\<lparr>pr_pools := (pr_pools s)(P \<mapsto> p\<lparr>sp_status := st\<rparr>)\<rparr>)"
| buy: "pr_pools s P = Some p \<Longrightarrow> sp_status p = POOL_ACTIVE \<Longrightarrow> pr_pulls s U = None \<Longrightarrow> pull_pool u = P \<Longrightarrow>
    pull_status u = STATUS_PENDING \<Longrightarrow> unat (pull_index u) = sp_next_index p \<Longrightarrow>
    unat (pull_inventory_version u) = length (sp_tags p) \<Longrightarrow> 0 < unat (pull_count u) \<Longrightarrow>
    unat (pull_count u) \<le> MAX_COUNT \<Longrightarrow>
    sp_pending p + unat (pull_count u) \<le> stock_below (sp_tags p) (length (sp_tags p)) \<Longrightarrow>
    protocol_step s (s\<lparr>pr_pools := (pr_pools s)(P \<mapsto> p\<lparr>sp_pending := sp_pending p + unat (pull_count u),
      sp_next_index := sp_next_index p + 1\<rparr>), pr_pulls := (pr_pulls s)(U \<mapsto> u)\<rparr>)"
| refund: "pr_pools s P = Some p \<Longrightarrow> pr_pulls s U = Some u \<Longrightarrow> pull_pool u = P \<Longrightarrow> pull_status u = STATUS_PENDING \<Longrightarrow>
    unat (pull_index u) = sp_next_settle p \<Longrightarrow>
    protocol_step s (s\<lparr>pr_pools := (pr_pools s)(P \<mapsto> p\<lparr>sp_pending := sp_pending p - unat (pull_count u),
      sp_next_settle := sp_next_settle p + 1\<rparr>), pr_pulls := (pr_pulls s)(U := None)\<rparr>)"
| settle: "pr_pools s P = Some p \<Longrightarrow> pr_pulls s U = Some u \<Longrightarrow> pull_pool u = P \<Longrightarrow> pull_status u = STATUS_PENDING \<Longrightarrow>
    unat (pull_index u) = sp_next_settle p \<Longrightarrow> length Is = unat (pull_count u) \<Longrightarrow> distinct qs \<Longrightarrow>
    list_all2 (\<lambda>I q. \<exists>i. pr_items s I = Some i \<and> item_pool i = P \<and> unat (item_position i) = q \<and>
      q < unat (pull_inventory_version u) \<and> q < length (sp_tags p) \<and> sp_tags p ! q = tier_tag (unat (item_tier i)) \<and>
      unat (item_tier i) < 8) Is qs \<Longrightarrow>
    u'\<lparr>pull_outcomes := []\<rparr> = u\<lparr>pull_status := STATUS_SETTLED, pull_outcomes := []\<rparr> \<Longrightarrow>
    \<forall>n < length Is. pull_outcomes u' ! n = \<lparr>outcome_tier = item_tier (the (pr_items s (Is ! n))),
      outcome_asset = item_asset (the (pr_items s (Is ! n)))\<rparr> \<Longrightarrow>
    protocol_step s (s\<lparr>pr_pools := (pr_pools s)(P \<mapsto> p\<lparr>sp_pending := sp_pending p - unat (pull_count u),
      sp_next_settle := sp_next_settle p + 1, sp_tags := clear_positions (sp_tags p) qs\<rparr>),
      pr_pulls := (pr_pulls s)(U \<mapsto> u'), pr_items := (\<lambda>I. if I \<in> set Is then None else pr_items s I)\<rparr>)"
| deliver: "pr_pulls s U = Some u \<Longrightarrow> pull_status u = STATUS_SETTLED \<Longrightarrow> n < unat (pull_count u) \<Longrightarrow>
    outcome_tier (pull_outcomes u ! n) \<noteq> DELIVERED \<Longrightarrow>
    protocol_step s (s\<lparr>pr_pulls := (pr_pulls s)(U \<mapsto> u\<lparr>pull_outcomes := (pull_outcomes u)
      [n := (pull_outcomes u ! n)\<lparr>outcome_tier := DELIVERED\<rparr>]\<rparr>)\<rparr>)"
| deliver_last: "pr_pulls s U = Some u \<Longrightarrow> pull_status u = STATUS_SETTLED \<Longrightarrow> n < unat (pull_count u) \<Longrightarrow>
    outcome_tier (pull_outcomes u ! n) \<noteq> DELIVERED \<Longrightarrow>
    \<forall>j < unat (pull_count u). j = n \<or> outcome_tier (pull_outcomes u ! j) = DELIVERED \<Longrightarrow>
    protocol_step s (s\<lparr>pr_pulls := (pr_pulls s)(U := None)\<rparr>)"
| other: "protocol_step s s"

inductive_cases protocol_stepE: "protocol_step s s'"

inductive protocol_reachable :: "protocol \<Rightarrow> bool" where
  start: "protocol_reachable \<lparr>pr_pools = \<lambda>_. None, pr_pulls = \<lambda>_. None, pr_items = \<lambda>_. None\<rparr>"
| step: "protocol_reachable s \<Longrightarrow> protocol_step s s' \<Longrightarrow> protocol_reachable s'"

subsection \<open>Available stock\<close>

lemma stock_append: "c \<le> length tags \<Longrightarrow> stock_below (tags @ [x]) c = stock_below tags c"
  by (simp add: stock_below_def)

lemma stock_mono: "c \<le> c' \<Longrightarrow> stock_below tags c \<le> stock_below tags c'"
  using take_add [of c "c' - c" tags] by (simp add: stock_below_def)

lemma length_filter_update:
  "q < length xs \<Longrightarrow> xs ! q \<noteq> 0 \<Longrightarrow> Suc (length (filter (\<lambda>x. x \<noteq> 0) (xs[q := 0]))) = length (filter (\<lambda>x :: 'a::zero. x \<noteq> 0) xs)"
  by (induction xs arbitrary: q) (auto split: nat.splits)

lemma stock_clear: "q < c \<Longrightarrow> q < length tags \<Longrightarrow> tags ! q \<noteq> 0 \<Longrightarrow> Suc (stock_below (tags[q := 0]) c) = stock_below tags c"
  using length_filter_update [of q "take c tags"] by (simp add: stock_below_def take_update_swap)

lemma stock_clear_positions:
  "distinct qs \<Longrightarrow> \<forall>q \<in> set qs. q < c \<and> q < length tags \<and> tags ! q \<noteq> 0 \<Longrightarrow>
   stock_below (clear_positions tags qs) c + length qs = stock_below tags c"
proof (induction qs arbitrary: tags)
  case (Cons q qs)
  have "stock_below (clear_positions (tags[q := 0]) qs) c + length qs = stock_below (tags[q := 0]) c"
    using Cons.prems by (intro Cons.IH) (auto simp: nth_list_update)
  with stock_clear [of q c tags] Cons.prems show ?case by simp
qed simp

lemma nth_clear_positions:
  "p < length tags \<Longrightarrow> clear_positions tags qs ! p = (if p \<in> set qs then 0 else tags ! p)"
  by (induction qs arbitrary: tags) (auto simp: nth_list_update)


subsection \<open>The invariant\<close>

text \<open>
  The queue of a pool: the pending pulls in the order of their indices, from the next to settle to
  the last bought. They add up to the pending draws.
\<close>

definition waiting :: "protocol \<Rightarrow> pubkey \<Rightarrow> (pubkey \<times> pull) set" where
  "waiting s P = {(U, u). pr_pulls s U = Some u \<and> pull_pool u = P \<and> pull_status u = STATUS_PENDING}"

definition queue :: "protocol \<Rightarrow> pubkey \<Rightarrow> stock_pool \<Rightarrow> (pubkey \<times> pull) list \<Rightarrow> bool" where
  "queue s P p us \<longleftrightarrow> set us = waiting s P \<and>
     map (\<lambda>(U, u). unat (pull_index u)) us = [sp_next_settle p ..< sp_next_index p] \<and>
     sp_next_settle p \<le> sp_next_index p \<and>
     sum_list (map (\<lambda>(U, u). unat (pull_count u)) us) = sp_pending p \<and>
     (\<forall>(U, u) \<in> set us. 0 < unat (pull_count u) \<and> unat (pull_count u) \<le> MAX_COUNT)"

text \<open>
  The reservation: the candidate prefixes are nested in queue order, and each holds enough available
  positions for its own draws and for all draws before it.
\<close>

fun reserved :: "u8 list \<Rightarrow> nat \<Rightarrow> nat \<Rightarrow> (pubkey \<times> pull) list \<Rightarrow> bool" where
  "reserved tags low before [] = True"
| "reserved tags low before ((U, u) # us) \<longleftrightarrow>
     low \<le> unat (pull_inventory_version u) \<and> unat (pull_inventory_version u) \<le> length tags \<and>
     before + unat (pull_count u) \<le> stock_below tags (unat (pull_inventory_version u)) \<and>
     reserved tags (unat (pull_inventory_version u)) (before + unat (pull_count u)) us"

text \<open>Every available position has exactly one Item account, and no other Item account exists.\<close>

definition custody :: "protocol \<Rightarrow> pubkey \<Rightarrow> u8 list \<Rightarrow> bool" where
  "custody s P tags \<longleftrightarrow>
     (\<forall>I i. pr_items s I = Some i \<longrightarrow> item_pool i = P \<longrightarrow> unat (item_position i) < length tags \<and>
        unat (item_tier i) < MAX_TIERS \<and> tags ! unat (item_position i) = tier_tag (unat (item_tier i))) \<and>
     (\<forall>q < length tags. tags ! q \<noteq> 0 \<longrightarrow> (\<exists>I i. pr_items s I = Some i \<and> item_pool i = P \<and> unat (item_position i) = q)) \<and>
     (\<forall>I i J j. pr_items s I = Some i \<longrightarrow> pr_items s J = Some j \<longrightarrow> item_pool i = P \<longrightarrow> item_pool j = P \<longrightarrow>
        item_position i = item_position j \<longrightarrow> I = J)"

definition pool_inv :: "protocol \<Rightarrow> pubkey \<Rightarrow> stock_pool \<Rightarrow> bool" where
  "pool_inv s P p \<longleftrightarrow> (\<exists>us. queue s P p us \<and> reserved (sp_tags p) 0 0 us) \<and> custody s P (sp_tags p) \<and>
     fair_terms (sp_terms p)"

definition protocol_inv :: "protocol \<Rightarrow> bool" where
  "protocol_inv s \<longleftrightarrow> (\<forall>P p. pr_pools s P = Some p \<longrightarrow> pool_inv s P p) \<and>
     (\<forall>U u. pr_pulls s U = Some u \<longrightarrow> pr_pools s (pull_pool u) \<noteq> None) \<and>
     (\<forall>I i. pr_items s I = Some i \<longrightarrow> pr_pools s (item_pool i) \<noteq> None)"

subsection \<open>Reservations\<close>

lemma reserved_append_stock:
  "reserved tags low before us \<Longrightarrow> reserved (tags @ [x]) low before us"
  by (induction tags low before us rule: reserved.induct) (auto simp: stock_append)

lemma reserved_fewer: "reserved tags low before us \<Longrightarrow> before' \<le> before \<Longrightarrow> low' \<le> low \<Longrightarrow> reserved tags low' before' us"
proof (induction us arbitrary: low before low' before')
  case (Cons Uu us)
  then show ?case by (cases Uu) (auto intro: Cons.IH)
qed simp

lemma reserved_clear:
  assumes "distinct qs" "\<forall>q \<in> set qs. q < low \<and> q < length tags \<and> tags ! q \<noteq> 0"
  shows "reserved tags low (before + length qs) us \<Longrightarrow> reserved (clear_positions tags qs) low before us"
  using assms(2)
proof (induction us arbitrary: low before)
  case (Cons Uu us)
  obtain U u where Uu: "Uu = (U, u)" by (cases Uu)
  let ?v = "unat (pull_inventory_version u)"
  have v: "low \<le> ?v" using Cons.prems(1) Uu by simp
  have "\<forall>q \<in> set qs. q < ?v \<and> q < length tags \<and> tags ! q \<noteq> 0"
    using Cons.prems(2) v by auto
  with Cons.prems(1) Uu Cons.IH [of ?v "before + unat (pull_count u)"]
    stock_clear_positions [OF assms(1) this] show ?case
    by (simp add: algebra_simps)
qed simp

lemma reserved_snoc:
  "reserved tags low before (us @ [(U, u)]) \<longleftrightarrow> reserved tags low before us \<and>
     (if us = [] then low else unat (pull_inventory_version (snd (last us)))) \<le> unat (pull_inventory_version u) \<and>
     unat (pull_inventory_version u) \<le> length tags \<and>
     before + sum_list (map (\<lambda>(U, u). unat (pull_count u)) us) + unat (pull_count u)
       \<le> stock_below tags (unat (pull_inventory_version u))"
proof (induction us arbitrary: low before)
  case (Cons Uu us)
  then show ?case by (cases Uu) (auto simp: algebra_simps)
qed auto

lemma reserved_bound: "reserved tags low before us \<Longrightarrow> (U, u) \<in> set us \<Longrightarrow> unat (pull_inventory_version u) \<le> length tags"
  by (induction tags low before us rule: reserved.induct) auto


subsection \<open>The queue\<close>

lemma queue_head:
  assumes q: "queue s P p us" and w: "(U, u) \<in> waiting s P" and i: "unat (pull_index u) = sp_next_settle p"
  shows "\<exists>us'. us = (U, u) # us' \<and> (U, u) \<notin> set us'"
proof -
  let ?ix = "\<lambda>(U, u). unat (pull_index u)"
  have ix: "map ?ix us = [sp_next_settle p ..< sp_next_index p]" and mem: "(U, u) \<in> set us"
    using q w by (simp_all add: queue_def)
  then obtain a us' where us: "us = a # us'" by (cases us) auto
  have lt: "sp_next_settle p < sp_next_index p" using ix us by (cases "sp_next_settle p < sp_next_index p") auto
  then have hd: "?ix a = sp_next_settle p" and tl: "map ?ix us' = [Suc (sp_next_settle p) ..< sp_next_index p]"
    using ix us by (simp_all add: upt_conv_Cons)
  have "(U, u) \<notin> set us'"
  proof
    assume "(U, u) \<in> set us'"
    then have "?ix (U, u) \<in> set (map ?ix us')" by force
    then show False unfolding tl using i by simp
  qed
  with mem us show ?thesis by auto
qed

lemma queue_pop:
  assumes q: "queue s P p ((U, u) # us)" and notin: "(U, u) \<notin> set us"
    and s': "waiting s' P = waiting s P - {(U, u)}"
    and p': "sp_next_settle p' = sp_next_settle p + 1" "sp_next_index p' = sp_next_index p"
      "sp_pending p' = sp_pending p - unat (pull_count u)"
  shows "queue s' P p' us"
proof -
  have "sp_next_settle p < sp_next_index p" using q by (cases "sp_next_settle p < sp_next_index p") (auto simp: queue_def)
  moreover have "set us = waiting s' P" using q notin s' by (auto simp: queue_def)
  ultimately show ?thesis using q p' by (auto simp: queue_def upt_conv_Cons)
qed

lemma queue_push:
  assumes q: "queue s P p us" and s': "waiting s' P = insert (U, u) (waiting s P)"
    and u: "unat (pull_index u) = sp_next_index p" "0 < unat (pull_count u)" "unat (pull_count u) \<le> MAX_COUNT"
    and p': "sp_next_settle p' = sp_next_settle p" "sp_next_index p' = sp_next_index p + 1"
      "sp_pending p' = sp_pending p + unat (pull_count u)"
  shows "queue s' P p' (us @ [(U, u)])"
  using assms by (auto simp: queue_def)

lemma queue_same:
  assumes "queue s P p us" "waiting s' P = waiting s P" "sp_next_settle p' = sp_next_settle p"
    "sp_next_index p' = sp_next_index p" "sp_pending p' = sp_pending p"
  shows "queue s' P p' us"
  using assms by (simp add: queue_def)

lemma queue_empty: "queue s P p us \<Longrightarrow> sp_pending p = 0 \<Longrightarrow> us = []"
  by (cases us) (auto simp: queue_def)

text \<open>Only the pulls of a pool matter for its queue.\<close>

lemma waiting_pools [simp]: "waiting (s\<lparr>pr_pools := f\<rparr>) P = waiting s P" "waiting (s\<lparr>pr_items := g\<rparr>) P = waiting s P"
  by (simp_all add: waiting_def)

lemma waiting_other:
  assumes "\<And>u. pr_pulls s U = Some u \<Longrightarrow> pull_pool u \<noteq> P \<or> pull_status u \<noteq> STATUS_PENDING"
    and "\<And>u. x = Some u \<Longrightarrow> pull_pool u \<noteq> P \<or> pull_status u \<noteq> STATUS_PENDING"
  shows "waiting (s\<lparr>pr_pulls := (pr_pulls s)(U := x)\<rparr>) P = waiting s P"
  using assms by (auto simp: waiting_def split: if_splits)

lemma waiting_remove:
  assumes "pr_pulls s U = Some u" "\<And>u'. x = Some u' \<Longrightarrow> pull_status u' \<noteq> STATUS_PENDING"
  shows "waiting (s\<lparr>pr_pulls := (pr_pulls s)(U := x)\<rparr>) P = waiting s P - {(U, u)}"
  using assms by (auto simp: waiting_def split: if_splits)

lemma waiting_insert:
  assumes "pr_pulls s U = None" "pull_pool u = P" "pull_status u = STATUS_PENDING"
  shows "waiting (s\<lparr>pr_pulls := (pr_pulls s)(U \<mapsto> u)\<rparr>) P = insert (U, u) (waiting s P)"
  using assms by (auto simp: waiting_def split: if_splits)

subsection \<open>Custody\<close>

lemma custody_pools [simp]: "custody (s\<lparr>pr_pools := f\<rparr>) P tags = custody s P tags"
  "custody (s\<lparr>pr_pulls := g\<rparr>) P tags = custody s P tags"
  by (simp_all add: custody_def)

lemma custody_items: "pr_items s' = pr_items s \<Longrightarrow> custody s' P tags = custody s P tags"
  by (simp add: custody_def)

lemma custodyI:
  assumes "\<And>I i. pr_items s I = Some i \<Longrightarrow> item_pool i = P \<Longrightarrow> unat (item_position i) < length tags \<and>
      unat (item_tier i) < MAX_TIERS \<and> tags ! unat (item_position i) = tier_tag (unat (item_tier i))"
    and "\<And>q. q < length tags \<Longrightarrow> tags ! q \<noteq> 0 \<Longrightarrow>
      \<exists>I i. pr_items s I = Some i \<and> item_pool i = P \<and> unat (item_position i) = q"
    and "\<And>I i J j. pr_items s I = Some i \<Longrightarrow> pr_items s J = Some j \<Longrightarrow> item_pool i = P \<Longrightarrow> item_pool j = P \<Longrightarrow>
      item_position i = item_position j \<Longrightarrow> I = J"
  shows "custody s P tags"
  unfolding custody_def
proof (intro conjI [OF _ conjI])
  show "\<forall>I i. pr_items s I = Some i \<longrightarrow> item_pool i = P \<longrightarrow> unat (item_position i) < length tags \<and>
      unat (item_tier i) < MAX_TIERS \<and> tags ! unat (item_position i) = tier_tag (unat (item_tier i))"
    using assms(1) by blast
  show "\<forall>q < length tags. tags ! q \<noteq> 0 \<longrightarrow>
      (\<exists>I i. pr_items s I = Some i \<and> item_pool i = P \<and> unat (item_position i) = q)"
    using assms(2) by blast
  show "\<forall>I i J j. pr_items s I = Some i \<longrightarrow> pr_items s J = Some j \<longrightarrow> item_pool i = P \<longrightarrow> item_pool j = P \<longrightarrow>
      item_position i = item_position j \<longrightarrow> I = J"
    using assms(3) by blast
qed

lemma custodyD:
  assumes "custody s P tags"
  shows "pr_items s I = Some i \<Longrightarrow> item_pool i = P \<Longrightarrow> unat (item_position i) < length tags \<and>
      unat (item_tier i) < MAX_TIERS \<and> tags ! unat (item_position i) = tier_tag (unat (item_tier i))"
    and "q < length tags \<Longrightarrow> tags ! q \<noteq> 0 \<Longrightarrow>
      \<exists>I i. pr_items s I = Some i \<and> item_pool i = P \<and> unat (item_position i) = q"
    and "pr_items s I = Some i \<Longrightarrow> pr_items s J = Some j \<Longrightarrow> item_pool i = P \<Longrightarrow> item_pool j = P \<Longrightarrow>
      item_position i = item_position j \<Longrightarrow> I = J"
  using assms unfolding custody_def by blast+

lemma custody_other:
  assumes c: "custody s P tags"
    and same: "\<And>I i. item_pool i = P \<Longrightarrow> pr_items s' I = Some i \<longleftrightarrow> pr_items s I = Some i"
  shows "custody s' P tags"
proof (rule custodyI)
  fix q assume "q < length tags" "tags ! q \<noteq> 0"
  then obtain I i where "pr_items s I = Some i" "item_pool i = P" "unat (item_position i) = q"
    using custodyD(2) [OF c] by blast
  with same show "\<exists>I i. pr_items s' I = Some i \<and> item_pool i = P \<and> unat (item_position i) = q" by blast
qed (use same custodyD(1,3) [OF c] in blast)+

lemma custody_add:
  assumes c: "custody s P tags" and I: "pr_items s I = None" and i: "item_pool i = P" "unat (item_position i) = length tags"
    "unat (item_tier i) < MAX_TIERS"
  shows "custody (s\<lparr>pr_items := (pr_items s)(I \<mapsto> i)\<rparr>) P (tags @ [tier_tag (unat (item_tier i))])"
proof -
  have old: "unat (item_position j) < length tags" if "pr_items s J = Some j" "item_pool j = P" for J j
    using c that by (auto simp: custody_def)
  then have ne: "item_position j \<noteq> item_position i" if "pr_items s J = Some j" "item_pool j = P" for J j
    using that i(2) by fastforce
  let ?s = "s\<lparr>pr_items := (pr_items s)(I \<mapsto> i)\<rparr>"
  show ?thesis
  proof (rule custodyI)
    fix J j assume "pr_items ?s J = Some j" "item_pool j = P"
    then show "unat (item_position j) < length (tags @ [tier_tag (unat (item_tier i))]) \<and> unat (item_tier j) < MAX_TIERS \<and>
        (tags @ [tier_tag (unat (item_tier i))]) ! unat (item_position j) = tier_tag (unat (item_tier j))"
      using custodyD(1) [OF c, of J j] i by (auto simp: nth_append split: if_splits)
  next
    fix q assume q: "q < length (tags @ [tier_tag (unat (item_tier i))])" "(tags @ [tier_tag (unat (item_tier i))]) ! q \<noteq> 0"
    show "\<exists>J j. pr_items ?s J = Some j \<and> item_pool j = P \<and> unat (item_position j) = q"
    proof (cases "q < length tags")
      case True
      then have "tags ! q \<noteq> 0" using q by (simp add: nth_append)
      with True obtain J j where "pr_items s J = Some j" "item_pool j = P" "unat (item_position j) = q"
        using custodyD(2) [OF c] by blast
      moreover from this have "J \<noteq> I" using I by auto
      ultimately show ?thesis by auto
    qed (use q i in \<open>auto intro!: exI [of _ I]\<close>)
  next
    fix J j K k assume "pr_items ?s J = Some j" "pr_items ?s K = Some k" "item_pool j = P" "item_pool k = P"
      "item_position j = item_position k"
    then show "J = K" using custodyD(3) [OF c, of J j K k] ne i(1) by (fastforce split: if_splits)
  qed
qed

lemma custody_remove:
  assumes c: "custody s P tags"
    and Is: "list_all2 (\<lambda>I q. \<exists>i. pr_items s I = Some i \<and> item_pool i = P \<and> unat (item_position i) = q) Is qs"
  shows "custody (s\<lparr>pr_items := \<lambda>I. if I \<in> set Is then None else pr_items s I\<rparr>) P (clear_positions tags qs)"
proof -
  let ?s = "s\<lparr>pr_items := \<lambda>I. if I \<in> set Is then None else pr_items s I\<rparr>"
  have at: "\<exists>i. pr_items s (Is ! n) = Some i \<and> item_pool i = P \<and> unat (item_position i) = qs ! n" if "n < length qs" for n
    using Is that by (simp add: list_all2_conv_all_nth)
  have len: "length Is = length qs" using Is by (rule list_all2_lengthD)
  have gone: "unat (item_position i) \<notin> set qs" if i: "pr_items ?s I = Some i" "item_pool i = P" for I i
  proof
    assume "unat (item_position i) \<in> set qs"
    then obtain n where n: "n < length qs" "qs ! n = unat (item_position i)" by (auto simp: in_set_conv_nth)
    with at [of n] obtain j where "pr_items s (Is ! n) = Some j" "item_pool j = P" "item_position j = item_position i"
      by (auto simp: word_unat_eq_iff)
    then have "Is ! n = I" using custodyD(3) [OF c] i by (auto split: if_splits)
    then show False using i n len by (auto split: if_splits)
  qed
  show ?thesis
  proof (rule custodyI)
    fix I i assume i: "pr_items ?s I = Some i" "item_pool i = P"
    then show "unat (item_position i) < length (clear_positions tags qs) \<and> unat (item_tier i) < MAX_TIERS \<and>
        clear_positions tags qs ! unat (item_position i) = tier_tag (unat (item_tier i))"
      using custodyD(1) [OF c, of I i] gone [OF i] by (auto simp: nth_clear_positions split: if_splits)
  next
    fix q assume "q < length (clear_positions tags qs)" "clear_positions tags qs ! q \<noteq> 0"
    then have q: "q \<notin> set qs" "q < length tags" "tags ! q \<noteq> 0" by (auto simp: nth_clear_positions split: if_splits)
    then obtain I i where I: "pr_items s I = Some i" "item_pool i = P" "unat (item_position i) = q"
      using custodyD(2) [OF c] by blast
    have "I \<notin> set Is"
    proof
      assume "I \<in> set Is"
      then obtain n where "n < length Is" "Is ! n = I" by (auto simp: in_set_conv_nth)
      then show False using at [of n] I q(1) len by auto
    qed
    with I show "\<exists>I i. pr_items ?s I = Some i \<and> item_pool i = P \<and> unat (item_position i) = q" by auto
  next
    fix I i J j assume "pr_items ?s I = Some i" "pr_items ?s J = Some j" "item_pool i = P" "item_pool j = P"
      "item_position i = item_position j"
    then show "I = J" using custodyD(3) [OF c, of I i J j] by (simp split: if_splits)
  qed
qed

subsection \<open>Every step keeps the invariant\<close>

lemma protocol_invD:
  assumes "protocol_inv s"
  shows "pr_pools s P = Some p \<Longrightarrow> pool_inv s P p"
    and "pr_pulls s U = Some u \<Longrightarrow> pr_pools s (pull_pool u) \<noteq> None"
    and "pr_items s I = Some i \<Longrightarrow> pr_pools s (item_pool i) \<noteq> None"
  using assms unfolding protocol_inv_def by blast+

lemma pool_invE:
  assumes "pool_inv s P p"
  obtains us where "queue s P p us" "reserved (sp_tags p) 0 0 us" "custody s P (sp_tags p)" "fair_terms (sp_terms p)"
  using assms unfolding pool_inv_def by blast

lemma pool_invI:
  "queue s P p us \<Longrightarrow> reserved (sp_tags p) 0 0 us \<Longrightarrow> custody s P (sp_tags p) \<Longrightarrow> fair_terms (sp_terms p) \<Longrightarrow> pool_inv s P p"
  unfolding pool_inv_def by blast

text \<open>A step of one pool leaves the pulls and the Items of the other pools alone.\<close>

lemma inv_pool_update:
  assumes inv: "protocol_inv s" and P: "pr_pools s' = (pr_pools s)(P \<mapsto> p')" and own: "pool_inv s' P p'"
    and w: "\<And>Q. Q \<noteq> P \<Longrightarrow> waiting s' Q = waiting s Q"
    and i: "\<And>I i. item_pool i \<noteq> P \<Longrightarrow> pr_items s' I = Some i \<longleftrightarrow> pr_items s I = Some i"
    and u: "\<And>U u. pr_pulls s' U = Some u \<Longrightarrow> pull_pool u = P \<or> pr_pulls s U = Some u"
  shows "protocol_inv s'"
  unfolding protocol_inv_def
proof (intro conjI allI impI)
  fix Q q assume Q: "pr_pools s' Q = Some q"
  show "pool_inv s' Q q"
  proof (cases "Q = P")
    case True
    then show ?thesis using Q P own by simp
  next
    case False
    then have "pool_inv s Q q" using Q P protocol_invD(1) [OF inv] by simp
    then obtain us where us: "queue s Q q us" "reserved (sp_tags q) 0 0 us" "custody s Q (sp_tags q)" "fair_terms (sp_terms q)"
      by (rule pool_invE)
    have "custody s' Q (sp_tags q)" by (rule custody_other [OF us(3)]) (use i False in auto)
    with us queue_same [OF us(1) w [OF False], of q] show ?thesis by (intro pool_invI) auto
  qed
next
  fix U v assume "pr_pulls s' U = Some v"
  then show "pr_pools s' (pull_pool v) \<noteq> None" using u [of U v] P protocol_invD(2) [OF inv, of U v] by auto
next
  fix I j assume "pr_items s' I = Some j"
  then show "pr_pools s' (item_pool j) \<noteq> None"
    using i [of j I] P protocol_invD(3) [OF inv, of I j] by (cases "item_pool j = P") auto
qed

lemma fair_count: "fair_terms p \<Longrightarrow> unat (t :: u8) < unat (pool_tier_count p) \<Longrightarrow> unat t < MAX_TIERS"
  by (simp add: fair_terms_def pool_valid_def)

lemma inv_create:
  assumes inv: "protocol_inv s" and new: "pr_pools s P = None" and p: "fair_terms (sp_terms p)" "sp_pending p = 0"
    "sp_next_index p = 0" "sp_next_settle p = 0" "sp_tags p = []"
  shows "protocol_inv (s\<lparr>pr_pools := (pr_pools s)(P \<mapsto> p)\<rparr>)"
proof (rule inv_pool_update [OF inv])
  have "waiting s P = {}" using new protocol_invD(2) [OF inv] by (fastforce simp: waiting_def)
  then have "queue s P p []" using p by (simp add: queue_def)
  moreover have "custody s P []"
  proof (rule custodyI)
    have none: "item_pool i \<noteq> P" if "pr_items s I = Some i" for I i
      using new protocol_invD(3) [OF inv that] by auto
    show "unat (item_position i) < length [] \<and> unat (item_tier i) < MAX_TIERS \<and>
        [] ! unat (item_position i) = tier_tag (unat (item_tier i))"
      if "pr_items s I = Some i" "item_pool i = P" for I i using none [OF that(1)] that(2) by simp
    show "I = J" if "pr_items s I = Some i" "item_pool i = P" for I i J using none [OF that(1)] that(2) by simp
  qed simp
  ultimately show "pool_inv (s\<lparr>pr_pools := (pr_pools s)(P \<mapsto> p)\<rparr>) P p"
    using p by (intro pool_invI [where us = "[]"]) (simp_all add: queue_def)
qed simp_all

lemma inv_deposit:
  assumes inv: "protocol_inv s" and P: "pr_pools s P = Some p" and I: "pr_items s I = None" "item_pool i = P"
    "unat (item_position i) = length (sp_tags p)" "unat (item_tier i) < unat (pool_tier_count (sp_terms p))"
  shows "protocol_inv (s\<lparr>pr_pools := (pr_pools s)(P \<mapsto> p\<lparr>sp_tags := sp_tags p @ [tier_tag (unat (item_tier i))]\<rparr>),
      pr_items := (pr_items s)(I \<mapsto> i)\<rparr>)"
    (is "protocol_inv ?s")
proof (rule inv_pool_update [OF inv])
  obtain us where us: "queue s P p us" "reserved (sp_tags p) 0 0 us" "custody s P (sp_tags p)" "fair_terms (sp_terms p)"
    by (rule pool_invE [OF protocol_invD(1) [OF inv P]])
  let ?p = "p\<lparr>sp_tags := sp_tags p @ [tier_tag (unat (item_tier i))]\<rparr>"
  have "custody ?s P (sp_tags ?p)"
    using custody_add [OF us(3) I(1-3) fair_count [OF us(4) I(4)]]
      custody_items [of ?s "s\<lparr>pr_items := (pr_items s)(I \<mapsto> i)\<rparr>"] by simp
  then show "pool_inv ?s P ?p"
    using us reserved_append_stock [OF us(2)] by (intro pool_invI [where us = us]) (simp_all add: queue_def)
qed (use I in auto)

lemma inv_reclaim:
  assumes inv: "protocol_inv s" and P: "pr_pools s P = Some p" "sp_pending p = 0"
    and I: "pr_items s I = Some i" "item_pool i = P"
  shows "protocol_inv (s\<lparr>pr_pools := (pr_pools s)(P \<mapsto> p\<lparr>sp_tags := (sp_tags p)[unat (item_position i) := 0]\<rparr>),
      pr_items := (pr_items s)(I := None)\<rparr>)"
    (is "protocol_inv ?s")
proof (rule inv_pool_update [OF inv])
  obtain us where us: "queue s P p us" "custody s P (sp_tags p)" "fair_terms (sp_terms p)"
    by (rule pool_invE [OF protocol_invD(1) [OF inv P(1)]])
  let ?p = "p\<lparr>sp_tags := (sp_tags p)[unat (item_position i) := 0]\<rparr>"
  have none: "us = []" using queue_empty [OF us(1) P(2)] .
  have fu: "(\<lambda>J. if J = I then None else pr_items s J) = (pr_items s)(I := None)" by auto
  have "custody ?s P (sp_tags ?p)"
    using custody_remove [OF us(2), of "[I]" "[unat (item_position i)]"] I
      custody_items [of ?s "s\<lparr>pr_items := (pr_items s)(I := None)\<rparr>"] by (simp add: fu)
  then show "pool_inv ?s P ?p"
    using us none by (intro pool_invI [where us = "[]"]) (simp_all add: queue_def)
qed (use I in auto)

lemma inv_buy:
  assumes inv: "protocol_inv s" and P: "pr_pools s P = Some p" and U: "pr_pulls s U = None" "pull_pool u = P"
    "pull_status u = STATUS_PENDING" "unat (pull_index u) = sp_next_index p"
    "unat (pull_inventory_version u) = length (sp_tags p)" "0 < unat (pull_count u)" "unat (pull_count u) \<le> MAX_COUNT"
    "sp_pending p + unat (pull_count u) \<le> stock_below (sp_tags p) (length (sp_tags p))"
  shows "protocol_inv (s\<lparr>pr_pools := (pr_pools s)(P \<mapsto> p\<lparr>sp_pending := sp_pending p + unat (pull_count u),
      sp_next_index := sp_next_index p + 1\<rparr>), pr_pulls := (pr_pulls s)(U \<mapsto> u)\<rparr>)"
    (is "protocol_inv ?s")
proof (rule inv_pool_update [OF inv])
  obtain us where us: "queue s P p us" "reserved (sp_tags p) 0 0 us" "custody s P (sp_tags p)" "fair_terms (sp_terms p)"
    by (rule pool_invE [OF protocol_invD(1) [OF inv P]])
  let ?p = "p\<lparr>sp_pending := sp_pending p + unat (pull_count u), sp_next_index := sp_next_index p + 1\<rparr>"
  have w: "waiting ?s P = insert (U, u) (waiting s P)" using waiting_insert [OF U(1-3)] by (simp add: waiting_def)
  have "queue ?s P ?p (us @ [(U, u)])" by (rule queue_push [OF us(1) w]) (use U in simp_all)
  moreover have "unat (pull_inventory_version (snd (last us))) \<le> length (sp_tags p)" if "us \<noteq> []"
    using reserved_bound [OF us(2), of "fst (last us)" "snd (last us)"] that by simp
  then have "reserved (sp_tags p) 0 0 (us @ [(U, u)])"
    unfolding reserved_snoc using us(1,2) U by (auto simp: queue_def)
  moreover have "custody ?s P (sp_tags p)" using us(3) custody_items [of ?s s] by simp
  ultimately show "pool_inv ?s P ?p" using us(4) by (intro pool_invI) simp_all
qed (use U in \<open>auto simp: waiting_def split: if_splits\<close>)

text \<open>A refund and a settlement both take the head off the queue.\<close>

lemma inv_pop:
  assumes inv: "protocol_inv s" and P: "pr_pools s P = Some p" and U: "pr_pulls s U = Some u" "pull_pool u = P"
    "pull_status u = STATUS_PENDING" "unat (pull_index u) = sp_next_settle p"
    and x: "x = None \<or> (\<exists>u'. x = Some u' \<and> pull_status u' = STATUS_SETTLED \<and> pull_pool u' = P)"
    and ps: "p' = p\<lparr>sp_pending := sp_pending p - unat (pull_count u), sp_next_settle := sp_next_settle p + 1, sp_tags := tags'\<rparr>"
    and tags: "\<And>us. reserved (sp_tags p) (unat (pull_inventory_version u)) (unat (pull_count u)) us \<Longrightarrow>
      reserved tags' 0 0 us"
    and its: "custody s P (sp_tags p) \<Longrightarrow> custody (s\<lparr>pr_items := its\<rparr>) P tags'"
      "\<And>I i. item_pool i \<noteq> P \<Longrightarrow> its I = Some i \<longleftrightarrow> pr_items s I = Some i"
  shows "protocol_inv (s\<lparr>pr_pools := (pr_pools s)(P \<mapsto> p'), pr_pulls := (pr_pulls s)(U := x), pr_items := its\<rparr>)"
    (is "protocol_inv ?s")
proof (rule inv_pool_update [OF inv])
  obtain us where us: "queue s P p us" "reserved (sp_tags p) 0 0 us" "custody s P (sp_tags p)" "fair_terms (sp_terms p)"
    by (rule pool_invE [OF protocol_invD(1) [OF inv P]])
  have mem: "(U, u) \<in> waiting s P" using U by (simp add: waiting_def)
  obtain us' where us': "us = (U, u) # us'" "(U, u) \<notin> set us'" using queue_head [OF us(1) mem U(4)] by blast
  have w: "waiting ?s P = waiting s P - {(U, u)}"
  proof -
    have "waiting (s\<lparr>pr_pulls := (pr_pulls s)(U := x)\<rparr>) P = waiting s P - {(U, u)}"
      by (rule waiting_remove [OF U(1)]) (use x in auto)
    then show ?thesis by (simp add: waiting_def)
  qed
  have "queue ?s P p' us'" by (rule queue_pop [OF us(1) [unfolded us'(1)] us'(2) w]) (simp_all add: ps)
  moreover have "reserved tags' 0 0 us'" using us(2) us'(1) by (intro tags) simp
  moreover have "custody ?s P tags'" using its(1) [OF us(3)] custody_items [of ?s "s\<lparr>pr_items := its\<rparr>"] by simp
  ultimately show "pool_inv ?s P p'" using us(4) by (intro pool_invI [where us = us']) (simp_all add: ps)
next
  fix Q assume "Q \<noteq> P"
  then show "waiting ?s Q = waiting s Q" using U x by (auto simp: waiting_def split: if_splits)
qed (use its(2) x in \<open>auto split: if_splits\<close>)

lemma inv_settle:
  assumes inv: "protocol_inv s" and P: "pr_pools s P = Some p" and U: "pr_pulls s U = Some u" "pull_pool u = P"
      "pull_status u = STATUS_PENDING" "unat (pull_index u) = sp_next_settle p"
    and len: "length Is = unat (pull_count u)" and dist: "distinct qs"
    and two: "list_all2 (\<lambda>I q. \<exists>i. pr_items s I = Some i \<and> item_pool i = P \<and> unat (item_position i) = q \<and>
      q < unat (pull_inventory_version u) \<and> q < length (sp_tags p) \<and> sp_tags p ! q = tier_tag (unat (item_tier i)) \<and>
      unat (item_tier i) < 8) Is qs"
    and u': "u'\<lparr>pull_outcomes := []\<rparr> = u\<lparr>pull_status := STATUS_SETTLED, pull_outcomes := []\<rparr>"
  shows "protocol_inv (s\<lparr>pr_pools := (pr_pools s)(P \<mapsto> p\<lparr>sp_pending := sp_pending p - unat (pull_count u),
      sp_next_settle := sp_next_settle p + 1, sp_tags := clear_positions (sp_tags p) qs\<rparr>),
      pr_pulls := (pr_pulls s)(U \<mapsto> u'), pr_items := (\<lambda>I. if I \<in> set Is then None else pr_items s I)\<rparr>)"
proof -
  have Is: "list_all2 (\<lambda>I q. \<exists>i. pr_items s I = Some i \<and> item_pool i = P \<and> unat (item_position i) = q) Is qs"
    by (rule list.rel_mono_strong [OF two]) blast
  have qs: "\<forall>q \<in> set qs. q < unat (pull_inventory_version u) \<and> q < length (sp_tags p) \<and> sp_tags p ! q \<noteq> 0"
    using two by (fastforce simp: list_all2_conv_all_nth in_set_conv_nth)
  have settled: "pull_status u' = STATUS_SETTLED" "pull_pool u' = P"
    using arg_cong [OF u', of pull_status] arg_cong [OF u', of pull_pool] U(2) by simp_all
  have n: "length qs = unat (pull_count u)" using len two by (simp add: list_all2_lengthD)
  show ?thesis
  proof (rule inv_pop [OF inv P U _ refl])
    show "Some u' = None \<or> (\<exists>u''. Some u' = Some u'' \<and> pull_status u'' = STATUS_SETTLED \<and> pull_pool u'' = P)"
      using settled by simp
    show "reserved (clear_positions (sp_tags p) qs) 0 0 us"
      if "reserved (sp_tags p) (unat (pull_inventory_version u)) (unat (pull_count u)) us" for us
      using reserved_clear [OF dist qs, of 0 us] that n by (auto intro: reserved_fewer)
    show "custody (s\<lparr>pr_items := \<lambda>I. if I \<in> set Is then None else pr_items s I\<rparr>) P (clear_positions (sp_tags p) qs)"
      if "custody s P (sp_tags p)" using custody_remove [OF that Is] .
    show "((if I \<in> set Is then None else pr_items s I) = Some i) = (pr_items s I = Some i)" if "item_pool i \<noteq> P" for I i
      using that Is by (auto simp: list_all2_conv_all_nth in_set_conv_nth)
  qed
qed

lemma protocol_inv_step:
  assumes "protocol_step s s'" "protocol_inv s"
  shows "protocol_inv s'"
  using assms
proof (induction rule: protocol_step.induct)
  case (set_status s P p st)
  obtain us where us: "queue s P p us" "reserved (sp_tags p) 0 0 us" "custody s P (sp_tags p)" "fair_terms (sp_terms p)"
    by (rule pool_invE [OF protocol_invD(1) [OF set_status(4,1)]])
  show ?case
    by (rule inv_pool_update [OF set_status(4)]) (use us in \<open>auto intro!: pool_invI [where us = us] simp: queue_def\<close>)
next
  case (refund s P p U u)
  have "protocol_inv (s\<lparr>pr_pools := (pr_pools s)(P \<mapsto> p\<lparr>sp_pending := sp_pending p - unat (pull_count u),
      sp_next_settle := sp_next_settle p + 1, sp_tags := sp_tags p\<rparr>), pr_pulls := (pr_pulls s)(U := None), pr_items := pr_items s\<rparr>)"
    by (rule inv_pop [OF refund(6,1-5) _ refl]) (auto intro: reserved_fewer)
  then show ?case by simp
next
  case (settle s P p U u Is qs u')
  show ?case by (rule inv_settle [OF settle(11,1-9)])
next
  case (deliver s U u n)
  have w: "waiting (s\<lparr>pr_pulls := (pr_pulls s)(U \<mapsto> v)\<rparr>) Q = waiting s Q" if "pull_status v = STATUS_SETTLED" for v Q
    by (rule waiting_other) (use deliver that in auto)
  show ?case using deliver protocol_invD [OF deliver(5)] w
    unfolding protocol_inv_def pool_inv_def queue_def custody_pools by auto
next
  case (deliver_last s U u n)
  have w: "waiting (s\<lparr>pr_pulls := (pr_pulls s)(U := None)\<rparr>) Q = waiting s Q" for Q
    by (rule waiting_other) (use deliver_last in auto)
  show ?case using deliver_last(6) w
    unfolding protocol_inv_def pool_inv_def queue_def custody_pools by (auto split: if_splits)
next
  case (create s P p)
  then show ?case by (intro inv_create) simp_all
next
  case (deposit s P p I i)
  then show ?case by (intro inv_deposit) simp_all
next
  case (reclaim s P p I i)
  show ?case by (rule inv_reclaim [OF reclaim(8,1,3-5)])
next
  case (buy s P p U u)
  show ?case by (rule inv_buy [OF buy(11,1,3-10)])
qed

end
