(* ===== verification/Keeps.thy ===== *)
theory Keeps
  imports Frames
begin

section \<open>The accounts an instruction touches\<close>

text \<open>
  \<open>keeps A\<close> is the frame of an instruction: outside the addresses \<open>A\<close> every account of the program
  is as it was, and an account that is new to the program is still all zero. Each instruction keeps
  everything but the accounts it names.
\<close>

definition keeps :: "pubkey set \<Rightarrow> ledger \<Rightarrow> ledger \<Rightarrow> bool" where
  "keeps A L L' \<longleftrightarrow> (\<forall>k. k \<notin> A \<longrightarrow> (acct_owner (L k) = ID \<longrightarrow> same_at k L L') \<and>
     (acct_owner (L k) \<noteq> ID \<longrightarrow> acct_owner (L' k) = ID \<longrightarrow> set (acct_data (L' k)) \<subseteq> {0}))"

lemma keeps_refl [simp, intro]: "keeps A L L"
  by (simp add: keeps_def)

lemma keeps_trans: "keeps A L M \<Longrightarrow> keeps A M L' \<Longrightarrow> keeps A L L'"
  unfolding keeps_def same_at_def by metis

lemma keeps_mono: "keeps A L L' \<Longrightarrow> A \<subseteq> B \<Longrightarrow> keeps B L L'"
  by (auto simp: keeps_def)

lemma keeps_sameI: "(\<And>k. k \<notin> A \<Longrightarrow> same_at k L L') \<Longrightarrow> keeps A L L'"
  by (auto simp: keeps_def same_at_def)

text \<open>The steps of a handler, from any ledger kept so far.\<close>

named_theorems keep_steps

lemma keeps_invoke [keep_steps]:
  "env_invoke E c s M = Inr L' \<Longrightarrow> runtime_ok E \<Longrightarrow> keeps A L M \<Longrightarrow> keeps A L L'"
  by (rule keeps_trans, assumption) (auto simp: keeps_def dest: runtime_okD)

lemma keeps_emit [keep_steps]: "emit E e a b M = Inr L' \<Longrightarrow> runtime_ok E \<Longrightarrow> keeps A L M \<Longrightarrow> keeps A L L'"
  using emit_same by blast

lemma keeps_core [keep_steps]:
  "core_transfer_invoke E t s M = Inr L' \<Longrightarrow> runtime_ok E \<Longrightarrow> keeps A L M \<Longrightarrow> keeps A L L'"
  unfolding core_transfer_invoke_def by (rule keeps_invoke)

lemma keeps_pay [keep_steps]: "pay E P V d n M = Inr L' \<Longrightarrow> runtime_ok E \<Longrightarrow> keeps A L M \<Longrightarrow> keeps A L L'"
  by (auto simp: pay_def intro: keeps_invoke)

lemma keeps_put [keep_steps]:
  "keeps A L M \<Longrightarrow> info_key a \<in> A \<Longrightarrow> keeps A L (put_pool a p M)"
  "keeps A L M \<Longrightarrow> info_key a \<in> A \<Longrightarrow> keeps A L (put_item a i M)"
  "keeps A L M \<Longrightarrow> info_key a \<in> A \<Longrightarrow> keeps A L (put_pull a u M)"
  "keeps A L M \<Longrightarrow> info_key a \<in> A \<Longrightarrow> keeps A L (put_index a d M)"
  by (erule keeps_trans, rule keeps_sameI, metis put_frame)+

lemma keeps_create_pda [keep_steps]:
  "create_pda E payer a n s M = Inr L' \<Longrightarrow> runtime_ok E \<Longrightarrow> keeps A L M \<Longrightarrow> n < 2 ^ 64 \<Longrightarrow> info_key a \<in> A \<Longrightarrow>
   keeps A L L'"
  by (rule keeps_trans, assumption, rule keeps_sameI) (metis create_pda_Inr)

lemma keeps_close [keep_steps]:
  "close E a to M = Inr L' \<Longrightarrow> runtime_ok E \<Longrightarrow> keeps A L M \<Longrightarrow> info_key a \<in> A \<Longrightarrow> keeps A L L'"
  by (rule keeps_trans, assumption, rule keeps_sameI) (metis close_Inr)

lemma keeps_upd: "keeps A L M \<Longrightarrow> k \<in> A \<Longrightarrow> keeps A L (M(k := x))"
  by (auto simp: keeps_def same_at_def)

lemma keeps_grow [keep_steps]:
  assumes "grow_pool E payer P space M = Inr L'" "runtime_ok E" "keeps A L M" "info_key P \<in> A"
  shows "keeps A L L'"
  using assms by (auto simp: grow_pool_def Let_def intro: keeps_invoke keeps_upd split: if_splits)

lemma keeps_restock [keep_steps]:
  assumes "restock E payer P I asset tier bump M = Inr L'" "runtime_ok E" "keeps A L M" "info_key P \<in> A" "info_key I \<in> A"
  shows "keeps A L L'"
  using assms by (auto simp: restock_def Let_def intro!: keeps_put intro: keeps_create_pda keeps_grow)

lemma keeps_draw_items:
  assumes "runtime_ok E" "info_key P \<in> A" "info_key U \<in> A" "info_key ` set Is \<subseteq> A"
  shows "keeps A L M \<Longrightarrow> draw_items E P U op beta i av Is M = Inr L' \<Longrightarrow> keeps A L L'"
  using assms(4)
proof (induction Is arbitrary: i av M)
  case (Cons I Is)
  from Cons.prems(2) obtain av' M' where one: "draw_one E P U op beta i av I M = Inr (av', M')"
    and rest: "draw_items E P U op beta (Suc i) av' Is M' = Inr L'" by auto
  have "keeps A L M'"
    using one Cons.prems(1,3) assms(1-3)
    by (auto simp: draw_one_def Let_def intro!: keeps_put elim!: keeps_close split: if_splits)
  then show ?case using rest Cons.prems(3) by (intro Cons.IH) auto
qed simp

subsection \<open>The instructions\<close>

text \<open>Each process is split into its steps; the accounts it names are those of its parsed account list.\<close>

lemma keeps_create_pool: "create_pool_process E a d L = Inr L' \<Longrightarrow> runtime_ok E \<Longrightarrow> keeps {info_key (cp_pool a)} L L'"
  by (auto simp: create_pool_process_def Let_def elim!: keeps_emit keeps_create_pda intro!: keeps_put split: if_splits)

lemma keeps_deposit_item:
  "deposit_item_process E a d L = Inr L' \<Longrightarrow> runtime_ok E \<Longrightarrow> keeps {info_key (di_pool a), info_key (di_item a)} L L'"
  by (auto simp: deposit_item_process_def Let_def elim!: keeps_emit keeps_core keeps_restock)

lemma keeps_withdraw: "withdraw_process E a n L = Inr L' \<Longrightarrow> runtime_ok E \<Longrightarrow> keeps {} L L'"
  by (auto simp: withdraw_process_def elim!: keeps_emit keeps_pay split: if_splits)

lemma keeps_set_status: "set_status_process E a st L = Inr L' \<Longrightarrow> runtime_ok E \<Longrightarrow> keeps {info_key (ss_pool a)} L L'"
  by (auto simp: set_status_process_def Let_def elim!: keeps_emit intro!: keeps_put split: if_splits)

lemma keeps_reclaim:
  "reclaim_process E a L = Inr L' \<Longrightarrow> runtime_ok E \<Longrightarrow> keeps {info_key (rc_pool a), info_key (rc_item a)} L L'"
  by (auto simp: reclaim_process_def Let_def elim!: keeps_emit keeps_close keeps_core intro!: keeps_put)

lemma keeps_buy:
  "buy_process E a d L = Inr L' \<Longrightarrow> runtime_ok E \<Longrightarrow> keeps {info_key (buy_pool a), info_key (buy_pull a)} L L'"
  by (auto simp: buy_process_def Let_def elim!: keeps_emit keeps_invoke keeps_create_pda intro!: keeps_put)

lemma keeps_refund:
  "refund_process E a L = Inr L' \<Longrightarrow> runtime_ok E \<Longrightarrow> keeps {info_key (rf_pool a), info_key (rf_pull a)} L L'"
  by (auto simp: refund_process_def Let_def elim!: keeps_emit keeps_invoke keeps_close intro!: keeps_put)

lemma keeps_buyback:
  "buyback_process E a d L = Inr L' \<Longrightarrow> runtime_ok E \<Longrightarrow> keeps {info_key (bb_pool a), info_key (bb_item a)} L L'"
  by (auto simp: buyback_process_def elim!: keeps_emit keeps_pay keeps_restock keeps_core split: if_splits)

lemma keeps_settle:
  assumes "settle_process E a data L = Inr L'" "runtime_ok E"
  shows "keeps ({info_key (st_pool a), info_key (st_pull a)} \<union> info_key ` set (st_items a)) L L'"
  using assms
  by (auto simp: settle_process_def draw_def Let_def elim!: keeps_emit keeps_draw_items [rotated 5] intro!: keeps_put)

lemma keeps_deliver: "deliver_process E a i L = Inr L' \<Longrightarrow> runtime_ok E \<Longrightarrow> keeps {info_key (dl_pull a)} L L'"
  by (auto simp: deliver_process_def Let_def elim!: keeps_emit keeps_close keeps_core intro!: keeps_put split: if_splits)

end
