(* ===== verification/Abstraction.thy ===== *)
theory Abstraction
  imports Protocol Keeps
begin

section \<open>What a ledger means\<close>

text \<open>
  \<open>protocol_of\<close> reads a ledger as a state of the protocol: the accounts that load as pools, pulls and
  Items. An instruction that keeps everything but the addresses \<open>A\<close> changes this state at most at \<open>A\<close>.
\<close>

definition at_key :: "pubkey \<Rightarrow> account_info" where
  "at_key k = \<lparr>info_key = k, is_signer = False, is_writable = False\<rparr>"

definition loaded :: "'a result \<Rightarrow> 'a option" where
  "loaded r = (case r of Inl _ \<Rightarrow> None | Inr x \<Rightarrow> Some x)"

definition tags_at :: "ledger \<Rightarrow> account_info \<Rightarrow> u8 list" where
  "tags_at L P = map (\<lambda>q. index_at L P ! tag_index q) [0 ..< unat (pool_inventory_version (pool_at L P))]"

definition stock_pool_at :: "ledger \<Rightarrow> account_info \<Rightarrow> stock_pool" where
  "stock_pool_at L P = (let p = pool_at L P in
     \<lparr>sp_terms = pool_terms p, sp_status = pool_status p, sp_pending = unat (pool_pending_draws p),
      sp_next_index = unat (pool_next_index p), sp_next_settle = unat (pool_next_settle p), sp_tags = tags_at L P\<rparr>)"

definition protocol_of :: "ledger \<Rightarrow> protocol" where
  "protocol_of L =
     \<lparr>pr_pools = (\<lambda>k. map_option (\<lambda>_. stock_pool_at L (at_key k)) (loaded (load_pool L (at_key k)))),
      pr_pulls = (\<lambda>k. loaded (load_pull L (at_key k))), pr_items = (\<lambda>k. loaded (load_item L (at_key k)))\<rparr>"

text \<open>Every account that loads as a pool is consistent with its index.\<close>

definition ledger_ok :: "ledger \<Rightarrow> bool" where
  "ledger_ok L \<longleftrightarrow> (\<forall>P p. load_pool L P = Inr p \<longrightarrow> pool_ok L P (tags_at L P))"

lemma loaded_simps [simp]: "loaded (Inl e) = None" "loaded (Inr x) = Some x"
  "loaded r = Some x \<longleftrightarrow> r = Inr x" "loaded r = None \<longleftrightarrow> (\<exists>e. r = Inl e)"
  by (simp_all add: loaded_def split: sum.splits)

lemma at_key_simps [simp]: "info_key (at_key k) = k" "acct L (at_key k) = L k" "data_of L (at_key k) = acct_data (L k)"
  by (simp_all add: at_key_def acct_def data_of_def)

text \<open>Views depend on the address only.\<close>

lemma views_key:
  assumes "info_key a = info_key b"
  shows "load_pool L a = load_pool L b" "load_pull L a = load_pull L b" "load_item L a = load_item L b"
    "pool_at L a = pool_at L b" "pull_at L a = pull_at L b" "index_at L a = index_at L b" "tags_at L a = tags_at L b"
    "stock_pool_at L a = stock_pool_at L b" "pool_ok L a tags = pool_ok L b tags"
proof -
  have d: "data_of L a = data_of L b" "acct L a = acct L b" using assms by (simp_all add: data_of_def acct_def)
  show v: "load_pool L a = load_pool L b" "load_pull L a = load_pull L b" "load_item L a = load_item L b"
    "pool_at L a = pool_at L b" "pull_at L a = pull_at L b" "index_at L a = index_at L b"
    using d by (simp_all add: load_pool_def load_pull_def load_item_def load_view_def pool_at_def pull_at_def index_at_def Let_def)
  then show t: "tags_at L a = tags_at L b" by (simp add: tags_at_def)
  show "stock_pool_at L a = stock_pool_at L b" "pool_ok L a tags = pool_ok L b tags"
    using v t by (simp_all add: stock_pool_at_def pool_ok_def)
qed

lemma protocol_of_simps [simp]:
  "load_pool L a = Inr p \<Longrightarrow> pr_pools (protocol_of L) (info_key a) = Some (stock_pool_at L a)"
  "load_pool L a = Inl e \<Longrightarrow> pr_pools (protocol_of L) (info_key a) = None"
  "load_pull L a = Inr u \<Longrightarrow> pr_pulls (protocol_of L) (info_key a) = Some u"
  "load_pull L a = Inl e \<Longrightarrow> pr_pulls (protocol_of L) (info_key a) = None"
  "load_item L a = Inr i \<Longrightarrow> pr_items (protocol_of L) (info_key a) = Some i"
  "load_item L a = Inl e \<Longrightarrow> pr_items (protocol_of L) (info_key a) = None"
  using views_key [of "at_key (info_key a)" a L] by (simp_all add: protocol_of_def)

lemma ledger_okD: "ledger_ok L \<Longrightarrow> load_pool L P = Inr p \<Longrightarrow> pool_ok L P (tags_at L P)"
  by (auto simp: ledger_ok_def)

lemma tags_at_eq: "pool_ok L P tags \<Longrightarrow> tags_at L P = tags"
  by (rule nth_equalityI)
    (auto simp: tags_at_def pool_ok_def index_rep_def index_inv_def tags_ok_def)

text \<open>An account of zeros, or one that the program does not own, is not loaded.\<close>

lemma zero_data:
  assumes "set d \<subseteq> {0 :: u8}"
  shows "pool_version (decode_pool d) = 0" "pull_version (decode_pull d) = 0" "item_version (decode_item d) = 0"
proof -
  have "\<forall>x \<in> set (slice 0 1 d). x = 0" using assms by (auto simp: slice_def dest: in_set_takeD)
  then have "slice 0 1 d = replicate (length (slice 0 1 d)) 0" by (metis replicate_length_same)
  then have "(from_le (slice 0 1 d) :: u8) = 0" by (simp add: from_le_def)
  then show "pool_version (decode_pool d) = 0" "pull_version (decode_pull d) = 0" "item_version (decode_item d) = 0"
    by (simp_all add: decode_pool_def decode_pull_def decode_item_def)
qed

definition unused :: "ledger \<Rightarrow> pubkey \<Rightarrow> bool" where
  "unused L k \<longleftrightarrow> acct_owner (L k) \<noteq> ID \<or> set (acct_data (L k)) \<subseteq> {0}"

lemma unused_loads:
  assumes "unused L (info_key a)"
  shows "\<exists>e. load_pool L a = Inl e" "\<exists>e. load_pull L a = Inl e" "\<exists>e. load_item L a = Inl e"
  using assms zero_data [of "data_of L a"]
  by (auto simp: unused_def load_pool_def load_pull_def load_item_def load_view_def Let_def acct_def data_of_def)

lemma unused_protocol:
  assumes "unused L k"
  shows "pr_pools (protocol_of L) k = None" "pr_pulls (protocol_of L) k = None" "pr_items (protocol_of L) k = None"
  using unused_loads [of L "at_key k"] assms by (auto simp: protocol_of_def)

text \<open>The frame on the meaning.\<close>

lemma keeps_cases:
  assumes "keeps A L L'" "k \<notin> A"
  obtains "same_at k L L'" | "unused L k" "unused L' k"
  using assms unfolding keeps_def unused_def by blast

lemma keeps_protocol:
  assumes "keeps A L L'" "k \<notin> A"
  shows "pr_pools (protocol_of L') k = pr_pools (protocol_of L) k" "pr_pulls (protocol_of L') k = pr_pulls (protocol_of L) k"
    "pr_items (protocol_of L') k = pr_items (protocol_of L) k"
proof -
  have v: "stock_pool_at L' (at_key k) = stock_pool_at L (at_key k)" if "same_at k L L'"
    using that by (simp add: same_at_views stock_pool_at_def tags_at_def)
  have "pr_pools (protocol_of L') k = pr_pools (protocol_of L) k \<and> pr_pulls (protocol_of L') k = pr_pulls (protocol_of L) k \<and>
    pr_items (protocol_of L') k = pr_items (protocol_of L) k"
  proof (cases rule: keeps_cases [OF assms])
    case 1
    then show ?thesis by (simp add: protocol_of_def same_at_views v)
  next
    case 2
    then show ?thesis by (simp add: unused_protocol)
  qed
  then show "pr_pools (protocol_of L') k = pr_pools (protocol_of L) k" "pr_pulls (protocol_of L') k = pr_pulls (protocol_of L) k"
    "pr_items (protocol_of L') k = pr_items (protocol_of L) k" by simp_all
qed

lemma ledger_ok_keeps:
  assumes "ledger_ok L" "keeps A L L'" and "\<And>P p. info_key P \<in> A \<Longrightarrow> load_pool L' P = Inr p \<Longrightarrow> \<exists>tags. pool_ok L' P tags"
  shows "ledger_ok L'"
  unfolding ledger_ok_def
proof (intro allI impI)
  fix P p assume p: "load_pool L' P = Inr p"
  show "pool_ok L' P (tags_at L' P)"
  proof (cases "info_key P \<in> A")
    case True
    with assms(3) p tags_at_eq show ?thesis by blast
  next
    case False
    with assms(2) show ?thesis
    proof (cases rule: keeps_cases)
      case 1
      then show ?thesis using p ledger_okD [OF assms(1), of P p] by (simp add: pool_ok_same same_at_views tags_at_def)
    next
      case 2
      then show ?thesis using unused_loads(1) [of L' P] p by auto
    qed
  qed
qed

text \<open>An account loads as at most one kind.\<close>

lemma loads_one:
  assumes "load_pool L a = Inr p" shows "\<exists>e. load_pull L a = Inl e" "\<exists>e. load_item L a = Inl e"
  using kinds_distinct(1,2) [OF assms, of a] by (metis sum.exhaust_sel)+

lemma loads_one_pull:
  assumes "load_pull L a = Inr u" shows "\<exists>e. load_pool L a = Inl e" "\<exists>e. load_item L a = Inl e"
  using kinds_distinct(1) [of L a _ a u] kinds_distinct(3) [OF assms, of a] assms by (metis sum.exhaust_sel)+

lemma loads_one_item:
  assumes "load_item L a = Inr i" shows "\<exists>e. load_pool L a = Inl e" "\<exists>e. load_pull L a = Inl e"
  using kinds_distinct(2) [of L a _ a i] kinds_distinct(3) [of L a _ a i] assms by (metis sum.exhaust_sel)+

lemma protocol_of_kinds:
  "load_pool L a = Inr p \<Longrightarrow> pr_pulls (protocol_of L) (info_key a) = None \<and> pr_items (protocol_of L) (info_key a) = None"
  "load_pull L a = Inr u \<Longrightarrow> pr_pools (protocol_of L) (info_key a) = None \<and> pr_items (protocol_of L) (info_key a) = None"
  "load_item L a = Inr i \<Longrightarrow> pr_pools (protocol_of L) (info_key a) = None \<and> pr_pulls (protocol_of L) (info_key a) = None"
  using loads_one loads_one_pull loads_one_item protocol_of_simps(2,4,6) by metis+

end
