(* ===== verification/Simulation.thy ===== *)
theory Simulation
  imports Abstraction Player_Correct Operator_Correct Admin_Correct Buyback_Correct
begin

section \<open>Every instruction is a step of the protocol\<close>

text \<open>
  The refinement: a successful instruction on a ledger whose pools are consistent with their indices
  leaves such a ledger, and on the meaning of the ledger it is one step of the protocol.
\<close>

subsection \<open>Reading the accounts of an instruction\<close>

lemma reads:
  "load_pool L a = Inr p \<Longrightarrow> pr_pools (protocol_of L) (info_key a) = Some (stock_pool_at L a) \<and>
     pr_pulls (protocol_of L) (info_key a) = None \<and> pr_items (protocol_of L) (info_key a) = None"
  "load_pull L a = Inr u \<Longrightarrow> pr_pools (protocol_of L) (info_key a) = None \<and>
     pr_pulls (protocol_of L) (info_key a) = Some u \<and> pr_items (protocol_of L) (info_key a) = None"
  "load_item L a = Inr i \<Longrightarrow> pr_pools (protocol_of L) (info_key a) = None \<and>
     pr_pulls (protocol_of L) (info_key a) = None \<and> pr_items (protocol_of L) (info_key a) = Some i"
  "data_of L a = [] \<Longrightarrow> pr_pools (protocol_of L) (info_key a) = None \<and>
     pr_pulls (protocol_of L) (info_key a) = None \<and> pr_items (protocol_of L) (info_key a) = None"
  using protocol_of_kinds [of L a] unused_protocol [of L "info_key a"] by (auto simp: unused_def data_of_def acct_def)

lemma stock_pool_at_eq:
  "pool_ok L P tags \<Longrightarrow> stock_pool_at L P = \<lparr>sp_terms = pool_terms (pool_at L P), sp_status = pool_status (pool_at L P),
     sp_pending = unat (pool_pending_draws (pool_at L P)), sp_next_index = unat (pool_next_index (pool_at L P)),
     sp_next_settle = unat (pool_next_settle (pool_at L P)), sp_tags = tags\<rparr>"
  by (simp add: stock_pool_at_def tags_at_eq Let_def)

text \<open>A ledger means \<open>s'\<close> when the touched accounts do and \<open>s'\<close> leaves the others as they were.\<close>

lemma sim_frame:
  assumes "keeps A L L'"
    and "\<forall>k \<in> A. pr_pools (protocol_of L') k = pr_pools s' k \<and> pr_pulls (protocol_of L') k = pr_pulls s' k \<and>
      pr_items (protocol_of L') k = pr_items s' k"
    and "\<And>k. k \<notin> A \<Longrightarrow> pr_pools s' k = pr_pools (protocol_of L) k \<and> pr_pulls s' k = pr_pulls (protocol_of L) k \<and>
      pr_items s' k = pr_items (protocol_of L) k"
  shows "protocol_of L' = s'"
proof -
  have "pr_pools (protocol_of L') k = pr_pools s' k \<and> pr_pulls (protocol_of L') k = pr_pulls s' k \<and>
      pr_items (protocol_of L') k = pr_items s' k" for k
    using assms(2,3) keeps_protocol [OF assms(1)] by (cases "k \<in> A") simp_all
  then show ?thesis by (intro protocol.equality) auto
qed

text \<open>Only the pool of an instruction has to be consistent again.\<close>

lemma ledger_ok_frame:
  assumes "ledger_ok L" "keeps A L L'" "\<forall>k \<in> A. k = info_key P \<or> pr_pools (protocol_of L') k = None" "pool_ok L' P tags"
  shows "ledger_ok L'"
proof (rule ledger_ok_keeps [OF assms(1,2)])
  fix Q q assume Q: "info_key Q \<in> A" "load_pool L' Q = Inr q"
  then have "info_key Q = info_key P" using assms(3) reads(1) by fastforce
  then show "\<exists>tags. pool_ok L' Q tags" using assms(4) views_key(9) [of Q P L'] by blast
qed

subsection \<open>The authority's instructions\<close>

lemma fair_terms_create:
  assumes "pool_valid p" "\<forall>t \<in> set (tiers_of p). 0 < unat (tier_weight t)" "due p MAX_COUNT < 2 ^ 64"
  shows "fair_terms (pool_terms p)"
  using assms by (auto simp: fair_terms_def pool_valid_def pool_wf_def pool_terms_def tiers_of_def take_map due_def)

lemma sim_create_pool:
  assumes ok: "runtime_ok E" and lo: "ledger_ok L" and c: "create_pool E accounts data L = Inr L'"
  shows "ledger_ok L' \<and> protocol_step (protocol_of L) (protocol_of L')"
proof -
  from c obtain a d where a: "try_create_pool_accounts E L accounts = Inr a" and pr: "create_pool_process E a d L = Inr L'"
    by (auto simp: create_pool_def)
  then obtain authority P operator mint V sp ev prog where accs: "accounts = [authority, P, operator, mint, V, sp, ev, prog]"
    by (auto simp: try_create_pool_accounts_def split: list.splits)
  have A: "cp_pool a = P" using try_create_pool_accounts_Inr [OF a [unfolded accs]] by simp
  have k: "keeps {info_key P} L L'" using keeps_create_pool [OF pr ok] by (simp add: A)
  from create_pool_Inr [OF ok c [unfolded accs]] obtain p where p: "p = pool_at L' P" "data_of L P = []" "pool_ok L' P []"
    "pool_status p = POOL_PAUSED" "pool_pending_draws p = 0" "pool_next_index p = 0" "pool_next_settle p = 0"
    "\<forall>t \<in> set (tiers_of p). 0 < unat (tier_weight t)" "due p MAX_COUNT < 2 ^ 64" by blast
  let ?p = "stock_pool_at L' P"
  have "protocol_of L' = protocol_of L\<lparr>pr_pools := (pr_pools (protocol_of L))(info_key P \<mapsto> ?p)\<rparr>"
    using reads(1) [OF pool_okD(1) [OF p(3)]] reads(4) [OF p(2)] by (intro sim_frame [OF k]) simp_all
  moreover have "fair_terms (sp_terms ?p)"
    using fair_terms_create [OF _ p(8,9)] pool_okD(2) [OF p(3)] by (simp add: stock_pool_at_eq [OF p(3)] p(1))
  ultimately have "protocol_step (protocol_of L) (protocol_of L')"
    using reads(4) [OF p(2)] p by (auto intro!: protocol_step.create simp: stock_pool_at_eq [OF p(3)])
  with ledger_ok_frame [OF lo k _ p(3)] show ?thesis by simp
qed

text \<open>Deposits and buybacks restock the pool in the same way.\<close>

lemma sim_restock:
  assumes lo: "ledger_ok L" and k: "keeps {info_key P, info_key I} L L'"
    and P: "load_pool L P = Inr (pool_at L P)" "pool_status (pool_at L P) \<noteq> POOL_RETIRED"
    and new: "data_of L I = []" and tier: "unat (item_tier i) < unat (pool_tier_count (pool_at L P))"
    and step: "stock_step L P (tags_at L P @ [tier_tag (unat (item_tier i))]) L'"
    and I: "load_item L' I = Inr i" "item_pool i = info_key P" "item_position i = pool_inventory_version (pool_at L P)"
  shows "ledger_ok L' \<and> protocol_step (protocol_of L) (protocol_of L')"
proof -
  let ?s = "protocol_of L" and ?p = "stock_pool_at L P" and ?t = "[tier_tag (unat (item_tier i))]"
  have ok: "pool_ok L P (tags_at L P)" using ledger_okD [OF lo P(1)] .
  have ok': "pool_ok L' P (tags_at L P @ ?t)" using step by (simp add: stock_step_def)
  have IP: "info_key I \<noteq> info_key P" using kinds_distinct(2) [OF pool_okD(1) [OF ok'] I(1)] by simp
  have p': "stock_pool_at L' P = ?p\<lparr>sp_tags := sp_tags ?p @ ?t\<rparr>"
    using step by (simp add: stock_pool_at_eq [OF ok] stock_pool_at_eq [OF ok'] stock_step_def)
  note R = reads(1) [OF P(1)] reads(4) [OF new] reads(1) [OF pool_okD(1) [OF ok']] reads(3) [OF I(1)]
  have "protocol_of L' = ?s\<lparr>pr_pools := (pr_pools ?s)(info_key P \<mapsto> ?p\<lparr>sp_tags := sp_tags ?p @ ?t\<rparr>),
      pr_items := (pr_items ?s)(info_key I \<mapsto> i)\<rparr>"
    using R IP by (intro sim_frame [OF k]) (simp_all add: p')
  moreover have "protocol_step ?s \<dots>"
    by (rule protocol_step.deposit)
      (use R P(2) I tier pool_okD(4) [OF ok] in \<open>simp_all add: stock_pool_at_eq [OF ok] pool_terms_def\<close>)
  moreover have "ledger_ok L'" by (rule ledger_ok_frame [OF lo k _ ok']) (use R in simp)
  ultimately show ?thesis by simp
qed

lemma sim_deposit_item:
  assumes ok: "runtime_ok E" and lo: "ledger_ok L" and c: "deposit_item E accounts data L = Inr L'"
  shows "ledger_ok L' \<and> protocol_step (protocol_of L) (protocol_of L')"
proof -
  from c obtain a d where a: "try_deposit_item_accounts L accounts = Inr a" and pr: "deposit_item_process E a d L = Inr L'"
    by (auto simp: deposit_item_def)
  then obtain authority P I asset coll core sp ev prog where
    accs: "accounts = [authority, P, I, asset, coll, core, sp, ev, prog]"
    by (auto simp: try_deposit_item_accounts_def split: list.splits)
  note A = try_deposit_item_accounts_Inr [OF a [unfolded accs]]
  then have P: "load_pool L P = Inr (pool_at L P)" and k: "keeps {info_key P, info_key I} L L'"
    using keeps_deposit_item [OF pr ok] by simp_all
  have "data_of L I = []"
    using pr A by (auto simp: deposit_item_process_def dest!: check_restock_Inr)
  note new = this and D = deposit_item_Inr [OF ok ledger_okD [OF lo P] c [unfolded accs]]
  then obtain i where "load_item L' I = Inr i" "item_pool i = info_key P"
    "item_position i = pool_inventory_version (pool_at L P)" "item_tier i = data ! 0" by simp
  with D show ?thesis by (intro sim_restock [OF lo k P _ new, of i]) simp_all
qed

lemma sim_buyback:
  assumes ok: "runtime_ok E" and lo: "ledger_ok L" and c: "buyback E accounts data L = Inr L'"
  shows "ledger_ok L' \<and> protocol_step (protocol_of L) (protocol_of L')"
proof -
  from c obtain a d where a: "try_buyback_accounts E L accounts = Inr a" and d: "try_buyback_data E data = Inr d"
    and pr: "buyback_process E a d L = Inr L'"
    by (auto simp: buyback_def)
  then obtain payer seller P I asset coll V dest core tp sp ev prog where
    accs: "accounts = [payer, seller, P, I, asset, coll, V, dest, core, tp, sp, ev, prog]"
    by (auto simp: try_buyback_accounts_def split: list.splits)
  note A = try_buyback_accounts_Inr [OF a [unfolded accs]]
  then have P: "load_pool L P = Inr (pool_at L P)" and k: "keeps {info_key P, info_key I} L L'"
    using keeps_buyback [OF pr ok] by simp_all
  have new: "data_of L I = []" and t: "unat (data ! 0) < unat (pool_tier_count (pool_at L P))"
    using pr A try_buyback_data_Inr [OF d]
    by (auto simp: buyback_process_def word_less_nat_alt dest!: check_restock_Inr split: if_splits)
  note D = buyback_Inr [OF ok ledger_okD [OF lo P] c [unfolded accs]]
  then obtain i where "load_item L' I = Inr i" "item_pool i = info_key P"
    "item_position i = pool_inventory_version (pool_at L P)" "item_tier i = data ! 0" by auto
  with D t show ?thesis by (intro sim_restock [OF lo k P _ new, of i]) auto
qed

lemma sim_set_status:
  assumes ok: "runtime_ok E" and lo: "ledger_ok L" and c: "set_status E accounts data L = Inr L'"
  shows "ledger_ok L' \<and> protocol_step (protocol_of L) (protocol_of L')"
proof -
  from c obtain a st where a: "try_set_status_accounts L accounts = Inr a" and pr: "set_status_process E a st L = Inr L'"
    by (auto simp: set_status_def)
  then obtain authority P ev prog where accs: "accounts = [authority, P, ev, prog]"
    by (auto simp: try_set_status_accounts_def split: list.splits)
  note A = try_set_status_accounts_Inr [OF a [unfolded accs]]
  then have P: "load_pool L P = Inr (pool_at L P)" and k: "keeps {info_key P} L L'"
    using keeps_set_status [OF pr ok] by simp_all
  note ok1 = ledger_okD [OF lo P]
  note D = set_status_Inr [OF ok ok1 c [unfolded accs]]
  then have ok2: "pool_ok L' P (tags_at L P)" by simp
  let ?s = "protocol_of L" and ?p = "stock_pool_at L P"
  have p': "stock_pool_at L' P = ?p\<lparr>sp_status := data ! 0\<rparr>"
    using D by (simp add: stock_pool_at_eq [OF ok1] stock_pool_at_eq [OF ok2] pool_terms_def)
  note R = reads(1) [OF P] reads(1) [OF pool_okD(1) [OF ok2]]
  have "protocol_of L' = ?s\<lparr>pr_pools := (pr_pools ?s)(info_key P \<mapsto> ?p\<lparr>sp_status := data ! 0\<rparr>)\<rparr>"
    using R by (intro sim_frame [OF k]) (simp_all add: p')
  moreover have "protocol_step ?s \<dots>"
    by (rule protocol_step.set_status) (use R D in \<open>auto simp: stock_pool_at_eq [OF ok1]\<close>)
  moreover have "ledger_ok L'" by (rule ledger_ok_frame [OF lo k _ ok2]) simp
  ultimately show ?thesis by simp
qed

lemma sim_reclaim:
  assumes ok: "runtime_ok E" and lo: "ledger_ok L" and c: "reclaim E accounts L = Inr L'"
  shows "ledger_ok L' \<and> protocol_step (protocol_of L) (protocol_of L')"
proof -
  from c obtain a where a: "try_reclaim_accounts L accounts = Inr a" and pr: "reclaim_process E a L = Inr L'"
    by (auto simp: reclaim_def)
  then obtain authority P I asset coll core sp ev prog where
    accs: "accounts = [authority, P, I, asset, coll, core, sp, ev, prog]"
    by (auto simp: try_reclaim_accounts_def split: list.splits)
  note A = try_reclaim_accounts_Inr [OF a [unfolded accs]]
  then have P: "load_pool L P = Inr (pool_at L P)" and k: "keeps {info_key P, info_key I} L L'"
    using keeps_reclaim [OF pr ok] by auto
  let ?s = "protocol_of L" and ?p = "stock_pool_at L P" and ?t = "tags_at L P"
  note ok1 = ledger_okD [OF lo P]
  note D = reclaim_Inr [OF ok ok1 c [unfolded accs]]
  then obtain i where i: "load_item L I = Inr i" "item_pool i = info_key P" "unat (item_position i) < length ?t"
    "?t ! unat (item_position i) = tier_tag (unat (item_tier i))"
    and step: "stock_step L P (?t[unat (item_position i) := 0]) L'" by blast
  have ok2: "pool_ok L' P (?t[unat (item_position i) := 0])" using step by (simp add: stock_step_def)
  have p': "stock_pool_at L' P = ?p\<lparr>sp_tags := (sp_tags ?p)[unat (item_position i) := 0]\<rparr>"
    using step by (simp add: stock_pool_at_eq [OF ok1] stock_pool_at_eq [OF ok2] stock_step_def)
  have IP: "info_key I \<noteq> info_key P" using kinds_distinct(2) [OF P i(1)] by simp
  have gone: "data_of L' I = []" using D by blast
  note R = reads(1) [OF P] reads(3) [OF i(1)] reads(1) [OF pool_okD(1) [OF ok2]] reads(4) [OF gone]
  have "protocol_of L' = ?s\<lparr>pr_pools := (pr_pools ?s)(info_key P \<mapsto> ?p\<lparr>sp_tags := (sp_tags ?p)[unat (item_position i) := 0]\<rparr>),
      pr_items := (pr_items ?s)(info_key I := None)\<rparr>"
    using R IP by (intro sim_frame [OF k]) (simp_all add: p')
  moreover have "protocol_step ?s \<dots>"
    by (rule protocol_step.reclaim) (use R D i in \<open>simp_all add: stock_pool_at_eq [OF ok1]\<close>)
  moreover have "ledger_ok L'" by (rule ledger_ok_frame [OF lo k _ ok2]) (use R in simp)
  ultimately show ?thesis by simp
qed

lemma sim_withdraw:
  assumes ok: "runtime_ok E" and lo: "ledger_ok L" and c: "withdraw E accounts data L = Inr L'"
  shows "ledger_ok L' \<and> protocol_step (protocol_of L) (protocol_of L')"
proof -
  have k: "keeps {} L L'" using c keeps_withdraw [OF _ ok] by (auto simp: withdraw_def)
  have "protocol_of L' = protocol_of L" by (rule sim_frame [OF k]) simp_all
  moreover have "ledger_ok L'" by (rule ledger_ok_keeps [OF lo k]) simp
  ultimately show ?thesis by (simp add: protocol_step.other)
qed

subsection \<open>The player's instructions\<close>

lemma stock_counts:
  "\<forall>x \<in> set tags. unat x \<le> 8 \<Longrightarrow> (\<Sum>t < 8. count_list tags (tier_tag t)) = length (filter (\<lambda>x. x \<noteq> 0) tags)"
proof (induction tags)
  case (Cons x tags)
  have "(\<Sum>t < 8. of_bool (x = tier_tag t) :: nat) = of_bool (x \<noteq> 0)"
  proof (cases "x = 0")
    case False
    then obtain k where k: "k < 8" "x = tier_tag k" using tag_cases [of x] Cons.prems by auto
    then have "(\<Sum>t < 8. of_bool (x = tier_tag t) :: nat) = (\<Sum>t < 8. if t = k then 1 else 0)"
      by (intro sum.cong) auto
    then show ?thesis using False k(1) by (simp add: sum.delta)
  qed simp
  moreover have "count_list (x # tags) c = of_bool (x = c) + count_list tags c" for c by simp
  ultimately show ?case using Cons by (simp add: sum.distrib)
qed simp

lemma remaining_stock:
  assumes "pool_ok L P tags"
  shows "sum_list (map (\<lambda>t. unat (tier_remaining t)) (tiers_of (pool_at L P))) = stock_below tags (length tags)"
proof -
  let ?p = "pool_at L P" and ?n = "unat (pool_tier_count (pool_at L P))"
  note PD = pool_okD [OF assms]
  have "sum_list (map (\<lambda>t. unat (tier_remaining t)) (tiers_of ?p)) = (\<Sum>t < ?n. count_list tags (tier_tag t))"
    using PD pool_ok_count [OF assms] by (simp add: sum_list_sum_nth tiers_of_def atLeast0LessThan)
  also have "\<dots> = (\<Sum>t < 8. count_list tags (tier_tag t))"
    using assms PD(8) by (intro sum.mono_neutral_left) (auto simp: pool_ok_def)
  also have "\<dots> = stock_below tags (length tags)"
    using PD(3) by (simp add: stock_counts stock_below_def index_rep_def index_inv_def)
  finally show ?thesis .
qed

lemma sim_buy:
  assumes ok: "runtime_ok E" and lo: "ledger_ok L" and c: "buy E accounts data L = Inr L'"
  shows "ledger_ok L' \<and> protocol_step (protocol_of L) (protocol_of L')"
proof -
  from c obtain a d where a: "try_buy_accounts E L accounts = Inr a" and pr: "buy_process E a d L = Inr L'"
    by (auto simp: buy_def)
  then obtain buyer P U ata V tp sp ev prog where accs: "accounts = [buyer, P, U, ata, V, tp, sp, ev, prog]"
    by (auto simp: try_buy_accounts_def split: list.splits)
  note A = try_buy_accounts_Inr [OF a [unfolded accs]]
  then have P: "load_pool L P = Inr (pool_at L P)" and k: "keeps {info_key P, info_key U} L L'"
    using keeps_buy [OF pr ok] by auto
  let ?s = "protocol_of L" and ?p = "stock_pool_at L P" and ?t = "tags_at L P"
  note ok1 = ledger_okD [OF lo P]
  from buy_Inr [OF ok ok1 c [unfolded accs]] obtain pending u where
    p2: "pool_at L' P = (pool_at L P)\<lparr>pool_pending_draws := pending, pool_next_index := pool_next_index (pool_at L P) + 1\<rparr>"
    and n: "unat pending = unat (pool_pending_draws (pool_at L P)) + unat (data ! 0)" "0 < unat (data ! 0)"
      "unat (data ! 0) \<le> MAX_COUNT"
      "unat pending \<le> sum_list (map (\<lambda>t. unat (tier_remaining t)) (tiers_of (pool_at L P)))"
      "unat (pool_next_index (pool_at L P) + 1) = unat (pool_next_index (pool_at L P)) + 1"
    and new: "data_of L U = []" and ok2: "pool_ok L' P ?t"
    and u: "load_pull L' U = Inr u" "pull_status u = STATUS_PENDING" "pull_count u = data ! 0"
      "pull_index u = pool_next_index (pool_at L P)" "pull_inventory_version u = pool_inventory_version (pool_at L P)"
      "pull_pool u = info_key P" and act: "pool_status (pool_at L P) = POOL_ACTIVE"
    by (elim exE conjE)
  let ?p' = "?p\<lparr>sp_pending := sp_pending ?p + unat (pull_count u), sp_next_index := sp_next_index ?p + 1\<rparr>"
  have p': "stock_pool_at L' P = ?p'"
    using n u by (simp add: stock_pool_at_eq [OF ok1] stock_pool_at_eq [OF ok2] p2 pool_terms_def)
  have ver: "unat (pool_inventory_version (pool_at L P)) = length ?t" using pool_okD(4) [OF ok1] by simp
  have avail: "unat (pool_pending_draws (pool_at L P)) + unat (data ! 0) \<le> stock_below ?t (length ?t)"
    using n(4) unfolding remaining_stock [OF ok1] n(1) .
  have UP: "info_key U \<noteq> info_key P" using kinds_distinct(1) [OF pool_okD(1) [OF ok2] u(1)] by simp
  note R = reads(1) [OF P] reads(4) [OF new] reads(1) [OF pool_okD(1) [OF ok2]] reads(2) [OF u(1)]
  have "protocol_of L' = ?s\<lparr>pr_pools := (pr_pools ?s)(info_key P \<mapsto> ?p'), pr_pulls := (pr_pulls ?s)(info_key U \<mapsto> u)\<rparr>"
    using R UP by (intro sim_frame [OF k]) (simp_all add: p')
  moreover have "protocol_step ?s \<dots>"
    using R(1,2) u act n(2,3) avail by (intro protocol_step.buy) (simp_all add: stock_pool_at_eq [OF ok1] ver)
  moreover have "ledger_ok L'" by (rule ledger_ok_frame [OF lo k _ ok2]) (use R in simp)
  ultimately show ?thesis by simp
qed

text \<open>The next to settle is below the next index, so the counter does not wrap.\<close>

lemma head_in_queue:
  assumes inv: "protocol_inv (protocol_of L)" and P: "load_pool L P = Inr (pool_at L P)" and U: "load_pull L U = Inr u"
    "pull_pool u = info_key P" "pull_status u = STATUS_PENDING" and ix: "pull_index u = pool_next_settle (pool_at L P)"
  shows "unat (pool_next_settle (pool_at L P) + 1) = unat (pool_next_settle (pool_at L P)) + 1"
    "unat (pull_inventory_version u) \<le> length (tags_at L P)"
proof -
  let ?s = "protocol_of L"
  obtain us where us: "queue ?s (info_key P) (stock_pool_at L P) us" "reserved (sp_tags (stock_pool_at L P)) 0 0 us"
    by (rule pool_invE [OF protocol_invD(1) [OF inv]]) (use reads(1) [OF P] in auto)
  have mem: "(info_key U, u) \<in> set us" using us(1) reads(2) [OF U(1)] U by (simp add: queue_def waiting_def)
  then have "unat (pull_index u) \<in> set (map (\<lambda>(U, u). unat (pull_index u)) us)" by force
  moreover have "map (\<lambda>(U, u). unat (pull_index u)) us =
      [unat (pool_next_settle (pool_at L P)) ..< unat (pool_next_index (pool_at L P))]"
    using us(1) by (simp add: queue_def stock_pool_at_def Let_def)
  ultimately have "unat (pull_index u) < unat (pool_next_index (pool_at L P))" by (simp only: set_upt) simp
  moreover have "unat (pool_next_index (pool_at L P)) < 2 ^ 64" by simp
  ultimately have "unat (pool_next_settle (pool_at L P)) + 1 < 2 ^ 64" unfolding ix by linarith
  then show "unat (pool_next_settle (pool_at L P) + 1) = unat (pool_next_settle (pool_at L P)) + 1"
    by (simp add: unat_word_ariths)
  show "unat (pull_inventory_version u) \<le> length (tags_at L P)"
    using reserved_bound [OF us(2) mem] by (simp add: stock_pool_at_def Let_def)
qed

lemma sim_refund:
  assumes ok: "runtime_ok E" and lo: "ledger_ok L" and inv: "protocol_inv (protocol_of L)"
    and c: "refund E accounts L = Inr L'"
  shows "ledger_ok L' \<and> protocol_step (protocol_of L) (protocol_of L')"
proof -
  from c obtain a where a: "try_refund_accounts E L accounts = Inr a" and pr: "refund_process E a L = Inr L'"
    by (auto simp: refund_def)
  then obtain P U buyer V ata tp ev prog where accs: "accounts = [P, U, buyer, V, ata, tp, ev, prog]"
    by (auto simp: try_refund_accounts_def split: list.splits)
  note A = try_refund_accounts_Inr [OF a [unfolded accs]]
  then have P: "load_pool L P = Inr (pool_at L P)" and U: "load_pull L U = Inr (pull_at L U)"
    "pull_pool (pull_at L U) = info_key P" and k: "keeps {info_key P, info_key U} L L'"
    using keeps_refund [OF pr ok] by auto
  let ?s = "protocol_of L" and ?p = "stock_pool_at L P" and ?t = "tags_at L P" and ?u = "pull_at L U"
  note ok1 = ledger_okD [OF lo P]
  from refund_Inr [OF ok ok1 c [unfolded accs]] obtain pending where
    p2: "pool_at L' P = (pool_at L P)\<lparr>pool_pending_draws := pending, pool_next_settle := pool_next_settle (pool_at L P) + 1\<rparr>"
    and n: "unat pending + unat (pull_count ?u) = unat (pool_pending_draws (pool_at L P))"
    and ok2: "pool_ok L' P ?t" and u: "pull_index ?u = pool_next_settle (pool_at L P)" "pull_status ?u = STATUS_PENDING"
    and gone: "data_of L' U = []" by blast
  let ?p' = "?p\<lparr>sp_pending := sp_pending ?p - unat (pull_count ?u), sp_next_settle := sp_next_settle ?p + 1\<rparr>"
  have p': "stock_pool_at L' P = ?p'"
    using n [symmetric] head_in_queue(1) [OF inv P U u(2,1)]
    by (simp add: stock_pool_at_eq [OF ok1] stock_pool_at_eq [OF ok2] p2 pool_terms_def)
  have UP: "info_key U \<noteq> info_key P" using kinds_distinct(1) [OF P U(1)] by simp
  note R = reads(1) [OF P] reads(2) [OF U(1)] reads(1) [OF pool_okD(1) [OF ok2]] reads(4) [OF gone]
  have "protocol_of L' = ?s\<lparr>pr_pools := (pr_pools ?s)(info_key P \<mapsto> ?p'), pr_pulls := (pr_pulls ?s)(info_key U := None)\<rparr>"
    using R UP by (intro sim_frame [OF k]) (simp_all add: p')
  moreover have "protocol_step ?s \<dots>"
    by (rule protocol_step.refund) (use R U u in \<open>simp_all add: stock_pool_at_eq [OF ok1]\<close>)
  moreover have "ledger_ok L'" by (rule ledger_ok_frame [OF lo k _ ok2]) (use R in simp)
  ultimately show ?thesis by simp
qed

subsection \<open>The operator's instructions\<close>

lemma settle_accounts_shape:
  assumes "try_settle_accounts E L accounts = Inr a"
  obtains operator P U items ev prog where "accounts = operator # P # U # items @ [ev, prog]"
proof -
  from assms obtain operator P U rest where r: "accounts = operator # P # U # rest" "\<not> length rest < 2"
    by (auto simp: try_settle_accounts_def split: list.splits if_splits)
  let ?n = "length rest - 2"
  have "length (drop ?n rest) = 2" using r(2) by simp
  then obtain ev prog where "drop ?n rest = [ev, prog]"
    by (metis (no_types, opaque_lifting) length_0_conv length_Suc_conv numeral_2_eq_2)
  then have "rest = take ?n rest @ [ev, prog]" by (metis append_take_drop_id)
  with r(1) show ?thesis by (intro that [of operator P U "take ?n rest" ev prog]) simp
qed

text \<open>The Item accounts of a settlement are prizes of the pool at the drawn positions.\<close>

lemma settle_prizes:
  assumes cus: "custody s P tags" and len: "length ds = length Is"
    and its: "\<And>n. n < length Is \<Longrightarrow> \<exists>it. pr_items s (Is ! n) = Some it \<and> item_pool it = P \<and> unat (item_position it) = snd (ds ! n)"
    and inside: "\<forall>(tier, position) \<in> set ds. position < c"
  shows "list_all2 (\<lambda>I q. \<exists>i. pr_items s I = Some i \<and> item_pool i = P \<and> unat (item_position i) = q \<and>
    q < c \<and> q < length tags \<and> tags ! q = tier_tag (unat (item_tier i)) \<and> unat (item_tier i) < 8) Is (map snd ds)"
  unfolding list_all2_conv_all_nth
proof (intro conjI allI impI)
  fix n assume n: "n < length Is"
  then obtain it where it: "pr_items s (Is ! n) = Some it" "item_pool it = P" "unat (item_position it) = snd (ds ! n)"
    using its by blast
  moreover have "snd (ds ! n) < c" using inside nth_mem [of n ds] n len by (auto simp: split_beta)
  ultimately show "\<exists>i. pr_items s (Is ! n) = Some i \<and> item_pool i = P \<and> unat (item_position i) = map snd ds ! n \<and>
      map snd ds ! n < c \<and> map snd ds ! n < length tags \<and> tags ! (map snd ds ! n) = tier_tag (unat (item_tier i)) \<and>
      unat (item_tier i) < 8"
    using custodyD(1) [OF cus it(1,2)] n len by (intro exI [of _ it]) simp
qed (simp add: len)

text \<open>The accounts of the settled items are gone, and were neither pools nor pulls.\<close>

lemma settled_gone:
  assumes P: "load_pool L P = Inr p" and U: "load_pull L U = Inr u" and I: "load_item L I = Inr i" "data_of L' I = []"
  shows "pr_pools (protocol_of L') (info_key I) = None \<and> pr_pulls (protocol_of L') (info_key I) = None \<and>
    pr_items (protocol_of L') (info_key I) = None \<and> info_key I \<noteq> info_key P \<and> info_key I \<noteq> info_key U \<and>
    pr_pools (protocol_of L) (info_key I) = None \<and> pr_pulls (protocol_of L) (info_key I) = None"
  using reads(3) [OF I(1)] reads(4) [OF I(2)] kinds_distinct(2) [OF P I(1)] kinds_distinct(3) [OF U I(1)] by auto

lemma sim_settle:
  assumes ok: "runtime_ok E" and lo: "ledger_ok L" and inv: "protocol_inv (protocol_of L)"
    and c: "settle E accounts data L = Inr L'"
  shows "ledger_ok L' \<and> protocol_step (protocol_of L) (protocol_of L')"
proof -
  from c obtain a pb where a: "try_settle_accounts E L accounts = Inr a" and pr: "settle_process E a pb L = Inr L'"
    by (auto simp: settle_def)
  obtain operator P U items ev prog where accs: "accounts = operator # P # U # items @ [ev, prog]"
    by (rule settle_accounts_shape [OF a])
  note A = try_settle_accounts_Inr [OF a [unfolded accs]]
  let ?s = "protocol_of L" and ?p = "stock_pool_at L P" and ?t = "tags_at L P" and ?u = "pull_at L U"
  let ?u' = "pull_at L' U" and ?Is = "map info_key items"
  from A have P: "load_pool L P = Inr (pool_at L P)" and U: "load_pull L U = Inr ?u" "pull_pool ?u = info_key P"
    "pull_status ?u = STATUS_PENDING" "pull_index ?u = pool_next_settle (pool_at L P)" by auto
  have k: "keeps ({info_key P, info_key U} \<union> set ?Is) L L'" using keeps_settle [OF pr ok] A by simp
  note ok1 = ledger_okD [OF lo P] and head = head_in_queue [OF inv P U]
  from settle_Inr [OF ok ok1 head(2) c [unfolded accs]] obtain ds pending where
    len: "length items = unat (pull_count ?u)"
    and its: "\<forall>n < length items. \<exists>it. load_item L (items ! n) = Inr it \<and> item_pool it = info_key P \<and>
        item_tier it = fst (ds ! n) \<and> unat (item_position it) = snd (ds ! n) \<and>
        pull_outcomes ?u' ! n = \<lparr>outcome_tier = fst (ds ! n), outcome_asset = item_asset it\<rparr> \<and> data_of L' (items ! n) = []"
    and dist: "distinct (map snd ds)" and inside: "\<forall>(tier, position) \<in> set ds. position < unat (pull_inventory_version ?u) \<and>
        ?t ! position = tier_tag (unat tier)"
    and ds: "length ds = length items"
    and ok2: "pool_ok L' P (clear_positions ?t (map snd ds))"
    and p2: "pool_terms (pool_at L' P) = pool_terms (pool_at L P)"
      "unat pending + length items = unat (pool_pending_draws (pool_at L P))" "pool_pending_draws (pool_at L' P) = pending"
      "pool_next_settle (pool_at L' P) = pool_next_settle (pool_at L P) + 1"
      "pool_next_index (pool_at L' P) = pool_next_index (pool_at L P)" "pool_status (pool_at L' P) = pool_status (pool_at L P)"
    and U': "load_pull L' U = Inr ?u'"
      "?u'\<lparr>pull_outcomes := []\<rparr> = ?u\<lparr>pull_status := STATUS_SETTLED, pull_outcomes := []\<rparr>"
    by (elim exE conjE) (blast dest: reference_draws_length)
  let ?p' = "?p\<lparr>sp_pending := sp_pending ?p - unat (pull_count ?u), sp_next_settle := sp_next_settle ?p + 1,
      sp_tags := clear_positions (sp_tags ?p) (map snd ds)\<rparr>"
  have "unat (pool_pending_draws (pool_at L P)) - unat (pull_count ?u) = unat pending" using p2(2) len by simp
  then have p': "stock_pool_at L' P = ?p'"
    using p2 head(1) by (simp add: stock_pool_at_eq [OF ok1] stock_pool_at_eq [OF ok2])
  note R = reads(1) [OF P] reads(2) [OF U(1)] reads(1) [OF pool_okD(1) [OF ok2]] reads(2) [OF U'(1)]
  have PU: "info_key U \<noteq> info_key P" using kinds_distinct(1) [OF P U(1)] by simp
  have I: "\<exists>it. pr_items ?s (?Is ! n) = Some it \<and> load_item L (items ! n) = Inr it \<and> item_pool it = info_key P \<and>
      unat (item_position it) = snd (ds ! n) \<and> data_of L' (items ! n) = [] \<and>
      pull_outcomes ?u' ! n = \<lparr>outcome_tier = item_tier it, outcome_asset = item_asset it\<rparr>" if "n < length items" for n
    using its reads(3) [of L "items ! n"] that by fastforce
  have cus: "custody ?s (info_key P) (sp_tags ?p)"
    by (rule pool_invE [OF protocol_invD(1) [OF inv, of "info_key P" ?p]]) (use R(1) in auto)
  have two: "list_all2 (\<lambda>I q. \<exists>i. pr_items ?s I = Some i \<and> item_pool i = info_key P \<and> unat (item_position i) = q \<and>
      q < unat (pull_inventory_version ?u) \<and> q < length (sp_tags ?p) \<and> sp_tags ?p ! q = tier_tag (unat (item_tier i)) \<and>
      unat (item_tier i) < 8) ?Is (map snd ds)"
  proof (rule settle_prizes [OF cus])
    show "\<exists>it. pr_items ?s (?Is ! n) = Some it \<and> item_pool it = info_key P \<and> unat (item_position it) = snd (ds ! n)"
      if "n < length ?Is" for n using I [of n] that by (metis length_map)
  qed (use inside ds in auto)
  have gone: "pr_pools (protocol_of L') k = None \<and> pr_pulls (protocol_of L') k = None \<and> pr_items (protocol_of L') k = None \<and>
      k \<noteq> info_key P \<and> k \<noteq> info_key U \<and> pr_pools ?s k = None \<and> pr_pulls ?s k = None" if k: "k \<in> set ?Is" for k
  proof -
    obtain n where n: "n < length items" "k = info_key (items ! n)" using k by (auto simp: in_set_conv_nth)
    obtain it where "load_item L (items ! n) = Inr it" "data_of L' (items ! n) = []" using I [OF n(1)] by blast
    from settled_gone [OF P U(1) this] show ?thesis by (simp add: n(2))
  qed
  have "protocol_of L' = ?s\<lparr>pr_pools := (pr_pools ?s)(info_key P \<mapsto> ?p'), pr_pulls := (pr_pulls ?s)(info_key U \<mapsto> ?u'),
      pr_items := (\<lambda>I. if I \<in> set ?Is then None else pr_items ?s I)\<rparr>"
    by (rule sim_frame [OF k]) (use R PU gone in \<open>auto simp: p'\<close>)
  moreover have "protocol_step ?s \<dots>"
  proof (rule protocol_step.settle [OF _ _ U(2,3) _ _ dist two U'(2)])
    show "\<forall>n < length ?Is. pull_outcomes ?u' ! n = \<lparr>outcome_tier = item_tier (the (pr_items ?s (?Is ! n))),
        outcome_asset = item_asset (the (pr_items ?s (?Is ! n)))\<rparr>" using I by fastforce
  qed (use R U len in \<open>simp_all add: stock_pool_at_eq [OF ok1]\<close>)
  moreover have "ledger_ok L'" by (rule ledger_ok_frame [OF lo k _ ok2]) (use R gone in auto)
  ultimately show ?thesis by simp
qed

lemma sim_deliver:
  assumes ok: "runtime_ok E" and lo: "ledger_ok L" and c: "deliver E accounts data L = Inr L'"
  shows "ledger_ok L' \<and> protocol_step (protocol_of L) (protocol_of L')"
proof -
  from c obtain a oi where a: "try_deliver_accounts L accounts = Inr a" and pr: "deliver_process E a oi L = Inr L'"
    by (auto simp: deliver_def)
  then obtain payer P U buyer asset coll core sp ev prog where
    accs: "accounts = [payer, P, U, buyer, asset, coll, core, sp, ev, prog]"
    by (auto simp: try_deliver_accounts_def split: list.splits)
  note A = try_deliver_accounts_Inr [OF a [unfolded accs]]
  then have U: "load_pull L U = Inr (pull_at L U)" and k: "keeps {info_key U} L L'"
    using keeps_deliver [OF pr ok] by auto
  let ?s = "protocol_of L" and ?u = "pull_at L U" and ?i = "unat (data ! 0)"
  note D = deliver_Inr [OF ok c [unfolded accs]]
  then have b: "pull_status ?u = STATUS_SETTLED" "?i < unat (pull_count ?u)" "outcome_tier (pull_outcomes ?u ! ?i) \<noteq> DELIVERED"
    by blast+
  note R = reads(2) [OF U]
  show ?thesis
  proof (cases "\<forall>j < unat (pull_count ?u). j = ?i \<or> outcome_tier (pull_outcomes ?u ! j) = DELIVERED")
    case True
    then have "data_of L' U = []" using D by simp
    note R' = reads(4) [OF this]
    have "protocol_of L' = ?s\<lparr>pr_pulls := (pr_pulls ?s)(info_key U := None)\<rparr>"
      using R R' by (intro sim_frame [OF k]) simp_all
    moreover have "protocol_step ?s \<dots>" by (rule protocol_step.deliver_last [OF _ b True]) (use R in simp)
    moreover have "ledger_ok L'" by (rule ledger_ok_keeps [OF lo k]) (use R' reads(1) in fastforce)
    ultimately show ?thesis by simp
  next
    case False
    let ?u' = "?u\<lparr>pull_outcomes := (pull_outcomes ?u)[?i := (pull_outcomes ?u ! ?i)\<lparr>outcome_tier := DELIVERED\<rparr>]\<rparr>"
    from False D have "load_pull L' U = Inr ?u'" by presburger
    note R' = reads(2) [OF this]
    have "protocol_of L' = ?s\<lparr>pr_pulls := (pr_pulls ?s)(info_key U \<mapsto> ?u')\<rparr>"
      using R R' by (intro sim_frame [OF k]) simp_all
    moreover have "protocol_step ?s \<dots>" by (rule protocol_step.deliver [OF _ b]) (use R in simp)
    moreover have "ledger_ok L'" by (rule ledger_ok_keeps [OF lo k]) (use R' reads(1) in fastforce)
    ultimately show ?thesis by simp
  qed
qed

subsection \<open>The entrypoint\<close>

lemma simulation:
  assumes "runtime_ok E" "ledger_ok L" "protocol_inv (protocol_of L)" "process_instruction E accounts data L = Inr L'"
  shows "ledger_ok L' \<and> protocol_step (protocol_of L) (protocol_of L')"
  using assms
  by (auto simp: process_instruction_def split: list.splits if_splits
      dest: sim_create_pool sim_deposit_item sim_withdraw sim_set_status sim_reclaim sim_buy sim_refund sim_buyback
        sim_settle sim_deliver intro: protocol_step.other)

end
