(* ===== verification/System.thy ===== *)
theory System
  imports Simulation
begin

section \<open>The program over time\<close>

text \<open>
  A transaction is an instruction of this program or anything else that happens on the chain, which
  by the rules of the runtime cannot change the accounts of this program and can hand it only
  accounts of zeros. The properties here hold along every sequence of transactions.
\<close>

inductive program_step :: "ledger \<Rightarrow> ledger \<Rightarrow> bool" where
  instruction: "runtime_ok E \<Longrightarrow> process_instruction E accounts data L = Inr L' \<Longrightarrow> program_step L L'"
| external: "keeps {} L L' \<Longrightarrow> program_step L L'"

inductive reachable :: "ledger \<Rightarrow> bool" where
  start: "(\<And>k. acct_owner (L k) = ID \<Longrightarrow> set (acct_data (L k)) \<subseteq> {0}) \<Longrightarrow> reachable L"
| step: "reachable L \<Longrightarrow> program_step L L' \<Longrightarrow> reachable L'"

text \<open>What holds in every reachable ledger.\<close>

definition sound :: "ledger \<Rightarrow> bool" where
  "sound L \<longleftrightarrow> ledger_ok L \<and> protocol_inv (protocol_of L)"

lemma protocol_external: "keeps {} L L' \<Longrightarrow> protocol_of L' = protocol_of L"
  by (erule sim_frame) simp_all

lemma program_step_protocol:
  assumes "program_step L L'" "sound L"
  shows "sound L' \<and> protocol_step (protocol_of L) (protocol_of L')"
  using assms
proof (induction rule: program_step.induct)
  case (instruction E accounts data L L')
  then show ?case using simulation [of E L] protocol_inv_step unfolding sound_def by blast
next
  case (external L L')
  then show ?case
    using protocol_external [OF external(1)] ledger_ok_keeps [OF _ external(1)] by (simp add: sound_def protocol_step.other)
qed

lemma protocol_start:
  assumes "\<And>k. acct_owner (L k) = ID \<Longrightarrow> set (acct_data (L k)) \<subseteq> {0}"
  shows "protocol_of L = \<lparr>pr_pools = \<lambda>_. None, pr_pulls = \<lambda>_. None, pr_items = \<lambda>_. None\<rparr>"
proof -
  have "unused L k" for k using assms [of k] by (auto simp: unused_def)
  note u = unused_protocol [OF this]
  show ?thesis by (intro protocol.equality) (auto simp: u)
qed

lemma reachable_sound: "reachable L \<Longrightarrow> sound L"
proof (induction rule: reachable.induct)
  case (start L)
  have "unused L k" for k using start [of k] by (auto simp: unused_def)
  then have "\<exists>e. load_pool L P = Inl e" for P by (rule unused_loads(1))
  then have "ledger_ok L" unfolding ledger_ok_def by (metis sum.distinct(1))
  then show ?case using protocol_start [OF start] by (simp add: sound_def protocol_inv_def)
next
  case (step L L')
  then show ?case using program_step_protocol by blast
qed

lemma protocol_of_loaded:
  "pr_pulls (protocol_of L) (info_key a) = loaded (load_pull L a)"
  "pr_items (protocol_of L) (info_key a) = loaded (load_item L a)"
  "pr_pools (protocol_of L) (info_key a) = map_option (\<lambda>_. stock_pool_at L a) (loaded (load_pool L a))"
  using views_key [of "at_key (info_key a)" a L] by (simp_all add: protocol_of_def)

subsection \<open>The history of a pool\<close>

text \<open>
  What a pool keeps: its terms; a retired pool stays retired; the counters of the queue and the
  number of positions never fall; and a position once taken is never available again.
\<close>

definition pool_after :: "stock_pool \<Rightarrow> stock_pool \<Rightarrow> bool" where
  "pool_after p p' \<longleftrightarrow> sp_terms p' = sp_terms p \<and> (sp_status p = POOL_RETIRED \<longrightarrow> sp_status p' = POOL_RETIRED) \<and>
     sp_next_index p \<le> sp_next_index p' \<and> sp_next_settle p \<le> sp_next_settle p' \<and> length (sp_tags p) \<le> length (sp_tags p') \<and>
     (\<forall>q < length (sp_tags p). sp_tags p' ! q = sp_tags p ! q \<or> sp_tags p' ! q = 0)"

lemma pool_after_refl [simp]: "pool_after p p"
  by (simp add: pool_after_def)

lemma pool_after_trans:
  assumes "pool_after p q" "pool_after q r"
  shows "pool_after p r"
proof -
  have "sp_tags r ! n = sp_tags p ! n \<or> sp_tags r ! n = 0" if "n < length (sp_tags p)" for n
  proof -
    have "sp_tags q ! n = sp_tags p ! n \<or> sp_tags q ! n = 0" using assms(1) that by (simp add: pool_after_def)
    moreover have "sp_tags r ! n = sp_tags q ! n \<or> sp_tags r ! n = 0" using assms that by (simp add: pool_after_def)
    ultimately show ?thesis by fastforce
  qed
  then show ?thesis using assms by (simp add: pool_after_def)
qed

lemma pools_step:
  assumes "protocol_step s s'" "pr_pools s P = Some p"
  shows "\<exists>p'. pr_pools s' P = Some p' \<and> pool_after p p'"
  using assms
  by (induction rule: protocol_step.induct)
    (auto simp: pool_after_def nth_append nth_list_update nth_clear_positions)

lemma program_steps_pool:
  assumes "program_step\<^sup>*\<^sup>* L L'" "sound L" "pr_pools (protocol_of L) P = Some p"
  shows "sound L' \<and> (\<exists>p'. pr_pools (protocol_of L') P = Some p' \<and> pool_after p p')"
  using assms
proof (induction rule: rtranclp_induct)
  case (step M N)
  then obtain p' where "sound M" "pr_pools (protocol_of M) P = Some p'" "pool_after p p'" by blast
  with program_step_protocol [OF step(2)] pools_step pool_after_trans show ?case by blast
qed simp

subsection \<open>The life of a pull\<close>

text \<open>
  What one step does to a pull: nothing; take it off the head of the queue, to settle it or to refund
  it; or, when it is settled, deliver one award, and close it with the last.
\<close>

inductive pull_change :: "bool \<Rightarrow> pull \<Rightarrow> pull option \<Rightarrow> bool" where
  same: "pull_change head u (Some u)"
| refunded: "pull_status u = STATUS_PENDING \<Longrightarrow> pull_change True u None"
| settled: "pull_status u = STATUS_PENDING \<Longrightarrow>
    u'\<lparr>pull_outcomes := []\<rparr> = u\<lparr>pull_status := STATUS_SETTLED, pull_outcomes := []\<rparr> \<Longrightarrow> pull_change True u (Some u')"
| delivered: "pull_status u = STATUS_SETTLED \<Longrightarrow> n < unat (pull_count u) \<Longrightarrow>
    outcome_tier (pull_outcomes u ! n) \<noteq> DELIVERED \<Longrightarrow>
    pull_change head u (Some (u\<lparr>pull_outcomes := (pull_outcomes u)[n := (pull_outcomes u ! n)\<lparr>outcome_tier := DELIVERED\<rparr>]\<rparr>))"
| closed: "pull_status u = STATUS_SETTLED \<Longrightarrow> n < unat (pull_count u) \<Longrightarrow>
    outcome_tier (pull_outcomes u ! n) \<noteq> DELIVERED \<Longrightarrow>
    \<forall>j < unat (pull_count u). j = n \<or> outcome_tier (pull_outcomes u ! j) = DELIVERED \<Longrightarrow> pull_change head u None"

inductive_simps pull_change_simps: "pull_change head u x"

definition at_head :: "protocol \<Rightarrow> pull \<Rightarrow> bool" where
  "at_head s u \<longleftrightarrow> (\<exists>p. pr_pools s (pull_pool u) = Some p \<and> unat (pull_index u) = sp_next_settle p)"

lemma pulls_step:
  assumes "protocol_step s s'" "pr_pulls s U = Some u"
  shows "pull_change (at_head s u) u (pr_pulls s' U)"
  using assms
proof (induction rule: protocol_step.induct)
  case (refund s P p V v)
  then show ?case by (cases "U = V") (auto simp: at_head_def intro: pull_change.intros)
next
  case (settle s P p V v Is qs v')
  show ?case
  proof (cases "U = V")
    case True
    then have u: "u = v" using settle by simp
    then have "at_head s u" using settle(1,3,5) by (simp add: at_head_def)
    then show ?thesis using True settle(4,9) u by (auto intro: pull_change.settled)
  next
    case False
    then show ?thesis using settle by (simp add: pull_change.same)
  qed
next
  case (deliver s V v n)
  then show ?case by (cases "U = V") (auto intro: pull_change.intros)
next
  case (deliver_last s V v n)
  then show ?case by (cases "U = V") (auto intro: pull_change.intros)
qed (auto intro: pull_change.same)

lemma head_is_first:
  assumes inv: "protocol_inv s" and h: "at_head s u" and V: "pr_pulls s V = Some v" "pull_pool v = pull_pool u"
    "pull_status v = STATUS_PENDING"
  shows "unat (pull_index u) \<le> unat (pull_index v)"
proof -
  obtain p where p: "pr_pools s (pull_pool u) = Some p" "unat (pull_index u) = sp_next_settle p"
    using h by (auto simp: at_head_def)
  obtain us where us: "queue s (pull_pool u) p us" by (rule pool_invE [OF protocol_invD(1) [OF inv p(1)]])
  have "(V, v) \<in> set us" using us V by (simp add: queue_def waiting_def)
  then have "unat (pull_index v) \<in> set (map (\<lambda>(U, u). unat (pull_index u)) us)" by force
  moreover have "map (\<lambda>(U, u). unat (pull_index u)) us = [sp_next_settle p ..< sp_next_index p]"
    using us by (simp add: queue_def)
  ultimately show ?thesis using p(2) by simp
qed

subsection \<open>Properties of all histories\<close>

text \<open>
  C2: in every ledger that any sequence of transactions reaches, every pool agrees with its index, the
  pending pulls of a pool are a queue with consecutive indices whose counts add up to the pending
  draws, every pull of the queue has enough available positions in its pinned prefix for itself and
  all pulls before it, every available position has exactly one Item account and there are no others,
  and the terms of the pool can be drawn and refunded.
\<close>

theorem reachable_ledgers_sound: "reachable L \<Longrightarrow> ledger_ok L \<and> protocol_inv (protocol_of L)"
  using reachable_sound by (simp add: sound_def)

text \<open>
  C6: the program refines the protocol. A successful instruction of any kind on a sound ledger leaves
  a sound ledger, and on what the accounts mean it is one step of the protocol.
\<close>

theorem instruction_refines_protocol:
  assumes "runtime_ok E" "sound L" "process_instruction E accounts data L = Inr L'"
  shows "sound L' \<and> protocol_step (protocol_of L) (protocol_of L')"
  using program_step_protocol [OF program_step.instruction] assms by blast

text \<open>
  C14: the promises a pool keeps for its whole life. However many transactions later, the pool still
  exists with the same terms (authority, operator, mint, vault, price, bond, deadline and odds), it
  is retired if it was retired, the counters of its queue and its version have not fallen, and every
  position it had still holds the same prize tier or is taken.
\<close>

theorem pool_history:
  assumes "sound L" "program_step\<^sup>*\<^sup>* L L'" "load_pool L P = Inr p"
  shows "\<exists>p'. load_pool L' P = Inr p' \<and> pool_terms p' = pool_terms p \<and>
    (pool_status p = POOL_RETIRED \<longrightarrow> pool_status p' = POOL_RETIRED) \<and>
    pool_next_index p \<le> pool_next_index p' \<and> pool_next_settle p \<le> pool_next_settle p' \<and>
    pool_inventory_version p \<le> pool_inventory_version p' \<and>
    (\<forall>q < unat (pool_inventory_version p). tags_at L' P ! q = tags_at L P ! q \<or> tags_at L' P ! q = 0)"
proof -
  have p: "p = pool_at L P" using assms(3) by (simp add: load_pool_Inr)
  obtain q where q: "pr_pools (protocol_of L') (info_key P) = Some q" "pool_after (stock_pool_at L P) q" "sound L'"
    using program_steps_pool [OF assms(2,1)] reads(1) [OF assms(3)] by blast
  then obtain p' where p': "load_pool L' P = Inr p'" "q = stock_pool_at L' P" by (auto simp: protocol_of_loaded)
  then have "p' = pool_at L' P" by (simp add: load_pool_Inr)
  moreover have "length (tags_at K P) = unat (pool_inventory_version (pool_at K P))" for K by (simp add: tags_at_def)
  ultimately show ?thesis
    using q(2) p' unfolding p by (simp add: pool_after_def stock_pool_at_def Let_def word_le_nat_alt)
qed

text \<open>
  C12: the life of a pull. A transaction leaves a pull as it is, or it is the first pending pull of its
  pool and is settled or refunded, or it is settled and one award that was not delivered becomes
  delivered; the account is closed only by a refund or with its last award. No award is ever
  delivered twice, changed or lost, and no pull overtakes another.
\<close>

theorem pull_lifecycle:
  assumes "sound L" "program_step L L'" "load_pull L U = Inr u"
  shows "load_pull L' U = Inr u \<or>
    (pull_status u = STATUS_PENDING \<and>
      (\<forall>V v. load_pull L V = Inr v \<and> pull_pool v = pull_pool u \<and> pull_status v = STATUS_PENDING \<longrightarrow>
        pull_index u \<le> pull_index v) \<and>
      ((\<exists>e. load_pull L' U = Inl e) \<or> (\<exists>u'. load_pull L' U = Inr u' \<and>
        u'\<lparr>pull_outcomes := []\<rparr> = u\<lparr>pull_status := STATUS_SETTLED, pull_outcomes := []\<rparr>))) \<or>
    (pull_status u = STATUS_SETTLED \<and>
      (\<exists>n < unat (pull_count u). outcome_tier (pull_outcomes u ! n) \<noteq> DELIVERED \<and>
        (load_pull L' U = Inr (u\<lparr>pull_outcomes := (pull_outcomes u)[n := (pull_outcomes u ! n)\<lparr>outcome_tier := DELIVERED\<rparr>]\<rparr>) \<or>
         ((\<exists>e. load_pull L' U = Inl e) \<and>
          (\<forall>j < unat (pull_count u). j = n \<or> outcome_tier (pull_outcomes u ! j) = DELIVERED)))))"
proof -
  let ?s = "protocol_of L"
  have inv: "protocol_inv ?s" using assms(1) by (simp add: sound_def)
  have "pull_change (at_head ?s u) u (loaded (load_pull L' U))"
    using pulls_step [OF program_step_protocol [OF assms(2,1), THEN conjunct2]] reads(2) [OF assms(3)]
    by (metis protocol_of_loaded(1))
  moreover have first: "pull_index u \<le> pull_index v" if "at_head ?s u" "load_pull L V = Inr v" "pull_pool v = pull_pool u"
    "pull_status v = STATUS_PENDING" for V v
    using head_is_first [OF inv that(1), of "info_key V" v] that(3,4) reads(2) [OF that(2)] by (simp add: word_le_nat_alt)
  ultimately show ?thesis
  proof (cases rule: pull_change.cases)
    case same
    then show ?thesis by simp
  next
    case refunded
    with first show ?thesis by (intro disjI2 disjI1) (auto simp del: ex_simps)
  next
    case (settled u')
    with first show ?thesis by (intro disjI2 disjI1) auto
  next
    case (delivered n)
    then show ?thesis by (intro disjI2) auto
  next
    case (closed n)
    then show ?thesis by (intro disjI2) auto
  qed
qed

lemma reserved_stock:
  "reserved tags low before us \<Longrightarrow> us \<noteq> [] \<Longrightarrow>
   before + sum_list (map (\<lambda>(U, u). unat (pull_count u)) us) \<le> stock_below tags (length tags)"
proof (induction us arbitrary: low before)
  case (Cons Uu us)
  obtain U u where Uu: "Uu = (U, u)" by (cases Uu)
  show ?case
  proof (cases "us = []")
    case True
    then show ?thesis
      using Cons.prems(1) Uu stock_mono [of "unat (pull_inventory_version u)" "length tags" tags] by simp
  next
    case False
    then show ?thesis using Cons.IH [of "unat (pull_inventory_version u)" "before + unat (pull_count u)"] Cons.prems(1) Uu
      by (simp add: algebra_simps)
  qed
qed simp

lemma sum_list_bounds:
  "\<forall>x \<in> set xs. 0 < f x \<and> f x \<le> b \<Longrightarrow> length xs \<le> sum_list (map f xs) \<and> sum_list (map f xs) \<le> b * length xs"
  for f :: "'a \<Rightarrow> nat"
  by (induction xs) auto

text \<open>The queue of a pool in a sound ledger, read from the accounts.\<close>

lemma sound_queue:
  assumes "sound L" "load_pool L P = Inr p"
  obtains us where "\<forall>A u. (info_key A, u) \<in> set us \<longleftrightarrow>
      load_pull L A = Inr u \<and> pull_pool u = info_key P \<and> pull_status u = STATUS_PENDING"
    "map (\<lambda>(U, u). unat (pull_index u)) us = [unat (pool_next_settle p) ..< unat (pool_next_index p)]"
    "pool_next_settle p \<le> pool_next_index p"
    "sum_list (map (\<lambda>(U, u). unat (pull_count u)) us) = unat (pool_pending_draws p)"
    "\<forall>(U, u) \<in> set us. 0 < unat (pull_count u) \<and> unat (pull_count u) \<le> MAX_COUNT"
    "reserved (tags_at L P) 0 0 us" "pool_ok L P (tags_at L P)" "p = pool_at L P"
proof -
  have p: "p = pool_at L P" using assms(2) by (simp add: load_pool_Inr)
  have ok: "pool_ok L P (tags_at L P)" using assms ledger_okD by (auto simp: sound_def)
  have inv: "protocol_inv (protocol_of L)" using assms(1) by (simp add: sound_def)
  obtain us where us: "queue (protocol_of L) (info_key P) (stock_pool_at L P) us" "reserved (sp_tags (stock_pool_at L P)) 0 0 us"
    by (rule pool_invE [OF protocol_invD(1) [OF inv]]) (use reads(1) [OF assms(2)] in auto)
  show thesis
    by (rule that [of us]) (use us ok in \<open>auto simp: queue_def waiting_def protocol_of_loaded stock_pool_at_eq [OF ok] p word_le_nat_alt\<close>)
qed

lemma sound_bounds:
  assumes "sound L" "load_pool L P = Inr p"
  shows "pool_next_settle p \<le> pool_next_index p \<and>
    unat (pool_next_index p - pool_next_settle p) \<le> unat (pool_pending_draws p) \<and>
    unat (pool_pending_draws p) \<le> 10 * unat (pool_next_index p - pool_next_settle p) \<and>
    unat (pool_pending_draws p) \<le> sum_list (map (\<lambda>t. unat (tier_remaining t)) (tiers_of p)) \<and>
    sum_list (map (\<lambda>t. unat (tier_remaining t)) (tiers_of p)) \<le> unat (pool_inventory_version p)"
proof -
  let ?c = "\<lambda>(U, u). unat (pull_count u)" and ?sum = "sum_list (map (\<lambda>t. unat (tier_remaining t)) (tiers_of p))"
  obtain us where ix: "map (\<lambda>(U, u). unat (pull_index u)) us = [unat (pool_next_settle p) ..< unat (pool_next_index p)]"
    and le: "pool_next_settle p \<le> pool_next_index p" and sum: "sum_list (map ?c us) = unat (pool_pending_draws p)"
    and each: "\<forall>(U, u) \<in> set us. 0 < unat (pull_count u) \<and> unat (pull_count u) \<le> MAX_COUNT"
    and res: "reserved (tags_at L P) 0 0 us" and ok: "pool_ok L P (tags_at L P)" and p: "p = pool_at L P"
    by (rule sound_queue [OF assms])
  have len: "length us = unat (pool_next_index p - pool_next_settle p)"
    using arg_cong [OF ix, of length] le by (simp add: unat_sub word_le_nat_alt)
  have "\<forall>x \<in> set us. 0 < ?c x \<and> ?c x \<le> 10" using each by (simp add: split_beta)
  note bounds = sum_list_bounds [OF this]
  have "us \<noteq> [] \<longrightarrow> unat (pool_pending_draws p) \<le> ?sum"
    using reserved_stock [OF res] sum remaining_stock [OF ok] by (simp add: p)
  then have "unat (pool_pending_draws p) \<le> ?sum" using sum by (cases "us = []") auto
  moreover have "?sum \<le> unat (pool_inventory_version p)"
    using remaining_stock [OF ok] length_filter_le [of "\<lambda>x. x \<noteq> 0" "tags_at L P"] pool_okD(4) [OF ok] by (simp add: stock_below_def p)
  ultimately show ?thesis using bounds sum len le by simp
qed

text \<open>
  C17: the queue of a pool in every ledger that transactions can reach. The pending pulls of the pool are
  exactly one per index from the next to settle up to the next to buy, without gaps and without
  duplicates, each with one to ten draws and a candidate list the pool already has; their draws add up
  to the pending draws. So the pending draws lie between the number of waiting pulls and ten times it,
  and they stay within the remaining prizes of the tiers, which are at most the positions.
\<close>

theorem queue_bounds:
  assumes "reachable L" "load_pool L P = Inr p"
  shows "(\<exists>us. (\<forall>A u. (info_key A, u) \<in> set us \<longleftrightarrow>
        load_pull L A = Inr u \<and> pull_pool u = info_key P \<and> pull_status u = STATUS_PENDING) \<and>
      map (\<lambda>(U, u). unat (pull_index u)) us = [unat (pool_next_settle p) ..< unat (pool_next_index p)] \<and>
      sum_list (map (\<lambda>(U, u). unat (pull_count u)) us) = unat (pool_pending_draws p) \<and>
      (\<forall>(U, u) \<in> set us. 0 < unat (pull_count u) \<and> unat (pull_count u) \<le> MAX_COUNT \<and>
        pull_inventory_version u \<le> pool_inventory_version p)) \<and>
    pool_next_settle p \<le> pool_next_index p \<and>
    unat (pool_next_index p - pool_next_settle p) \<le> unat (pool_pending_draws p) \<and>
    unat (pool_pending_draws p) \<le> 10 * unat (pool_next_index p - pool_next_settle p) \<and>
    unat (pool_pending_draws p) \<le> sum_list (map (\<lambda>t. unat (tier_remaining t)) (tiers_of p)) \<and>
    sum_list (map (\<lambda>t. unat (tier_remaining t)) (tiers_of p)) \<le> unat (pool_inventory_version p)"
proof -
  have sound: "sound L" using reachable_sound [OF assms(1)] .
  obtain us where us: "\<forall>A u. (info_key A, u) \<in> set us \<longleftrightarrow>
      load_pull L A = Inr u \<and> pull_pool u = info_key P \<and> pull_status u = STATUS_PENDING"
    "map (\<lambda>(U, u). unat (pull_index u)) us = [unat (pool_next_settle p) ..< unat (pool_next_index p)]"
    "sum_list (map (\<lambda>(U, u). unat (pull_count u)) us) = unat (pool_pending_draws p)"
    "\<forall>(U, u) \<in> set us. 0 < unat (pull_count u) \<and> unat (pull_count u) \<le> MAX_COUNT"
    and res: "reserved (tags_at L P) 0 0 us" and ok: "pool_ok L P (tags_at L P)" and p: "p = pool_at L P"
    by (rule sound_queue [OF sound assms(2)])
  have "\<forall>(U, u) \<in> set us. 0 < unat (pull_count u) \<and> unat (pull_count u) \<le> MAX_COUNT \<and> pull_inventory_version u \<le> pool_inventory_version p"
    using us(4) reserved_bound [OF res] pool_okD(4) [OF ok] by (auto simp: word_le_nat_alt p)
  with us(1-3) show ?thesis using sound_bounds [OF sound assms(2)] by blast
qed

end
