(* ===== verification/Progress.thy ===== *)
theory Progress
  imports System
begin

section \<open>The head of the queue can be settled\<close>

text \<open>
  Every draw of a settlement can be made: the candidate prefix holds enough positions, each has its
  Item account, and the rent of the closed accounts fits the operator's balance. So for every VRF
  output there are Item accounts with which the settlement of the next pull succeeds.
\<close>

subsection \<open>Items and lamports\<close>

definition stocked :: "ledger \<Rightarrow> account_info \<Rightarrow> u8 list \<Rightarrow> bool" where
  "stocked L P tags \<longleftrightarrow> (\<forall>q < length tags. tags ! q \<noteq> 0 \<longrightarrow> (\<exists>I i. is_writable I \<and> \<not> is_signer I \<and> load_item L I = Inr i \<and>
     item_pool i = info_key P \<and> unat (item_position i) = q \<and> unat (item_tier i) < 8 \<and>
     tags ! q = tier_tag (unat (item_tier i))))"

definition lamports :: "ledger \<Rightarrow> pubkey \<Rightarrow> nat" where
  "lamports L k = unat (acct_lamports (L k))"

text \<open>Every account has at most \<open>b\<close> lamports, the account \<open>k\<close> at most \<open>m\<close>.\<close>

definition funded :: "ledger \<Rightarrow> pubkey \<Rightarrow> nat \<Rightarrow> nat \<Rightarrow> bool" where
  "funded L k m b \<longleftrightarrow> lamports L k \<le> m \<and> (\<forall>j. j \<noteq> k \<longrightarrow> lamports L j \<le> b)"

text \<open>Closing an account never fails at the runtime.\<close>

definition closes :: "env \<Rightarrow> bool" where
  "closes E \<longleftrightarrow> (\<forall>a. \<exists>a'. env_close E a = Inr a')"

lemma lamports_put [simp]:
  "acct_lamports (put_pool a p L k) = acct_lamports (L k)" "acct_lamports (put_pull a u L k) = acct_lamports (L k)"
  "acct_lamports (put_index a d L k) = acct_lamports (L k)"
  by (simp_all add: put_pool_def put_pull_def put_index_def write_data_def)

lemma owner_put:
  "acct_owner (put_pool a p L k) = acct_owner (L k)" "acct_owner (put_pull a u L k) = acct_owner (L k)"
  by (simp_all add: put_pool_def put_pull_def write_data_def)

lemma close_lives:
  assumes "closes E" "funded L (info_key to) m b" "info_key a \<noteq> info_key to" "m + b < 2 ^ 64"
  shows "\<exists>L'. close E a to L = Inr L'"
proof -
  have "unat (acct_lamports (acct L to)) + unat (acct_lamports (acct L a)) < 2 ^ 64"
  proof -
    have "unat (acct_lamports (acct L to)) \<le> m" "unat (acct_lamports (acct L a)) \<le> b"
      using assms(2,3) by (simp_all add: funded_def lamports_def acct_def)
    then show ?thesis using assms(4) by linarith
  qed
  then obtain l where "checked_add (acct_lamports (acct L to)) (acct_lamports (acct L a)) = Some l"
    by (auto simp: checked_add_def)
  then show ?thesis using assms(1) by (auto simp: close_def Let_def closes_def)
qed

lemma close_supply:
  assumes ok: "runtime_ok E" and c: "close E a to L = Inr L'" and s: "funded L (info_key to) m b" "info_key a \<noteq> info_key to"
  shows "funded L' (info_key to) (m + b) b"
proof -
  have "lamports L' (info_key to) = lamports L (info_key to) + lamports L (info_key a)"
    using close_lamports [OF c] s(2) by (simp add: lamports_def acct_def)
  moreover have "lamports L' (info_key a) = 0" using close_Inr [OF ok c] by (simp add: lamports_def acct_def)
  moreover have "L' k = L k" if "k \<noteq> info_key a" "k \<noteq> info_key to" for k
    using c that by (auto simp: close_def Let_def)
  ultimately show ?thesis using s unfolding funded_def lamports_def
    by (metis add_mono le0 trans_le_add1)
qed

subsection \<open>One draw\<close>

lemma eligible_stock:
  assumes p: "pool_valid p" "\<forall>t \<in> set (tiers_of p). 0 < unat (tier_weight t)"
    and small: "length tags < 2 ^ 32" and t: "t < unat (pool_tier_count p)" "0 < prefix_count tags t c"
  shows "sum_list (eligible (tiers_of p) (prefix_words tags c)) \<noteq> 0"
proof -
  let ?e = "eligible (tiers_of p) (prefix_words tags c)"
  have t8: "t < 8" using t(1) p(1) by (simp add: pool_valid_def)
  have len: "t < length (tiers_of p)" using t(1) p(1) by simp
  have "unat (prefix_words tags c ! t) \<noteq> 0" using prefix_words_nth [OF t8 small] t(2) by simp
  then have "prefix_words tags c ! t \<noteq> 0" by auto
  then have "?e ! t = unat (tier_weight (tiers_of p ! t))" using len t8 by (simp add: eligible_def)
  moreover have "tiers_of p ! t \<in> set (tiers_of p)" using len by simp
  ultimately have "0 < ?e ! t" using p(2) by simp
  moreover have "?e ! t \<le> sum_list ?e" using len t8 by (intro elem_le_sum_list) simp
  ultimately show ?thesis by linarith
qed

lemma count_pos: "x \<in> set xs \<Longrightarrow> 0 < count_list xs x"
  using count_list_0_iff [of xs x] by (cases "count_list xs x") auto

text \<open>The tier of an available position of the prefix.\<close>

lemma stock_tier:
  assumes "pool_ok L P tags" "0 < stock_below tags c"
  shows "\<exists>t < unat (pool_tier_count (pool_at L P)). 0 < prefix_count tags t c"
proof -
  have "filter (\<lambda>x. x \<noteq> 0) (take c tags) \<noteq> []" using assms(2) by (simp add: stock_below_def)
  then obtain x where x: "x \<in> set (take c tags)" "x \<noteq> 0" by (auto simp: filter_empty_conv)
  have bound: "unat y \<le> 8" if "y \<in> set tags" for y
    using pool_okD(3) [OF assms(1)] that by (simp add: index_rep_def index_inv_def)
  obtain t where t: "t < 8" "x = tier_tag t" using tag_cases [of x] bound [OF in_set_takeD [OF x(1)]] x(2) by auto
  have "0 < count_list tags (tier_tag t)" using count_pos [OF in_set_takeD [OF x(1)]] t(2) by simp
  then have "t < unat (pool_tier_count (pool_at L P))" using assms(1) t(1) by (simp add: pool_ok_def split: if_splits)
  moreover have "0 < prefix_count tags t c" using count_pos [OF x(1)] t(2) by (simp add: prefix_count_def)
  ultimately show ?thesis by blast
qed

text \<open>While some prize below the cursor is left, a draw selects a tier, a rank and a position, and the
  Item at that position is among the accounts that can be passed.\<close>

lemma draw_target:
  assumes P: "pool_ok L P tags" and w: "\<forall>t \<in> set (tiers_of (pool_at L P)). 0 < unat (tier_weight t)"
    and some: "0 < stock_below tags c" and st: "stocked L P tags"
  obtains tier rank idx position I it where
    "pool_draw (pool_at L P) h (prefix_words tags c) = Inr (tier, rank)"
    "unat tier < unat (pool_tier_count (pool_at L P))" "unat tier < 8" "unat rank < unat (prefix_words tags c ! unat tier)"
    "index_take (index_at L P) tier rank = Inr (idx, position)"
    "unat position < length tags" "tags ! unat position = tier_tag (unat tier)"
    "is_writable I" "\<not> is_signer I" "load_item L I = Inr it" "item_pool it = info_key P"
    "item_tier it = tier" "item_position it = position"
proof -
  note PD = pool_okD [OF P]
  have small: "length tags < 2 ^ 32" using index.bounded [OF PD(3)] .
  let ?cs = "prefix_words tags c"
  obtain t where "t < unat (pool_tier_count (pool_at L P))" "0 < prefix_count tags t c"
    using stock_tier [OF P some] by blast
  then have ne: "sum_list (eligible (tiers_of (pool_at L P)) ?cs) \<noteq> 0" by (rule eligible_stock [OF PD(2) w small])
  then obtain tier rank where dr: "pool_draw (pool_at L P) h ?cs = Inr (tier, rank)"
    and tr: "unat tier < unat (pool_tier_count (pool_at L P))" "unat rank < unat (?cs ! unat tier)"
    using pool_draw_cases [OF PD(2), of ?cs h] unfolding if_not_P [OF ne] by auto
  have t8: "unat tier < 8" using tr(1) PD(8) by simp
  have rk: "unat rank < prefix_count tags (unat tier) c" using tr(2) prefix_words_nth [OF t8 small] by simp
  obtain idx position where tk: "index_take (index_at L P) tier rank = Inr (idx, position)"
    and pos: "unat position < length tags" "tags ! unat position = tier_tag (unat tier)"
    by (rule index.select_in_prefix [OF PD(3) t8 rk])
  have "tags ! unat position \<noteq> 0" using pos(2) t8 by simp
  then obtain I it where I: "is_writable I" "load_item L I = Inr it" "item_pool it = info_key P"
    "unat (item_position it) = unat position" "unat (item_tier it) < 8" "tags ! unat position = tier_tag (unat (item_tier it))"
    and Is: "\<not> is_signer I"
    using st pos(1) unfolding stocked_def by blast
  have it: "item_tier it = tier" "item_position it = position"
    using I(4-6) pos(2) t8 by (simp_all add: word_unat_eq_iff)
  show thesis by (rule that [OF dr tr(1) t8 tr(2) tk pos I(1) Is I(2,3) it])
qed

lemma draw_one_lives:
  assumes ok: "runtime_ok E" and cl: "closes E" and P: "pool_ok L P tags" and U: "load_pull L U = Inr (pull_at L U)"
    and w: "\<forall>t \<in> set (tiers_of (pool_at L P)). 0 < unat (tier_weight t)"
    and some: "0 < stock_below tags c" and st: "stocked L P tags" and i: "i < MAX_COUNT"
    and fund: "funded L (info_key O') m b" "m + b < 2 ^ 64"
    and other: "acct_owner (acct L O') \<noteq> ID"
  shows "\<exists>I av' L'. is_writable I \<and> \<not> is_signer I \<and> draw_one E P U O' beta i (prefix_words tags c) I L = Inr (av', L') \<and>
    funded L' (info_key O') (m + b) b"
proof -
  note PD = pool_okD [OF P]
  let ?cs = "prefix_words tags c" and ?h = "env_sha256 E (beta @ [word_of_nat i])"
  obtain tier rank idx position I it where dr: "pool_draw (pool_at L P) ?h ?cs = Inr (tier, rank)"
    and tr: "unat tier < unat (pool_tier_count (pool_at L P))" "unat tier < 8" "unat rank < unat (?cs ! unat tier)"
    and tk: "index_take (index_at L P) tier rank = Inr (idx, position)"
    and pos: "unat position < length tags" "tags ! unat position = tier_tag (unat tier)"
    and I: "is_writable I" "\<not> is_signer I" "load_item L I = Inr it" "item_pool it = info_key P"
    and it: "item_tier it = tier" "item_position it = position"
    by (rule draw_target [OF P w some st])
  let ?L1 = "put_index P idx L"
  have keys: "info_key I \<noteq> info_key P" "info_key U \<noteq> info_key P" "info_key U \<noteq> info_key I"
    using kinds_distinct(2) [OF PD(1) I(3)] kinds_distinct(1) [OF PD(1) U] kinds_distinct(3) [OF U I(3)] by simp_all
  have I1: "load_item ?L1 I = Inr it" using I(3) same_at_views(2) [OF put_frame(4) [OF keys(1)]] by simp
  obtain u where u: "pull_set_outcome i tier (item_asset it) (pull_at ?L1 U) = Inr u"
    using i pull_wf_at [of ?L1 U] by (simp add: pull_set_outcome_def pull_wf_def)
  let ?L2 = "put_pull U u ?L1"
  have fund2: "funded ?L2 (info_key O') m b" using fund(1) by (simp add: funded_def lamports_def)
  have IO: "info_key I \<noteq> info_key O'" using other I(3) by (auto simp: load_item_Inr acct_def)
  obtain L3 where L3: "close E I O' ?L2 = Inr L3" using close_lives [OF cl fund2 IO fund(2)] by blast
  have s3: "same_at (info_key P) ?L1 L3"
    using same_at_trans [OF put_frame(3) [OF keys(2) [symmetric]]] close_Inr [OF ok L3] keys(1) by metis
  have p3: "pool_at L3 P = pool_at L P" using same_at_views(4) [OF s3] put_index_views(1) [OF PD(7)] by simp
  let ?r = "tier_remaining (pool_tiers_all (pool_at L P) ! unat tier)"
  have "0 < count_list tags (tier_tag (unat tier))" using pos by (intro count_pos) (metis nth_mem)
  then have "1 \<le> unat ?r" using pool_ok_count [OF P tr(1)] by simp
  then have "sub_ov ?r 1 = Inr (?r - 1)" by (simp add: sub_ov_def word_le_nat_alt)
  then obtain p' where p': "update_remaining (\<lambda>r. sub_ov r 1) tier (pool_at L3 P) = Inr p'"
    using tr(1,2) PD(2,9) unfolding p3 by (simp add: update_remaining_def tiers_of_def)
  have "sub_ov (?cs ! unat tier) 1 = Inr (?cs ! unat tier - 1)" using tr(3) by (simp add: sub_ov_def word_le_nat_alt)
  then have "draw_one E P U O' beta i ?cs I L = Inr (?cs[unat tier := ?cs ! unat tier - 1], put_pool P p' L3)"
    using dr tk tr(2) I1 I(4) it u L3 p' by (simp add: draw_one_def Let_def)
  moreover have "funded (put_pool P p' L3) (info_key O') (m + b) b"
    using close_supply [OF ok L3 fund2 IO] by (simp add: funded_def lamports_def)
  ultimately show ?thesis using I(1,2) by blast
qed

text \<open>A draw leaves the Items of the other positions.\<close>

lemma drew_stocked:
  assumes P: "pool_ok L P tags" and U: "load_pull L U = Inr (pull_at L U)"
    and d: "drew E L P U tags i I tier position L'" and st: "stocked L P tags"
  shows "stocked L' P (tags[position := 0])"
  unfolding stocked_def
proof (intro allI impI)
  fix q assume q: "q < length (tags[position := 0])" "tags[position := 0] ! q \<noteq> 0"
  then have "q \<noteq> position" by (metis length_list_update nth_list_update_eq)
  with q have q': "q < length tags" "q \<noteq> position" "tags ! q \<noteq> 0" by simp_all
  with st obtain J j where J: "is_writable J" "load_item L J = Inr j" "item_pool j = info_key P"
    "unat (item_position j) = q" "unat (item_tier j) < 8" "tags ! q = tier_tag (unat (item_tier j))" "\<not> is_signer J"
    unfolding stocked_def by blast
  obtain it where it: "load_item L I = Inr it" "unat (item_position it) = position" using d by (auto simp: drew_def)
  have "info_key J \<noteq> info_key I"
  proof
    assume "info_key J = info_key I"
    then have "load_item L J = load_item L I" by (rule views_key(3))
    then show False using J(2,4) it q'(2) by simp
  qed
  moreover have "info_key J \<noteq> info_key P" "info_key J \<noteq> info_key U"
    using kinds_distinct(2) [OF pool_okD(1) [OF P] J(2)] kinds_distinct(3) [OF U J(2)] by simp_all
  ultimately have "same_at (info_key J) L L'" using d by (simp add: drew_def)
  then have "load_item L' J = Inr j" using J(2) same_at_views(2) by metis
  then show "\<exists>I i. is_writable I \<and> \<not> is_signer I \<and> load_item L' I = Inr i \<and> item_pool i = info_key P \<and> unat (item_position i) = q \<and>
      unat (item_tier i) < 8 \<and> tags[position := 0] ! q = tier_tag (unat (item_tier i))"
    using J q' by (intro exI [of _ J] exI [of _ j]) simp
qed

subsection \<open>All draws of a pull\<close>

lemma fair_weights: "fair_terms (pool_terms p) \<Longrightarrow> \<forall>t \<in> set (tiers_of p). 0 < unat (tier_weight t)"
  by (auto simp: fair_terms_def pool_terms_def tiers_of_def take_map)

lemma draw_items_live:
  assumes ok: "runtime_ok E" and cl: "closes E"
  shows "pool_ok L P tags \<Longrightarrow> load_pull L U = Inr (pull_at L U) \<Longrightarrow> fair_terms (pool_terms (pool_at L P)) \<Longrightarrow>
    n \<le> stock_below tags c \<Longrightarrow> c \<le> length tags \<Longrightarrow> stocked L P tags \<Longrightarrow> i + n \<le> MAX_COUNT \<Longrightarrow>
    funded L (info_key O') m b \<Longrightarrow> m + n * b < 2 ^ 64 \<Longrightarrow> acct_owner (acct L O') \<noteq> ID \<Longrightarrow>
    \<exists>items L'. length items = n \<and> (\<forall>I \<in> set items. is_writable I \<and> \<not> is_signer I) \<and>
      draw_items E P U O' beta i (prefix_words tags c) items L = Inr L' \<and>
      funded L' (info_key O') (m + n * b) b \<and> acct_owner (acct L' O') \<noteq> ID"
proof (induction n arbitrary: L tags i m)
  case (Suc n)
  note P = Suc.prems(1) and U = Suc.prems(2)
  have "m + b < 2 ^ 64" using Suc.prems(9) by simp
  then obtain I av' L1 where one: "is_writable I \<and> \<not> is_signer I" "draw_one E P U O' beta i (prefix_words tags c) I L = Inr (av', L1)"
    "funded L1 (info_key O') (m + b) b"
    using draw_one_lives [OF ok cl P U fair_weights [OF Suc.prems(3)], of c i O' m b beta] Suc.prems(4,6-8,10) by auto
  from draw_one_Inr [OF ok P U one(2)] obtain tier position where d: "drew E L P U tags i I tier position L1"
    and pos: "position < c" "position < length tags" "tags ! position = tier_tag (unat tier)" "unat tier < 8"
    and av: "av' = prefix_words (tags[position := 0]) c" by blast
  let ?tags = "tags[position := 0]"
  have P1: "pool_ok L1 P ?tags" "pool_terms (pool_at L1 P) = pool_terms (pool_at L P)"
    and U1: "load_pull L1 U = Inr (pull_at L1 U)"
    using d by (auto simp: drew_def stock_step_def)
  obtain it where it: "load_item L I = Inr it" using d by (auto simp: drew_def)
  have "info_key O' \<noteq> info_key P" "info_key O' \<noteq> info_key U" "info_key O' \<noteq> info_key I"
    using Suc.prems(10) pool_okD(5) [OF P] U it by (auto simp: acct_def load_pull_Inr load_item_Inr)
  then have "same_at (info_key O') L L1" using d by (simp add: drew_def)
  then have own: "acct_owner (acct L1 O') \<noteq> ID" using Suc.prems(10) by (simp add: same_at_def acct_def)
  have "Suc (stock_below ?tags c) = stock_below tags c" using pos by (intro stock_clear) simp_all
  then have "n \<le> stock_below ?tags c" using Suc.prems(4) by simp
  from Suc.IH [OF P1(1) U1 _ this _ drew_stocked [OF P U d Suc.prems(6)] _ one(3) _ own, of "Suc i"] obtain items L' where
    "length items = n" "\<forall>I \<in> set items. is_writable I \<and> \<not> is_signer I" "draw_items E P U O' beta (Suc i) (prefix_words ?tags c) items L1 = Inr L'"
    "funded L' (info_key O') (m + b + n * b) b" "acct_owner (acct L' O') \<noteq> ID"
    using Suc.prems(3,5,7,9) P1(2) by (auto simp: algebra_simps)
  then show ?case using one(1,2) av by (intro exI [of _ "I # items"] exI [of _ L']) (simp add: algebra_simps)
qed simp

subsection \<open>The settlement\<close>

text \<open>Recording an event never fails at the runtime.\<close>

definition emits :: "env \<Rightarrow> account_info \<Rightarrow> account_info \<Rightarrow> bool" where
  "emits E event_authority program \<longleftrightarrow> (\<forall>e L. event_fits e \<longrightarrow> (\<exists>L'. emit E e event_authority program L = Inr L'))"

text \<open>After the draws, the rest of a settlement is arithmetic that the reservation covers.\<close>

lemma settle_process_lives:
  assumes ok: "runtime_ok E" and em: "emits E (st_event_authority a) (st_program a)"
    and P: "load_pool L (st_pool a) = Inr p" and U: "load_pull L (st_pull a) = Inr u" and n: "length (st_items a) \<le> 10"
    and vrf: "env_proof_verify E pb (pool_operator p)
      (env_sha256 E (to_le (info_key (st_pull a)) @ to_le (pull_client_seed u))) = Some beta"
      "length pb = 80" "length beta = 64"
    and dr: "draw E (st_pool a) (st_pull a) (st_items a) (st_operator a) beta L = Inr L1"
    and pending: "length (st_items a) \<le> unat (pool_pending_draws (pool_at L1 (st_pool a)))"
    and ix: "unat (pull_index (pull_at L1 (st_pull a))) + 1 < 2 ^ 64"
    and PU: "info_key (st_pool a) \<noteq> info_key (st_pull a)"
  shows "\<exists>L'. settle_process E a pb L = Inr L' \<and> (\<forall>k. lamports L' k = lamports L1 k \<and> acct_owner (L' k) = acct_owner (L1 k))"
proof -
  let ?P = "st_pool a" and ?U = "st_pull a" and ?n = "word_of_nat (length (st_items a)) :: u64"
  have un: "unat ?n = length (st_items a)" using n by (simp add: unat_of_nat)
  have sub: "sub_ov (pool_pending_draws (pool_at L1 ?P)) ?n = Inr (pool_pending_draws (pool_at L1 ?P) - ?n)"
    using pending un by (simp add: sub_ov_def word_le_nat_alt)
  have add: "add_ov (pull_index (pull_at L1 ?U)) 1 = Inr (pull_index (pull_at L1 ?U) + 1)"
    using ix by (simp add: add_ov_def)
  have other: "pull_at (put_pool ?P q M) ?U = pull_at M ?U" for q M
    using same_at_views(5) [OF put_frame(1), of ?U ?P] PU by simp
  have bytes: "\<exists>bs. pull_outcome_bytes v (length (st_items a)) = Inr bs \<and> length bs \<le> 330" if "pull_wf v" for v
  proof -
    have len: "length (concat (map encode_outcome os)) = 33 * length os" for os by (induction os) simp_all
    then show ?thesis using n that by (simp add: pull_outcome_bytes_def pull_wf_def)
  qed
  have inv: "load_inventory L ?P = Inr (index_at L ?P)" using P by (simp add: load_inventory_def)
  let ?L5 = "put_pool ?P (pool_at (put_pool ?P (pool_at L1 ?P\<lparr>pool_pending_draws := pool_pending_draws (pool_at L1 ?P) - ?n\<rparr>) L1) ?P
      \<lparr>pool_next_settle := pull_index (pull_at L1 ?U) + 1\<rparr>)
      (put_pool ?P (pool_at L1 ?P\<lparr>pool_pending_draws := pool_pending_draws (pool_at L1 ?P) - ?n\<rparr>) L1)"
  let ?L6 = "put_pull ?U (pull_at ?L5 ?U\<lparr>pull_status := STATUS_SETTLED\<rparr>) ?L5"
  obtain bs where bs: "pull_outcome_bytes (pull_at ?L6 ?U) (length (st_items a)) = Inr bs" "length bs \<le> 330"
    using bytes [OF pull_wf_at] by blast
  have "event_fits (SettleEvent (info_key ?P) (info_key ?U) alpha pb beta bs)" for alpha using vrf bs(2) by simp
  then have "emit E (SettleEvent (info_key ?P) (info_key ?U) alpha pb beta bs) (st_event_authority a) (st_program a) ?L6 = Inr ?L6"
    for alpha using em emit_same [OF ok] unfolding emits_def by blast
  then show ?thesis
    using P U inv vrf(1) dr sub add bs(1) by (simp add: settle_process_def Let_def other lamports_def owner_put)
qed

lemma custody_stocked:
  assumes "custody (protocol_of L) (info_key P) tags"
  shows "stocked L P tags"
  unfolding stocked_def
proof (intro allI impI)
  fix q assume q: "q < length tags" "tags ! q \<noteq> 0"
  obtain k i where k: "pr_items (protocol_of L) k = Some i" "item_pool i = info_key P" "unat (item_position i) = q"
    using custodyD(2) [OF assms q] by blast
  let ?I = "\<lparr>info_key = k, is_signer = False, is_writable = True\<rparr>"
  have "pr_items (protocol_of L) (info_key ?I) = Some i" using k(1) by simp
  then have "load_item L ?I = Inr i" unfolding protocol_of_loaded by simp
  then show "\<exists>I i. is_writable I \<and> \<not> is_signer I \<and> load_item L I = Inr i \<and> item_pool i = info_key P \<and> unat (item_position i) = q \<and>
      unat (item_tier i) < 8 \<and> tags ! q = tier_tag (unat (item_tier i))"
    using k custodyD(1) [OF assms k(1,2)] by (intro exI [of _ ?I] exI [of _ i]) simp
qed

text \<open>What the invariant promises to the pull at the head of the queue.\<close>

lemma head_reserved:
  assumes inv: "protocol_inv s" and p: "pr_pools s P = Some p" and U: "pr_pulls s U = Some u" "pull_pool u = P"
    "pull_status u = STATUS_PENDING" "unat (pull_index u) = sp_next_settle p"
  shows "unat (pull_inventory_version u) \<le> length (sp_tags p) \<and>
    unat (pull_count u) \<le> stock_below (sp_tags p) (unat (pull_inventory_version u)) \<and>
    unat (pull_count u) \<le> sp_pending p \<and> unat (pull_count u) \<le> MAX_COUNT \<and> custody s P (sp_tags p) \<and> fair_terms (sp_terms p)"
proof -
  obtain us where us: "queue s P p us" "reserved (sp_tags p) 0 0 us" "custody s P (sp_tags p)" "fair_terms (sp_terms p)"
    by (rule pool_invE [OF protocol_invD(1) [OF inv p]])
  have "(U, u) \<in> waiting s P" using U by (simp add: waiting_def)
  then obtain us' where us': "us = (U, u) # us'" using queue_head [OF us(1) _ U(4)] by blast
  have "sum_list (map (\<lambda>(U, u). unat (pull_count u)) us) = sp_pending p" "unat (pull_count u) \<le> MAX_COUNT"
    using us(1) us' by (auto simp: queue_def)
  then show ?thesis using us(2-4) us' by auto
qed

text \<open>The accounts of a settlement whose draws succeed parse.\<close>

lemma try_settle_accounts_lives:
  assumes "load_pool L P = Inr p" "load_pull L U = Inr u" "pull_pool u = info_key P" "pull_status u = STATUS_PENDING"
    "pull_index u = pool_next_settle p" "env_clock E = Inr clock" "clock_slot clock \<le> pull_deadline_slot u"
    "info_key operator = pool_operator p" "is_writable operator" "is_writable P" "is_writable U"
    "length items = unat (pull_count u)" "\<forall>I \<in> set items. is_writable I \<and> (\<exists>it. load_item L I = Inr it)"
  shows "try_settle_accounts E L (operator # P # U # items @ [event_authority, program]) =
    Inr \<lparr>st_operator = operator, st_pool = P, st_pull = U, st_items = items,
      st_event_authority = event_authority, st_program = program\<rparr>"
proof -
  have "\<exists>its. map_res (check_item L) items = Inr its"
    using assms(13) by (induction items) (auto simp: check_item_def)
  then show ?thesis using assms(1-12) by (auto simp: try_settle_accounts_def Let_def nth_append not_less)
qed

lemma settle_funded:
  assumes ok: "runtime_ok E" and cl: "closes E" and em: "emits E event_authority program"
    and so: "sound L" and P: "load_pool L P = Inr p" and U: "load_pull L U = Inr u"
    and head: "pull_pool u = info_key P" "pull_status u = STATUS_PENDING" "pull_index u = pool_next_settle p"
    and clock: "env_clock E = Inr clock" "clock_slot clock \<le> pull_deadline_slot u"
    and vrf: "env_proof_verify E data (pool_operator p) (env_sha256 E (to_le (info_key U) @ to_le (pull_client_seed u))) = Some beta"
      "length data = 80" "length beta = 64"
    and acc: "info_key operator = pool_operator p" "is_writable operator" "is_writable P" "is_writable U"
      "acct_owner (acct L operator) \<noteq> ID"
    and fund: "funded L (info_key operator) m b" "unat (pull_count u) \<le> MAX_COUNT \<Longrightarrow> m + unat (pull_count u) * b < 2 ^ 64"
  shows "\<exists>items L'. (\<forall>I \<in> set items. is_writable I \<and> \<not> is_signer I) \<and>
    settle E (operator # P # U # items @ [event_authority, program]) data L = Inr L' \<and>
    funded L' (info_key operator) (m + unat (pull_count u) * b) b \<and> acct_owner (acct L' operator) \<noteq> ID"
proof -
  let ?s = "protocol_of L" and ?p = "stock_pool_at L P" and ?t = "tags_at L P"
  let ?c = "unat (pull_inventory_version u)" and ?n = "unat (pull_count u)"
  have p: "p = pool_at L P" and u: "u = pull_at L U" using P U by (simp_all add: load_pool_Inr load_pull_Inr)
  have pok: "pool_ok L P ?t" using so P ledger_okD by (auto simp: sound_def)
  note sp = stock_pool_at_eq [OF pok]
  have inv: "protocol_inv ?s" using so by (simp add: sound_def)
  have H: "?c \<le> length ?t" "?n \<le> stock_below ?t ?c" "?n \<le> unat (pool_pending_draws p)" "?n \<le> 10"
    "custody ?s (info_key P) ?t" "fair_terms (pool_terms p)"
    using head_reserved [OF inv, of "info_key P" ?p "info_key U" u] reads(1) [OF P] reads(2) [OF U] head p
    by (simp_all add: sp)
  obtain items L1 where items: "length items = ?n" "\<forall>I \<in> set items. is_writable I \<and> \<not> is_signer I"
    "draw_items E P U operator beta 0 (prefix_words ?t ?c) items L = Inr L1"
    "funded L1 (info_key operator) (m + ?n * b) b" "acct_owner (acct L1 operator) \<noteq> ID"
    using draw_items_live [OF ok cl pok _ _ H(2,1) custody_stocked [OF H(5)] _ fund(1) fund(2) [OF H(4)] acc(5), of U 0 beta] U u H(4,6) p
    by auto
  have wf: "pool_wf p" using pool_okD(2) [OF pok] p by (simp add: pool_valid_def)
  have at: "load_pull L U = Inr (pull_at L U)" "pool_terms (pool_at L P) = pool_terms p" using U u p by simp_all
  from draw_items_Inr [OF ok pok at(1) items(3) wf at(2)] obtain ds :: "(u8 \<times> nat) list" where
    st: "stock_step L P (clear_positions ?t (map snd ds)) L1"
    and "pull_at L1 U\<lparr>pull_outcomes := []\<rparr> = pull_at L U\<lparr>pull_outcomes := []\<rparr>"
    and its: "\<forall>n < length items. \<exists>it. load_item L (items ! n) = Inr it"
    by blast
  then have same: "pull_at L1 U\<lparr>pull_outcomes := []\<rparr> = u\<lparr>pull_outcomes := []\<rparr>" using u by simp
  let ?a = "\<lparr>st_operator = operator, st_pool = P, st_pull = U, st_items = items,
      st_event_authority = event_authority, st_program = program\<rparr>"
  have "\<forall>I \<in> set items. is_writable I \<and> (\<exists>it. load_item L I = Inr it)"
    using its items(2) by (metis in_set_conv_nth)
  then have parse: "try_settle_accounts E L (operator # P # U # items @ [event_authority, program]) = Inr ?a"
    using items(1) by (intro try_settle_accounts_lives [OF P U head clock acc(1-4)]) simp_all
  obtain r where r: "index_counts (index_at L P) (pull_inventory_version u) = Inr r"
    using index.counts_law [OF pool_okD(3) [OF pok] H(1)] by blast
  then have dr: "draw E P U items operator beta L = Inr L1"
    using index_counts_prefix [OF pool_okD(3) [OF pok] H(1) r] items(3) u by (simp add: draw_def)
  have pend: "pool_pending_draws (pool_at L1 P) = pool_pending_draws p" using st p by (simp add: stock_step_def)
  have "pull_index (pull_at L1 U) = pull_index u" using arg_cong [OF same, of pull_index] by simp
  moreover have nx: "unat (pool_next_settle p + 1) = unat (pool_next_settle p) + 1"
    using head_in_queue(1) [OF inv _ U head(1,2)] P p head(3) by simp
  have "unat (pool_next_settle p + 1) < 2 ^ 64" by simp
  then have "unat (pool_next_settle p) + 1 < 2 ^ 64" unfolding nx .
  ultimately have "unat (pull_index (pull_at L1 U)) + 1 < 2 ^ 64" using head(3) by simp
  then obtain L' where "settle_process E ?a data L = Inr L'" "\<forall>k. lamports L' k = lamports L1 k \<and> acct_owner (L' k) = acct_owner (L1 k)"
    using settle_process_lives [OF ok, of ?a L p u data beta L1] items(1) H(3,4) em P U vrf dr pend kinds_distinct(1) [OF P U] by auto
  then show ?thesis using parse items vrf(2)
    by (intro exI [of _ items] exI [of _ L']) (simp add: settle_def try_settle_data_def funded_def acct_def)
qed

lemma settle_lives:
  assumes "runtime_ok E" "closes E" "emits E event_authority program" "sound L"
    and "load_pool L P = Inr p" "load_pull L U = Inr u" "pull_pool u = info_key P" "pull_status u = STATUS_PENDING"
    and "pull_index u = pool_next_settle p" "env_clock E = Inr clock" "clock_slot clock \<le> pull_deadline_slot u"
    and "env_proof_verify E data (pool_operator p) (env_sha256 E (to_le (info_key U) @ to_le (pull_client_seed u))) = Some beta"
      "length data = 80" "length beta = 64"
    and "info_key operator = pool_operator p" "is_writable operator" "is_writable P" "is_writable U"
      "acct_owner (acct L operator) \<noteq> ID"
    and rent: "\<forall>k. unat (acct_lamports (L k)) \<le> 10 ^ 18"
  shows "\<exists>items L'. (\<forall>I \<in> set items. is_writable I \<and> \<not> is_signer I) \<and> settle E (operator # P # U # items @ [event_authority, program]) data L = Inr L'"
proof -
  have "funded L (info_key operator) (10 ^ 18) (10 ^ 18)" using rent by (simp add: funded_def lamports_def)
  then show ?thesis using settle_funded [OF assms(1-19), of "10 ^ 18" "10 ^ 18"] by force
qed

text \<open>
  C3: a purchase never gets stuck. In every sound ledger, and for every output of the VRF, there are
  Item accounts with which the settlement of the pull at the head of the queue succeeds before its
  deadline: no draw of it finds the stock sold out, no counter underflows and no buffer overflows.
  The hypotheses on the runtime are that closing an account and recording an event do not fail, and
  that no account holds more than a billion SOL.
\<close>

theorem head_can_settle:
  assumes "runtime_ok E" "closes E" "emits E event_authority program" "sound L"
    and "load_pool L P = Inr p" "load_pull L U = Inr u" "pull_pool u = info_key P" "pull_status u = STATUS_PENDING"
    and "pull_index u = pool_next_settle p" "env_clock E = Inr clock" "clock_slot clock \<le> pull_deadline_slot u"
    and "env_proof_verify E data (pool_operator p) (env_sha256 E (to_le (info_key U) @ to_le (pull_client_seed u))) = Some beta"
      "length data = 80" "length beta = 64"
    and "info_key operator = pool_operator p" "is_writable operator" "is_writable P" "is_writable U"
      "acct_owner (acct L operator) \<noteq> ID"
    and "\<forall>k. unat (acct_lamports (L k)) \<le> 10 ^ 18"
  shows "\<exists>items L'. settle E (operator # P # U # items @ [event_authority, program]) data L = Inr L'"
  using settle_lives [OF assms] by blast

end
