(* ===== verification/Crank.thy ===== *)
theory Crank
  imports Progress
begin

section \<open>Settling the whole queue\<close>

text \<open>
  The operator settles one pull after the other. Every settlement takes one pull off the queue, so a
  run of settlements ends; and as long as the proofs are made in time it cannot end before the queue is
  empty.
\<close>

text \<open>A run of \<open>n\<close> successful settlements of one pool, each in an environment of its own.\<close>

inductive settlements :: "account_info \<Rightarrow> account_info \<Rightarrow> account_info \<Rightarrow> account_info \<Rightarrow> nat \<Rightarrow> ledger \<Rightarrow> ledger \<Rightarrow> bool"
  for operator P event_authority program where
  none: "settlements operator P event_authority program 0 L L"
| more: "settlements operator P event_authority program n L M \<Longrightarrow> runtime_ok E \<Longrightarrow>
    settle E (operator # P # U # items @ [event_authority, program]) data M = Inr N \<Longrightarrow>
    settlements operator P event_authority program (Suc n) L N"

inductive_cases settlements_SucE: "settlements operator P event_authority program (Suc n) L N"

subsection \<open>One settlement\<close>

text \<open>A settlement changes no other pull.\<close>

lemma settle_pulls:
  assumes ok: "runtime_ok E" and so: "sound L"
    and c: "settle E (operator # P # U # items @ [event_authority, program]) data L = Inr L'" and k: "k \<noteq> info_key U"
  shows "pr_pulls (protocol_of L') k = pr_pulls (protocol_of L) k"
proof -
  obtain a pb where a: "try_settle_accounts E L (operator # P # U # items @ [event_authority, program]) = Inr a"
    and pr: "settle_process E a pb L = Inr L'" using c by (auto simp: settle_def)
  note A = try_settle_accounts_Inr [OF a]
  have inv: "protocol_inv (protocol_of L)" and lo: "ledger_ok L" using so by (simp_all add: sound_def)
  have P: "load_pool L P = Inr (pool_at L P)" and pinned: "unat (pull_inventory_version (pull_at L U)) \<le> length (tags_at L P)"
    using A head_in_queue(2) [OF inv, of P U "pull_at L U"] by simp_all
  note S = settle_Inr [OF ok ledger_okD [OF lo P] pinned c]
  have items: "\<exists>it. load_item L I = Inr it" "data_of L' I = []" if "I \<in> set items" for I
    using S that by (fastforce simp: in_set_conv_nth)+
  show ?thesis
  proof (cases "k = info_key P \<or> k \<in> info_key ` set items")
    case True
    moreover have "pr_pulls (protocol_of L') (info_key P) = None" using S protocol_of_kinds(1) [OF pool_okD(1), of L' P] by blast
    moreover have "pr_pulls (protocol_of L) (info_key P) = None" using protocol_of_kinds(1) [OF P] by simp
    moreover have "pr_pulls (protocol_of L') (info_key I) = None \<and> pr_pulls (protocol_of L) (info_key I) = None"
      if "I \<in> set items" for I using items [OF that] protocol_of_kinds(3) reads(4) by blast
    ultimately show ?thesis by auto
  next
    case False
    then have "k \<notin> {info_key (st_pool a), info_key (st_pull a)} \<union> info_key ` set (st_items a)" using A k by auto
    then show ?thesis using keeps_protocol(2) [OF keeps_settle [OF pr ok]] by blast
  qed
qed

lemma settlement_step:
  assumes ok: "runtime_ok E" and so: "sound L"
    and c: "settle E (operator # P # U # items @ [event_authority, program]) data L = Inr L'"
  defines "p \<equiv> pool_at L P" and "u \<equiv> pull_at L U" and "p' \<equiv> pool_at L' P"
  shows "sound L'" "load_pool L' P = Inr p'" "pool_terms p' = pool_terms p" "pool_next_index p' = pool_next_index p"
    "unat (pool_next_settle p') = unat (pool_next_settle p) + 1"
    "unat (pool_pending_draws p') + unat (pull_count u) = unat (pool_pending_draws p)"
    "load_pull L U = Inr u" "pull_pool u = info_key P" "pull_status u = STATUS_PENDING"
    "\<exists>u'. load_pull L' U = Inr u' \<and> u'\<lparr>pull_outcomes := []\<rparr> = u\<lparr>pull_status := STATUS_SETTLED, pull_outcomes := []\<rparr>"
proof -
  obtain a where a: "try_settle_accounts E L (operator # P # U # items @ [event_authority, program]) = Inr a"
    using c by (auto simp: settle_def)
  note A = try_settle_accounts_Inr [OF a]
  have inv: "protocol_inv (protocol_of L)" and lo: "ledger_ok L" using so by (simp_all add: sound_def)
  have P: "load_pool L P = Inr (pool_at L P)" and H: "unat (pull_inventory_version (pull_at L U)) \<le> length (tags_at L P)"
    "unat (pool_next_settle (pool_at L P) + 1) = unat (pool_next_settle (pool_at L P)) + 1"
    using A head_in_queue [OF inv, of P U "pull_at L U"] by simp_all
  note S = settle_Inr [OF ok ledger_okD [OF lo P] H(1) c]
  show "sound L'" using sim_settle [OF ok lo inv c] protocol_inv_step inv by (auto simp: sound_def)
  show "load_pool L' P = Inr p'" using S pool_okD(1) unfolding p'_def by blast
  show "pool_terms p' = pool_terms p" "pool_next_index p' = pool_next_index p" using S unfolding p_def p'_def by blast+
  show "unat (pool_next_settle p') = unat (pool_next_settle p) + 1" using S H(2) unfolding p_def p'_def by auto
  show "unat (pool_pending_draws p') + unat (pull_count u) = unat (pool_pending_draws p)"
    using S unfolding p_def p'_def u_def by auto
  show "load_pull L U = Inr u" "pull_pool u = info_key P" "pull_status u = STATUS_PENDING" using A by (simp_all add: u_def)
  show "\<exists>u'. load_pull L' U = Inr u' \<and> u'\<lparr>pull_outcomes := []\<rparr> = u\<lparr>pull_status := STATUS_SETTLED, pull_outcomes := []\<rparr>"
    using S unfolding u_def by blast
qed

subsection \<open>A run of settlements\<close>

text \<open>What a run of \<open>n\<close> settlements has done to a pull: nothing, or recorded its awards.\<close>

definition worked_off :: "pubkey \<Rightarrow> pull option \<Rightarrow> pull option \<Rightarrow> bool" where
  "worked_off P x y \<longleftrightarrow> x = y \<or> (\<exists>u u'. x = Some u \<and> pull_pool u = P \<and> pull_status u = STATUS_PENDING \<and>
     y = Some u' \<and> u'\<lparr>pull_outcomes := []\<rparr> = u\<lparr>pull_status := STATUS_SETTLED, pull_outcomes := []\<rparr>)"

definition cranked :: "account_info \<Rightarrow> nat \<Rightarrow> ledger \<Rightarrow> ledger \<Rightarrow> bool" where
  "cranked P n L M \<longleftrightarrow> sound M \<and> load_pool M P = Inr (pool_at M P) \<and>
     pool_terms (pool_at M P) = pool_terms (pool_at L P) \<and> pool_next_index (pool_at M P) = pool_next_index (pool_at L P) \<and>
     unat (pool_next_settle (pool_at M P)) = unat (pool_next_settle (pool_at L P)) + n \<and>
     unat (pool_pending_draws (pool_at M P)) \<le> unat (pool_pending_draws (pool_at L P)) \<and>
     (\<forall>k. worked_off (info_key P) (pr_pulls (protocol_of L) k) (pr_pulls (protocol_of M) k))"

lemma settled_not_pending:
  "u'\<lparr>pull_outcomes := []\<rparr> = u\<lparr>pull_status := STATUS_SETTLED, pull_outcomes := []\<rparr> \<Longrightarrow> pull_status u' = STATUS_SETTLED"
  by (drule arg_cong [where f = pull_status]) simp

lemma worked_off_pending: "worked_off P x (Some u) \<Longrightarrow> pull_status u = STATUS_PENDING \<Longrightarrow> x = Some u"
  by (auto simp: worked_off_def dest: settled_not_pending)

lemma cranked_step:
  assumes M: "cranked P n L M" and ok: "runtime_ok E"
    and c: "settle E (operator # P # U # items @ [event_authority, program]) data M = Inr N"
  shows "cranked P (Suc n) L N"
proof -
  have so: "sound M" using M by (simp add: cranked_def)
  note S = settlement_step [OF ok so c]
  obtain u' where u': "load_pull N U = Inr u'"
    "u'\<lparr>pull_outcomes := []\<rparr> = (pull_at M U)\<lparr>pull_status := STATUS_SETTLED, pull_outcomes := []\<rparr>" using S(10) by blast
  have "worked_off (info_key P) (pr_pulls (protocol_of L) k) (pr_pulls (protocol_of N) k)" for k
  proof (cases "k = info_key U")
    case True
    have "worked_off (info_key P) (pr_pulls (protocol_of L) k) (Some (pull_at M U))"
      using M reads(2) [OF S(7)] True by (metis cranked_def)
    then have "pr_pulls (protocol_of L) k = Some (pull_at M U)" using S(9) by (rule worked_off_pending)
    then show ?thesis using S(8,9) u' reads(2) [OF u'(1)] True by (simp add: worked_off_def)
  next
    case False
    then show ?thesis using M settle_pulls [OF ok so c False] by (simp add: cranked_def)
  qed
  then show ?thesis using M S(1-6) by (simp add: cranked_def)
qed

lemma settlements_cranked:
  assumes "settlements operator P event_authority program n L M" "sound L" "load_pool L P = Inr (pool_at L P)"
  shows "cranked P n L M"
  using assms
proof (induction rule: settlements.induct)
  case (none L)
  then show ?case by (simp add: cranked_def worked_off_def)
next
  case (more n L M E U items data N)
  then show ?case using cranked_step by blast
qed

text \<open>The queue bounds the run: it ends.\<close>

lemma cranked_queue:
  assumes "cranked P n L M"
  obtains us where "queue (protocol_of M) (info_key P) (stock_pool_at M P) us"
    "unat (pool_next_settle (pool_at L P)) + n + length us = unat (pool_next_index (pool_at L P))"
proof -
  have P: "load_pool M P = Inr (pool_at M P)" and so: "sound M" using assms by (simp_all add: cranked_def)
  have pok: "pool_ok M P (tags_at M P)" using so P ledger_okD by (auto simp: sound_def)
  obtain us where us: "queue (protocol_of M) (info_key P) (stock_pool_at M P) us"
    by (rule pool_invE [OF protocol_invD(1)]) (use so reads(1) [OF P] in \<open>auto simp: sound_def\<close>)
  then have "map (\<lambda>(U, u). unat (pull_index u)) us = [unat (pool_next_settle (pool_at M P)) ..< unat (pool_next_index (pool_at M P))]"
    and le: "unat (pool_next_settle (pool_at M P)) \<le> unat (pool_next_index (pool_at M P))"
    by (simp_all add: queue_def stock_pool_at_eq [OF pok])
  then have "length us = unat (pool_next_index (pool_at M P)) - unat (pool_next_settle (pool_at M P))"
    by (metis length_map length_upt)
  then show thesis using that us le assms by (simp add: cranked_def)
qed

lemma cranked_ends:
  assumes "cranked P n L M"
  shows "n \<le> unat (pool_next_index (pool_at L P)) - unat (pool_next_settle (pool_at L P))"
  by (rule cranked_queue [OF assms]) linarith

lemma cranked_to_the_end:
  assumes M: "cranked P n L M" and n: "unat (pool_next_settle (pool_at L P)) + n = unat (pool_next_index (pool_at L P))"
  shows "unat (pool_pending_draws (pool_at M P)) = 0"
    and "pr_pulls (protocol_of L) k = Some u \<Longrightarrow> pull_pool u = info_key P \<Longrightarrow> pull_status u = STATUS_PENDING \<Longrightarrow>
      \<exists>u'. pr_pulls (protocol_of M) k = Some u' \<and> u'\<lparr>pull_outcomes := []\<rparr> = u\<lparr>pull_status := STATUS_SETTLED, pull_outcomes := []\<rparr>"
proof -
  obtain us where us: "queue (protocol_of M) (info_key P) (stock_pool_at M P) us"
    and len: "unat (pool_next_settle (pool_at L P)) + n + length us = unat (pool_next_index (pool_at L P))"
    by (rule cranked_queue [OF M])
  then have q: "queue (protocol_of M) (info_key P) (stock_pool_at M P) []" using n by simp
  have "pool_ok M P (tags_at M P)" using M ledger_okD by (auto simp: sound_def cranked_def)
  then show "unat (pool_pending_draws (pool_at M P)) = 0" using q by (simp add: queue_def stock_pool_at_eq)
  assume u: "pr_pulls (protocol_of L) k = Some u" "pull_pool u = info_key P" "pull_status u = STATUS_PENDING"
  then have "pr_pulls (protocol_of M) k \<noteq> Some u" using q by (auto simp: queue_def waiting_def)
  moreover have "worked_off (info_key P) (Some u) (pr_pulls (protocol_of M) k)" using M u(1) by (metis cranked_def)
  ultimately show "\<exists>u'. pr_pulls (protocol_of M) k = Some u' \<and> u'\<lparr>pull_outcomes := []\<rparr> = u\<lparr>pull_status := STATUS_SETTLED, pull_outcomes := []\<rparr>"
    by (auto simp: worked_off_def)
qed

subsection \<open>The run reaches the end of the queue\<close>

text \<open>
  The environment in which the operator can settle a pull: a clock within its deadline and a proof that
  verifies for the pull's own input.
\<close>

definition provable :: "account_info \<Rightarrow> account_info \<Rightarrow> pubkey \<Rightarrow> pubkey \<Rightarrow> pull \<Rightarrow> bool" where
  "provable event_authority program operator_key k u \<longleftrightarrow> (\<exists>E data beta clock.
     runtime_ok E \<and> closes E \<and> emits E event_authority program \<and>
     env_clock E = Inr clock \<and> clock_slot clock \<le> pull_deadline_slot u \<and>
     env_proof_verify E data operator_key (env_sha256 E (to_le k @ to_le (pull_client_seed u))) = Some beta \<and>
     length data = 80 \<and> length beta = 64)"

text \<open>Every pull that waits for the pool can be settled by its operator.\<close>

definition all_provable :: "account_info \<Rightarrow> account_info \<Rightarrow> account_info \<Rightarrow> ledger \<Rightarrow> bool" where
  "all_provable event_authority program P L \<longleftrightarrow> (\<forall>U u. load_pull L U = Inr u \<and> pull_pool u = info_key P \<and>
     pull_status u = STATUS_PENDING \<longrightarrow> provable event_authority program (pool_operator (pool_at L P)) (info_key U) u)"

lemma operator_kept: "pool_terms p = pool_terms q \<Longrightarrow> pool_operator p = pool_operator q"
  by (drule arg_cong [where f = pool_operator]) (simp add: pool_terms_def)

text \<open>While a pull waits, the run can go on.\<close>

lemma crank_goes_on:
  assumes M: "cranked P n L M" and left: "unat (pool_next_settle (pool_at L P)) + n < unat (pool_next_index (pool_at L P))"
    and pr: "all_provable event_authority program P L"
    and acc: "info_key operator = pool_operator (pool_at L P)" "is_writable operator" "is_writable P" "acct_owner (acct M operator) \<noteq> ID"
    and fund: "funded M (info_key operator) m b" "m + unat (pool_pending_draws (pool_at M P)) * b < 2 ^ 64"
  obtains E U items data N where "runtime_ok E" "settle E (operator # P # U # items @ [event_authority, program]) data M = Inr N"
    "funded N (info_key operator) (m + unat (pull_count (pull_at M U)) * b) b" "acct_owner (acct N operator) \<noteq> ID"
proof -
  have so: "sound M" and P: "load_pool M P = Inr (pool_at M P)" and terms: "pool_terms (pool_at M P) = pool_terms (pool_at L P)"
    and nx: "unat (pool_next_settle (pool_at M P)) = unat (pool_next_settle (pool_at L P)) + n"
    using M by (simp_all add: cranked_def)
  obtain us where us: "queue (protocol_of M) (info_key P) (stock_pool_at M P) us"
    and len: "unat (pool_next_settle (pool_at L P)) + n + length us = unat (pool_next_index (pool_at L P))"
    by (rule cranked_queue [OF M])
  obtain k u us' where head: "us = (k, u) # us'" using len left by (cases us) auto
  have pok: "pool_ok M P (tags_at M P)" using so P ledger_okD by (auto simp: sound_def)
  have w: "pr_pulls (protocol_of M) k = Some u" "pull_pool u = info_key P" "pull_status u = STATUS_PENDING"
    using us head by (auto simp: queue_def waiting_def)
  have le: "unat (pull_count u) \<le> unat (pool_pending_draws (pool_at M P))"
    using us by (auto simp: queue_def head stock_pool_at_eq [OF pok])
  have "[sp_next_settle (stock_pool_at M P) ..< sp_next_index (stock_pool_at M P)] =
      unat (pull_index u) # map (\<lambda>(U, u). unat (pull_index u)) us'" using us by (simp add: queue_def head)
  then have "unat (pull_index u) = sp_next_settle (stock_pool_at M P)" by (simp add: upt_eq_Cons_conv)
  then have ix: "pull_index u = pool_next_settle (pool_at M P)" by (simp add: stock_pool_at_eq [OF pok] word_unat_eq_iff)
  let ?U = "\<lparr>info_key = k, is_signer = False, is_writable = True\<rparr>"
  have U: "load_pull M ?U = Inr u" using w(1) protocol_of_loaded(1) [of M ?U, symmetric] by simp
  have "worked_off (info_key P) (pr_pulls (protocol_of L) k) (Some u)" using M w(1) by (metis cranked_def)
  then have "load_pull L ?U = Inr u" using worked_off_pending w(3) protocol_of_loaded(1) [of L ?U] by fastforce
  then have "provable event_authority program (pool_operator (pool_at M P)) k u"
    using pr w(2,3) operator_kept [OF terms] by (fastforce simp: all_provable_def)
  then obtain E data beta clock where E: "runtime_ok E" "closes E" "emits E event_authority program"
    and clock: "env_clock E = Inr clock" "clock_slot clock \<le> pull_deadline_slot u"
    and vrf: "env_proof_verify E data (pool_operator (pool_at M P)) (env_sha256 E (to_le (info_key ?U) @ to_le (pull_client_seed u))) = Some beta"
      "length data = 80" "length beta = 64"
    by (auto simp: provable_def)
  have "m + unat (pull_count u) * b < 2 ^ 64" using mult_le_mono1 [OF le, of b] fund(2) by linarith
  moreover have "info_key operator = pool_operator (pool_at M P)" using acc(1) operator_kept [OF terms] by simp
  moreover have "u = pull_at M ?U" using U by (simp add: load_pull_Inr)
  ultimately show thesis
    using settle_funded [OF E so P U w(2,3) ix clock vrf _ acc(2,3) _ acc(4) fund(1)] that [OF E(1)] by force
qed

lemma crank_lives:
  assumes so: "sound L" and P: "load_pool L P = Inr (pool_at L P)" and pr: "all_provable event_authority program P L"
    and acc: "info_key operator = pool_operator (pool_at L P)" "is_writable operator" "is_writable P" "acct_owner (acct L operator) \<noteq> ID"
    and fund: "funded L (info_key operator) m b" "m + unat (pool_pending_draws (pool_at L P)) * b < 2 ^ 64"
  shows "unat (pool_next_settle (pool_at L P)) + n \<le> unat (pool_next_index (pool_at L P)) \<Longrightarrow>
    \<exists>M. settlements operator P event_authority program n L M \<and> acct_owner (acct M operator) \<noteq> ID \<and>
      funded M (info_key operator) (m + (unat (pool_pending_draws (pool_at L P)) - unat (pool_pending_draws (pool_at M P))) * b) b"
proof (induction n)
  case 0
  then show ?case using settlements.none acc(4) fund(1) by (intro exI [of _ L]) simp
next
  case (Suc n)
  then obtain M where M: "settlements operator P event_authority program n L M" and own: "acct_owner (acct M operator) \<noteq> ID"
    and funds: "funded M (info_key operator) (m + (unat (pool_pending_draws (pool_at L P)) - unat (pool_pending_draws (pool_at M P))) * b) b"
    by auto
  note C = settlements_cranked [OF M so P]
  let ?l = "unat (pool_pending_draws (pool_at L P))" and ?m = "unat (pool_pending_draws (pool_at M P))"
  have le: "?m \<le> ?l" and soM: "sound M" using C by (simp_all add: cranked_def)
  have "(?l - ?m) * b + ?m * b = ?l * b" using le by (metis add_mult_distrib le_add_diff_inverse2)
  then have small: "m + (?l - ?m) * b + ?m * b < 2 ^ 64" using fund(2) by simp
  have left: "unat (pool_next_settle (pool_at L P)) + n < unat (pool_next_index (pool_at L P))" using Suc.prems by simp
  obtain E U items data N where ok: "runtime_ok E"
    and s: "settle E (operator # P # U # items @ [event_authority, program]) data M = Inr N"
    and N: "funded N (info_key operator) (m + (?l - ?m) * b + unat (pull_count (pull_at M U)) * b) b" "acct_owner (acct N operator) \<noteq> ID"
    by (rule crank_goes_on [OF C left pr acc(1-3) own funds small])
  have "unat (pool_pending_draws (pool_at N P)) + unat (pull_count (pull_at M U)) = ?m" by (rule settlement_step(6) [OF ok soM s])
  then have "?l - unat (pool_pending_draws (pool_at N P)) = ?l - ?m + unat (pull_count (pull_at M U))" using le by linarith
  then show ?case using settlements.more [OF M ok s] N by (intro exI [of _ N]) (simp add: add_mult_distrib add.assoc)
qed

text \<open>
  C4: the crank terminates, with the queue empty. Let every waiting pull of a pool have a clock within
  its deadline and a verifying proof, and let the rent of the closed accounts fit the operator's balance.
  Then a run of \<open>n\<close> successful settlements exists exactly when at most as many pulls are waiting:
  no run is longer than the queue, none gets stuck before its end. And a run over the whole queue, however it
  was made, leaves no pending draw and every pull that was waiting settled.
\<close>

theorem crank_empties_queue:
  assumes "sound L" "load_pool L P = Inr p" "all_provable event_authority program P L"
    and "info_key operator = pool_operator p" "is_writable operator" "is_writable P" "acct_owner (acct L operator) \<noteq> ID"
    and "funded L (info_key operator) m b" "m + unat (pool_pending_draws p) * b < 2 ^ 64"
  shows "((\<exists>M. settlements operator P event_authority program n L M) \<longleftrightarrow> n \<le> unat (pool_next_index p - pool_next_settle p)) \<and>
    (\<forall>M. settlements operator P event_authority program (unat (pool_next_index p - pool_next_settle p)) L M \<longrightarrow>
      unat (pool_pending_draws (pool_at M P)) = 0 \<and>
      (\<forall>U u. load_pull L U = Inr u \<and> pull_pool u = info_key P \<and> pull_status u = STATUS_PENDING \<longrightarrow>
        (\<exists>u'. load_pull M U = Inr u' \<and> u'\<lparr>pull_outcomes := []\<rparr> = u\<lparr>pull_status := STATUS_SETTLED, pull_outcomes := []\<rparr>)))"
proof -
  have p: "p = pool_at L P" using assms(2) by (simp add: load_pool_Inr)
  note P = assms(2) [unfolded p]
  let ?a = "unat (pool_next_settle (pool_at L P))" and ?b = "unat (pool_next_index (pool_at L P))"
  note run = settlements_cranked [OF _ assms(1) P]
  have le: "?a \<le> ?b" by (rule cranked_queue [OF run [OF settlements.none]]) linarith
  then have k: "unat (pool_next_index p - pool_next_settle p) = ?b - ?a" by (simp add: p unat_sub word_le_nat_alt)
  have "n \<le> ?b - ?a" if "settlements operator P event_authority program n L M" for M
    using cranked_ends [OF run [OF that]] .
  moreover have "\<exists>M. settlements operator P event_authority program n L M" if "n \<le> ?b - ?a"
  proof -
    have "?a + n \<le> ?b" using that le by simp
    then show ?thesis using crank_lives [OF assms(1) P assms(3), of operator m b n] assms(4-9) by (auto simp: p)
  qed
  moreover have "unat (pool_pending_draws (pool_at M P)) = 0 \<and>
      (\<forall>U u. load_pull L U = Inr u \<and> pull_pool u = info_key P \<and> pull_status u = STATUS_PENDING \<longrightarrow>
        (\<exists>u'. load_pull M U = Inr u' \<and> u'\<lparr>pull_outcomes := []\<rparr> = u\<lparr>pull_status := STATUS_SETTLED, pull_outcomes := []\<rparr>))"
    if s: "settlements operator P event_authority program (?b - ?a) L M" for M
  proof -
    have "?a + (?b - ?a) = ?b" using le by simp
    note E = cranked_to_the_end [OF run [OF s] this]
    have "\<exists>u'. load_pull M U = Inr u' \<and> u'\<lparr>pull_outcomes := []\<rparr> = u\<lparr>pull_status := STATUS_SETTLED, pull_outcomes := []\<rparr>"
      if "load_pull L U = Inr u" "pull_pool u = info_key P" "pull_status u = STATUS_PENDING" for U u
      using E(2) [of "info_key U" u] that reads(2) [OF that(1)] protocol_of_loaded(1) [of M U] by auto
    with E(1) show ?thesis by blast
  qed
  ultimately show ?thesis unfolding k by blast
qed

end
