(* ===== verification/Refund_Progress.thy ===== *)
theory Refund_Progress
  imports Progress
begin

section \<open>The head of the queue can be refunded\<close>

text \<open>
  When the operator lets a deadline pass, the buyer gets the money back: on every sound ledger with a
  solvent vault the refund of the head of the queue succeeds. The token program and the runtime are
  parameters; what the refund relies on is named here.
\<close>

text \<open>An open token account that is not frozen and does not wrap lamports (the SPL account layout).\<close>

definition token_account :: "env \<Rightarrow> ledger \<Rightarrow> account_info \<Rightarrow> pubkey \<Rightarrow> pubkey \<Rightarrow> bool" where
  "token_account E L a mint owner \<longleftrightarrow> acct_owner (acct L a) = env_token_id E \<and> length (data_of L a) = 165 \<and>
     from_le (slice 0 32 (data_of L a)) = mint \<and> from_le (slice 32 32 (data_of L a)) = owner \<and>
     data_of L a ! 108 = 1 \<and> slice 109 4 (data_of L a) = replicate 4 0"

text \<open>
  A transfer out of a token account of a program address, signed with the seeds of that address,
  succeeds when the amount is there and fits the destination. It moves no lamports.
\<close>

definition pays :: "env \<Rightarrow> bool" where
  "pays E \<longleftrightarrow> (\<forall>L src dst authority amount seeds mint owner.
     token_account E L src mint (info_key authority) \<longrightarrow> token_account E L dst mint owner \<longrightarrow>
     is_writable src \<longrightarrow> is_writable dst \<longrightarrow> info_key src \<noteq> info_key dst \<longrightarrow>
     env_create_program_address E seeds ID = Some (info_key authority) \<longrightarrow>
     unat amount \<le> unat (balance L src) \<longrightarrow> unat (balance L dst) + unat amount < 2 ^ 64 \<longrightarrow>
     (\<exists>L'. env_invoke E (TokenTransfer src dst authority amount) [seeds] L = Inr L' \<and>
        (\<forall>k. acct_lamports (L' k) = acct_lamports (L k))))"

lemma paysD:
  assumes "pays E" "token_account E L src mint (info_key authority)" "token_account E L dst mint owner"
    "is_writable src" "is_writable dst" "info_key src \<noteq> info_key dst"
    "env_create_program_address E seeds ID = Some (info_key authority)"
    "unat amount \<le> unat (balance L src)" "unat (balance L dst) + unat amount < 2 ^ 64"
  shows "\<exists>L'. env_invoke E (TokenTransfer src dst authority amount) [seeds] L = Inr L' \<and>
    (\<forall>k. acct_lamports (L' k) = acct_lamports (L k))"
  using assms unfolding pays_def by blast

text \<open>Writing the pool leaves the token accounts.\<close>

lemma token_account_put_pool:
  assumes ok: "runtime_ok E" and P: "acct_owner (acct L P) = ID" and t: "token_account E L a mint owner"
  shows "token_account E (put_pool P p L) a mint owner" "balance (put_pool P p L) a = balance L a"
proof -
  have "info_key a \<noteq> info_key P" using P t runtime_okD(3) [OF ok] by (auto simp: token_account_def acct_def)
  then have s: "same_at (info_key a) L (put_pool P p L)" by (rule put_frame(1))
  show "balance (put_pool P p L) a = balance L a" by (rule same_at_views(8) [OF s])
  show "token_account E (put_pool P p L) a mint owner"
    using t same_at_data [OF s] s by (simp add: token_account_def same_at_def acct_def)
qed

text \<open>What the invariant promises for the refund of the head: nothing under- or overflows.\<close>

lemma head_refundable:
  assumes so: "sound L" and P: "load_pool L P = Inr p" and U: "load_pull L U = Inr u"
    and head: "pull_pool u = info_key P" "pull_status u = STATUS_PENDING" "pull_index u = pool_next_settle p"
  obtains amount pending where "refund_amount p (ucast (pull_count u)) = Inr amount" "unat amount = due p (unat (pull_count u))"
    "sub_ov (pool_pending_draws p) (ucast (pull_count u)) = Inr pending"
    "add_ov (pull_index u) 1 = Inr (pull_index u + 1)" "unat (pull_count u) \<le> unat (pool_pending_draws p)"
    "pool_ok L P (tags_at L P)"
proof -
  have p: "p = pool_at L P" using P by (simp add: load_pool_Inr)
  have pok: "pool_ok L P (tags_at L P)" using so P ledger_okD by (auto simp: sound_def)
  note sp = stock_pool_at_eq [OF pok]
  have inv: "protocol_inv (protocol_of L)" using so by (simp add: sound_def)
  have H: "unat (pull_count u) \<le> unat (pool_pending_draws p)" "unat (pull_count u) \<le> MAX_COUNT" "fair_terms (pool_terms p)"
    using head_reserved [OF inv, of "info_key P" "stock_pool_at L P" "info_key U" u] reads(1) [OF P] reads(2) [OF U] head p
    by (simp_all add: sp)
  have cnt: "unat (ucast (pull_count u) :: u64) = unat (pull_count u)" by (simp add: unat_ucast_widen)
  have "(unat (pool_price p) + unat (pool_bond_per_draw p)) * MAX_COUNT < 2 ^ 64"
    using H(3) by (simp add: fair_terms_def pool_terms_def)
  then obtain amount where am: "refund_amount p (ucast (pull_count u)) = Inr amount"
    using refund_amount_ex [of p MAX_COUNT "ucast (pull_count u)"] H(2) cnt by auto
  then have due: "unat amount = due p (unat (pull_count u))" using refund_amount_due cnt by metis
  have sub: "sub_ov (pool_pending_draws p) (ucast (pull_count u)) = Inr (pool_pending_draws p - ucast (pull_count u))"
    using H(1) cnt by (simp add: sub_ov_def word_le_nat_alt)
  have "unat (pool_next_settle p + 1) = unat (pool_next_settle p) + 1"
    using head_in_queue(1) [OF inv _ U head(1,2)] P p head(3) by simp
  then have "unat (pool_next_settle p) + 1 < 2 ^ 64" using unat_u64_bound [of "pool_next_settle p + 1"] by simp
  then have "add_ov (pull_index u) 1 = Inr (pull_index u + 1)" using head(3) by (simp add: add_ov_def)
  then show thesis using that [OF am due sub] H(1) pok by blast
qed

text \<open>
  C30: money does not get stuck. In every sound ledger, once the deadline of the pull at the head of the
  queue has passed, its refund succeeds, whoever sends it: no counter underflows, the amount does not
  overflow, the solvent vault holds it and the buyer's token account receives exactly price plus bond of
  every draw. The hypotheses on the runtime are that signed token transfers, closing an account and
  recording an event do not fail, and that no account holds more than a billion SOL.
\<close>

theorem head_can_be_refunded:
  assumes ok: "runtime_ok E" and cl: "closes E" and em: "emits E event_authority program" and pays: "pays E"
    and so: "sound L" and P: "load_pool L P = Inr p" and U: "load_pull L U = Inr u"
    and head: "pull_pool u = info_key P" "pull_status u = STATUS_PENDING" "pull_index u = pool_next_settle p"
    and late: "env_clock E = Inr clock" "pull_deadline_slot u < clock_slot clock"
    and acc: "info_key buyer = pull_buyer u" "acct_owner (acct L buyer) \<noteq> ID" "info_key V = pool_vault p"
      "info_key V \<noteq> info_key buyer_ata"
    and writable: "is_writable P" "is_writable U" "is_writable buyer" "is_writable V" "is_writable buyer_ata"
    and tokens: "token_account E L V mint (info_key P)" "token_account E L buyer_ata mint (pull_buyer u)"
    and pda: "env_create_program_address E (pool_signer_seeds p) ID = Some (info_key P)"
    and vault: "solvent L P V" and fits: "unat (balance L buyer_ata) + due p (unat (pull_count u)) < 2 ^ 64"
    and rent: "\<forall>k. unat (acct_lamports (L k)) \<le> 10 ^ 18"
  shows "\<exists>L'. refund E [P, U, buyer, V, buyer_ata, token_program, event_authority, program] L = Inr L' \<and>
    unat (balance L' buyer_ata) = unat (balance L buyer_ata) + due p (unat (pull_count u))"
proof -
  obtain amount pending where am: "refund_amount p (ucast (pull_count u)) = Inr amount" "unat amount = due p (unat (pull_count u))"
    and pe: "sub_ov (pool_pending_draws p) (ucast (pull_count u)) = Inr pending"
    and ns: "add_ov (pull_index u) 1 = Inr (pull_index u + 1)"
    and le: "unat (pull_count u) \<le> unat (pool_pending_draws p)" and pok: "pool_ok L P (tags_at L P)"
    by (rule head_refundable [OF so P U head])
  note PD = pool_okD [OF pok] and put = token_account_put_pool [OF ok pool_okD(5) [OF pok]]
  have p: "p = pool_at L P" using P by (simp add: load_pool_Inr)
  have "due p (unat (pull_count u)) \<le> due p (unat (pool_pending_draws p))" using le by (simp add: due_def)
  then have enough: "unat amount \<le> unat (balance L V)" using vault am(2) by (simp add: solvent_def p)
  let ?p' = "p\<lparr>pool_pending_draws := pending, pool_next_settle := pull_index u + 1\<rparr>"
  let ?L1 = "put_pool P ?p' L"
  have "pool_at ?L1 P = ?p'" using pool_ok_put [OF pok, of ?p'] PD(10) by (simp add: p)
  then have seeds: "pool_signer_seeds (pool_at ?L1 P) = pool_signer_seeds p" by (simp add: pool_signer_seeds_def)
  have "unat amount \<le> unat (balance ?L1 V)" "unat (balance ?L1 buyer_ata) + unat amount < 2 ^ 64"
    using enough fits am(2) by (simp_all add: put(2) [OF tokens(1)] put(2) [OF tokens(2)])
  from paysD [OF pays put(1) [OF tokens(1)] put(1) [OF tokens(2)] writable(4,5) acc(4) pda this]
  obtain L2 where L2: "env_invoke E (TokenTransfer V buyer_ata P amount) [pool_signer_seeds p] ?L1 = Inr L2"
    and lam: "acct_lamports (L2 k) = acct_lamports (?L1 k)" for k by blast
  have "info_key U \<noteq> info_key buyer" using acc(2) U by (auto simp: load_pull_Inr acct_def)
  moreover have "funded L2 (info_key buyer) (10 ^ 18) (10 ^ 18)" using rent lam by (simp add: funded_def lamports_def)
  ultimately obtain L3 where L3: "close E U buyer L2 = Inr L3" using close_lives [OF cl, of L2 buyer "10 ^ 18" "10 ^ 18" U] by auto
  obtain L' where L': "emit E (RefundEvent (info_key P) (info_key U) amount) event_authority program L3 = Inr L'"
    using em unfolding emits_def by force
  have "refund E [P, U, buyer, V, buyer_ata, token_program, event_authority, program] L = Inr L'"
    using P U head late acc(1,3) writable(1-3) tokens(2) am(1) pe ns seeds L2 L3 L'
    by (simp add: refund_def try_refund_accounts_def refund_process_def Let_def load_token_def token_account_def not_le)
  then show ?thesis using refund_Inr [OF ok pok, of U buyer V buyer_ata token_program event_authority program L'] acc(4) U p
    by (auto simp: load_pull_Inr)
qed

end
