(* ===== verification/Fairness.thy ===== *)
theory Fairness
  imports System
begin

section \<open>The outcome of the next settlement is fixed\<close>

text \<open>
  Once a purchase is the head of its queue, what it will be awarded for a given VRF output does not
  depend on anything that happens before its settlement: deposits and buybacks add positions behind its
  pinned prefix, a reclaim needs an empty queue, and no other pull of the pool can be settled.
\<close>

subsection \<open>The reference draw sees the prefix only\<close>

lemma reference_draws_prefix:
  assumes terms: "pool_terms p' = pool_terms p" and v: "pool_valid p" "pool_valid p'" and sha: "env_sha256 E' = env_sha256 E"
  shows "take c tags' = take c tags \<Longrightarrow> length tags < 2 ^ 32 \<Longrightarrow>
    reference_draws E' p' beta c tags' i n = reference_draws E p beta c tags i n"
proof (induction n arbitrary: tags tags' i)
  case (Suc n)
  let ?hash = "env_sha256 E (beta @ [word_of_nat i])" and ?cs = "prefix_words tags c"
  have cs: "prefix_words tags' c = ?cs" using Suc.prems(1) by (simp add: prefix_words_def prefix_count_def)
  have draw: "pool_draw p' ?hash ?cs = pool_draw p ?hash ?cs"
    using pool_draw_terms [OF terms] v by (simp add: pool_valid_def)
  show ?case
  proof (cases "pool_draw p ?hash ?cs")
    case (Inl e)
    then show ?thesis by (simp add: sha cs draw)
  next
    case (Inr d)
    obtain tier rank where d: "d = (tier, rank)" by (cases d)
    then have "unat tier < 8" "unat rank < unat (?cs ! unat tier)"
      using Inr pool_draw_cases [OF v(1), of ?cs ?hash] v(1) by (auto simp: pool_valid_def split: if_splits)
    then have "unat rank < prefix_count tags (unat tier) c" using prefix_words_nth Suc.prems(2) by simp
    then have pos: "available tags' (unat tier) ! unat rank = available tags (unat tier) ! unat rank"
      using index.available_prefix [OF _ Suc.prems(1) [symmetric]] by simp
    have "reference_draws E' p' beta c (tags'[q := 0]) (Suc i) n = reference_draws E p beta c (tags[q := 0]) (Suc i) n" for q
      using Suc.prems by (intro Suc.IH) (simp_all add: take_update_swap)
    then show ?thesis by (simp add: sha cs draw Inr d pos)
  qed
qed simp

subsection \<open>What a step keeps for the head of the queue\<close>

text \<open>The pool keeps its terms, its place in the queue, the first \<open>v\<close> positions and its Items.\<close>

definition holds_still :: "protocol \<Rightarrow> protocol \<Rightarrow> pubkey \<Rightarrow> nat \<Rightarrow> bool" where
  "holds_still s s' P v \<longleftrightarrow> (\<exists>p p'. pr_pools s P = Some p \<and> pr_pools s' P = Some p' \<and> sp_terms p' = sp_terms p \<and>
     sp_next_settle p' = sp_next_settle p \<and> take v (sp_tags p') = take v (sp_tags p) \<and>
     (\<forall>I i. pr_items s I = Some i \<longrightarrow> item_pool i = P \<longrightarrow> pr_items s' I = Some i))"

lemma holds_still_refl: "pr_pools s P = Some p \<Longrightarrow> holds_still s s P v"
  by (simp add: holds_still_def)

lemma holds_still_trans: "holds_still s t P v \<Longrightarrow> holds_still t w P v \<Longrightarrow> holds_still s w P v"
  unfolding holds_still_def by fastforce

text \<open>The head of a queue is one pull, and it has draws that are pending.\<close>

lemma head_unique:
  assumes "protocol_inv s" "pr_pools s P = Some p"
    and "pr_pulls s U = Some u" "pull_pool u = P" "pull_status u = STATUS_PENDING" "unat (pull_index u) = sp_next_settle p"
    and "pr_pulls s V = Some v" "pull_pool v = P" "pull_status v = STATUS_PENDING" "unat (pull_index v) = sp_next_settle p"
  shows "V = U"
proof -
  obtain us where q: "queue s P p us" by (rule pool_invE [OF protocol_invD(1) [OF assms(1,2)]])
  have "(U, u) \<in> waiting s P" "(V, v) \<in> waiting s P" using assms by (simp_all add: waiting_def)
  from queue_head [OF q this(1) assms(6)] queue_head [OF q this(2) assms(10)] show ?thesis by auto
qed

lemma waiting_pending:
  assumes "protocol_inv s" "pr_pools s P = Some p" "pr_pulls s U = Some u" "pull_pool u = P" "pull_status u = STATUS_PENDING"
  shows "0 < sp_pending p" "unat (pull_inventory_version u) \<le> length (sp_tags p)"
proof -
  obtain us where q: "queue s P p us" and r: "reserved (sp_tags p) 0 0 us"
    by (rule pool_invE [OF protocol_invD(1) [OF assms(1,2)]])
  have U: "(U, u) \<in> set us" using q assms(3-5) by (simp add: queue_def waiting_def)
  then have "0 < unat (pull_count u)" "unat (pull_count u) \<in> set (map (\<lambda>(U, u). unat (pull_count u)) us)"
    using q by (force simp: queue_def)+
  then have "0 < sum_list (map (\<lambda>(U, u). unat (pull_count u)) us)" using member_le_sum_list by fastforce
  then show "0 < sp_pending p" using q by (simp add: queue_def)
  show "unat (pull_inventory_version u) \<le> length (sp_tags p)" by (rule reserved_bound [OF r U])
qed

lemma head_step:
  assumes st: "protocol_step s s'" and inv: "protocol_inv s" and p: "pr_pools s P = Some p"
    and u: "pr_pulls s U = Some u" "pull_pool u = P" "pull_status u = STATUS_PENDING" "unat (pull_index u) = sp_next_settle p"
    and still: "pr_pulls s' U = Some u"
  shows "holds_still s s' P (unat (pull_inventory_version u))"
proof -
  note head = head_unique [OF inv p u] and w = waiting_pending [OF inv p u(1-3)]
  show ?thesis
    using st
  proof (cases rule: protocol_step.cases)
    case (reclaim Q q I i)
    then have "Q \<noteq> P" using p w(1) by auto
    then show ?thesis using reclaim p by (auto simp: holds_still_def)
  next
    case (refund Q q V v)
    then have "Q \<noteq> P" using head [of V v] p still by auto
    then show ?thesis using refund p by (auto simp: holds_still_def)
  next
    case (settle Q q V v Is qs v')
    have "V \<noteq> U" using settle(1,4,5,9,10) u still by (auto dest: arg_cong [where f = pull_status])
    then have "Q \<noteq> P" using head [of V v] settle p by auto
    moreover have "I \<notin> set Is" if "pr_items s I = Some i" "item_pool i = P" for I i
      using settle(9) that \<open>Q \<noteq> P\<close> by (auto simp: list_all2_conv_all_nth in_set_conv_nth)
    ultimately show ?thesis using settle(1) p by (auto simp: holds_still_def)
  qed (use p w(2) in \<open>auto simp: holds_still_def\<close>)
qed

subsection \<open>Waiting at the head\<close>

text \<open>The ledgers that transactions lead to while a pull stays what it is.\<close>

abbreviation unsettled :: "account_info \<Rightarrow> pull \<Rightarrow> ledger \<Rightarrow> ledger \<Rightarrow> bool" where
  "unsettled U u \<equiv> (\<lambda>M M'. program_step M M' \<and> load_pull M' U = Inr u)\<^sup>*\<^sup>*"

lemma head_waits:
  assumes run: "unsettled U u L L'" and sound: "sound L" and P: "load_pool L P = Inr p"
    and u: "load_pull L U = Inr u" "pull_pool u = info_key P" "pull_status u = STATUS_PENDING" "pull_index u = pool_next_settle p"
  shows "sound L' \<and> load_pull L' U = Inr u \<and>
    holds_still (protocol_of L) (protocol_of L') (info_key P) (unat (pull_inventory_version u))"
  using run
proof (induction rule: rtranclp_induct)
  case base
  show ?case using sound u(1) holds_still_refl reads(1) [OF P] by blast
next
  case (step M M')
  let ?v = "unat (pull_inventory_version u)" and ?s = "protocol_of L" and ?t = "protocol_of M" and ?w = "protocol_of M'"
  have M: "sound M" "load_pull M U = Inr u" "holds_still ?s ?t (info_key P) ?v" using step.IH by simp_all
  obtain q where q: "pr_pools ?t (info_key P) = Some q" "sp_next_settle q = unat (pull_index u)"
    using M(3) reads(1) [OF P] u(4) P by (auto simp: holds_still_def stock_pool_at_def Let_def load_pool_Inr)
  note st = program_step_protocol [OF conjunct1 [OF step.hyps(2)] M(1)]
  have U: "pr_pulls ?t (info_key U) = Some u" "pr_pulls ?w (info_key U) = Some u"
    using reads(2) M(2) conjunct2 [OF step.hyps(2)] by blast+
  have "holds_still ?t ?w (info_key P) ?v"
    by (rule head_step [OF _ _ q(1) U(1) u(2,3) _ U(2)]) (use st M(1) q(2) in \<open>simp_all add: sound_def\<close>)
  then show ?case using st step.hyps(2) holds_still_trans [OF M(3)] by blast
qed

lemma sound_pool:
  assumes "sound L" "load_pool L P = Inr p" "load_pull L U = Inr u" "pull_pool u = info_key P" "pull_status u = STATUS_PENDING"
  shows "pool_ok L P (tags_at L P)" "unat (pull_inventory_version u) \<le> length (tags_at L P)"
    "custody (protocol_of L) (info_key P) (tags_at L P)"
proof -
  show ok: "pool_ok L P (tags_at L P)" using assms(1,2) ledger_okD by (auto simp: sound_def)
  have inv: "protocol_inv (protocol_of L)" using assms(1) by (simp add: sound_def)
  have p: "pr_pools (protocol_of L) (info_key P) = Some (stock_pool_at L P)" using reads(1) [OF assms(2)] by simp
  show "unat (pull_inventory_version u) \<le> length (tags_at L P)"
    using waiting_pending(2) [OF inv p _ assms(4,5), of "info_key U"] reads(2) [OF assms(3)] by (simp add: stock_pool_at_eq [OF ok])
  show "custody (protocol_of L) (info_key P) (tags_at L P)"
    by (rule pool_invE [OF protocol_invD(1) [OF inv p]]) (simp add: stock_pool_at_eq [OF ok])
qed

text \<open>What a settlement recorded, over the tags of the ledger.\<close>

lemma settle_recorded:
  assumes ok: "runtime_ok E" and sound: "sound L"
    and s: "settle E (operator # P # U # items @ [event_authority, program]) data L = Inr M"
  obtains p u beta ds where "load_pool L P = Inr p" "load_pull L U = Inr u" "pull_pool u = info_key P"
    "pull_status u = STATUS_PENDING" "pull_index u = pool_next_settle p" "length items = unat (pull_count u)"
    "env_proof_verify E data (pool_operator p) (env_sha256 E (to_le (info_key U) @ to_le (pull_client_seed u))) = Some beta"
    "reference_draws E p beta (unat (pull_inventory_version u)) (tags_at L P) 0 (length items) = Inr ds"
    "\<forall>n < length items. \<exists>it. load_item L (items ! n) = Inr it \<and> item_pool it = info_key P \<and> item_tier it = fst (ds ! n) \<and>
      unat (item_position it) = snd (ds ! n) \<and>
      pull_outcomes (pull_at M U) ! n = \<lparr>outcome_tier = fst (ds ! n), outcome_asset = item_asset it\<rparr>"
proof -
  have l: "load_pool L P = Inr (pool_at L P)" "load_pull L U = Inr (pull_at L U)" "pull_pool (pull_at L U) = info_key P"
    "pull_status (pull_at L U) = STATUS_PENDING"
    using s by (auto simp: settle_def dest: try_settle_accounts_Inr)
  note S = sound_pool [OF sound l]
  from settle_Inr [OF ok S(1,2) s] show thesis by (elim exE conjE) (rule that [OF l], auto)
qed

text \<open>An Item of the first ledger is the one Item of its position in the second.\<close>

lemma same_item:
  assumes still: "holds_still (protocol_of L) (protocol_of L') (info_key P) v" and c: "custody (protocol_of L') (info_key P) tags"
    and i: "load_item L I = Inr i" "item_pool i = info_key P" and j: "load_item L' J = Inr j" "item_pool j = info_key P"
    and q: "item_position j = item_position i"
  shows "info_key J = info_key I \<and> j = i"
proof -
  have "pr_items (protocol_of L') (info_key I) = Some i" using still i reads(3) [OF i(1)] by (auto simp: holds_still_def)
  moreover have "pr_items (protocol_of L') (info_key J) = Some j" using reads(3) [OF j(1)] by simp
  ultimately show ?thesis using custodyD(3) [OF c] i(2) j(2) q by (metis option.inject)
qed

text \<open>The two ledgers have the same reference draws for the pull.\<close>

lemma waiting_draws:
  assumes still: "holds_still (protocol_of L) (protocol_of L') (info_key P) v" and sha: "env_sha256 E' = env_sha256 E"
    and P: "load_pool L P = Inr p" "pool_ok L P (tags_at L P)" "load_pool L' P = Inr p'" "pool_ok L' P (tags_at L' P)"
  shows "pool_operator p' = pool_operator p"
    "reference_draws E' p' beta v (tags_at L' P) 0 m = reference_draws E p beta v (tags_at L P) 0 m"
proof -
  have p: "p = pool_at L P" "p' = pool_at L' P" using P(1,3) by (simp_all add: load_pool_Inr)
  have terms: "pool_terms p' = pool_terms p" and prefix: "take v (tags_at L' P) = take v (tags_at L P)"
    using still reads(1) [OF P(1)] reads(1) [OF P(3)]
    by (auto simp: holds_still_def stock_pool_at_eq [OF P(2)] stock_pool_at_eq [OF P(4)] p)
  show "pool_operator p' = pool_operator p" using arg_cong [OF terms, of pool_operator] by (simp add: pool_terms_def)
  show "reference_draws E' p' beta v (tags_at L' P) 0 m = reference_draws E p beta v (tags_at L P) 0 m"
    using reference_draws_prefix [OF terms _ _ sha prefix] pool_okD(2) [OF P(2)] pool_okD(2) [OF P(4)]
      index.bounded [OF pool_okD(3) [OF P(2)]] by (simp add: p)
qed

text \<open>
  C26: nobody can change what the head of the queue will be awarded. Let a pull be settled at its turn,
  and let any other transactions (deposits, buybacks, purchases, a change of status, deliveries,
  settlements of other pools, in any number and by anybody) come first as long as the pull is not taken
  off the queue. The settlement afterwards uses the very same Item accounts and records the very same
  tiers and assets as the settlement at once, draw by draw. The proofs may be different bytes and the
  operators may send them at different times; the VRF has one output per key and message.
\<close>

theorem outcome_fixed_at_head:
  assumes ok: "runtime_ok E" "runtime_ok E'" and sha: "env_sha256 E' = env_sha256 E"
    and vrf: "\<And>key alpha beta beta'. env_proof_verify E data key alpha = Some beta \<Longrightarrow>
      env_proof_verify E' data' key alpha = Some beta' \<Longrightarrow> beta' = beta"
    and sound: "sound L" and u: "load_pull L U = Inr u" and run: "unsettled U u L L'"
    and s: "settle E (operator # P # U # items @ [event_authority, program]) data L = Inr M"
    and s': "settle E' (operator' # P # U # items' @ [event_authority', program']) data' L' = Inr M'"
  shows "map info_key items' = map info_key items \<and> length items = unat (pull_count u) \<and>
    take (unat (pull_count u)) (pull_outcomes (pull_at M' U)) = take (unat (pull_count u)) (pull_outcomes (pull_at M U))"
proof -
  obtain p u0 beta ds where p: "load_pool L P = Inr p" and A: "load_pull L U = Inr u0" "pull_pool u0 = info_key P"
      "pull_status u0 = STATUS_PENDING" "pull_index u0 = pool_next_settle p" and n: "length items = unat (pull_count u0)"
    and beta: "env_proof_verify E data (pool_operator p) (env_sha256 E (to_le (info_key U) @ to_le (pull_client_seed u0))) = Some beta"
    and ds: "reference_draws E p beta (unat (pull_inventory_version u0)) (tags_at L P) 0 (length items) = Inr ds"
    and its: "\<forall>n < length items. \<exists>it. load_item L (items ! n) = Inr it \<and> item_pool it = info_key P \<and> item_tier it = fst (ds ! n) \<and>
      unat (item_position it) = snd (ds ! n) \<and>
      pull_outcomes (pull_at M U) ! n = \<lparr>outcome_tier = fst (ds ! n), outcome_asset = item_asset it\<rparr>"
    by (rule settle_recorded [OF ok(1) sound s])
  have u0: "u0 = u" using A(1) u by simp
  note A = A [unfolded u0] and W = head_waits [OF run sound p A [unfolded u0]]
  have W: "sound L'" "load_pull L' U = Inr u"
    and still: "holds_still (protocol_of L) (protocol_of L') (info_key P) (unat (pull_inventory_version u))"
    using W by simp_all
  obtain p' u1 beta' ds' where p': "load_pool L' P = Inr p'" and A': "load_pull L' U = Inr u1" and n': "length items' = unat (pull_count u1)"
    and beta': "env_proof_verify E' data' (pool_operator p') (env_sha256 E' (to_le (info_key U) @ to_le (pull_client_seed u1))) = Some beta'"
    and ds': "reference_draws E' p' beta' (unat (pull_inventory_version u1)) (tags_at L' P) 0 (length items') = Inr ds'"
    and its': "\<forall>n < length items'. \<exists>it. load_item L' (items' ! n) = Inr it \<and> item_pool it = info_key P \<and> item_tier it = fst (ds' ! n) \<and>
      unat (item_position it) = snd (ds' ! n) \<and>
      pull_outcomes (pull_at M' U) ! n = \<lparr>outcome_tier = fst (ds' ! n), outcome_asset = item_asset it\<rparr>"
    by (rule settle_recorded [OF ok(2) W(1) s'])
  have u1: "u1 = u" using A' W(2) by simp
  note S = sound_pool [OF sound p A(1-3)] and S' = sound_pool [OF W(1) p' W(2) A(2,3)]
  note D = waiting_draws [OF still sha p S(1) p' S'(1)]
  have "beta' = beta" using vrf beta beta' D(1) by (simp add: sha u0 u1)
  moreover note D(2)
  ultimately have eq: "ds' = ds" and len: "length items' = length items" using ds ds' n n' by (simp_all add: u0 u1)
  have "info_key (items' ! m) = info_key (items ! m) \<and> pull_outcomes (pull_at M' U) ! m = pull_outcomes (pull_at M U) ! m"
    if m: "m < length items" for m
  proof -
    obtain it it' where "load_item L (items ! m) = Inr it" "item_pool it = info_key P" "unat (item_position it) = snd (ds ! m)"
      "load_item L' (items' ! m) = Inr it'" "item_pool it' = info_key P" "unat (item_position it') = snd (ds ! m)"
      "pull_outcomes (pull_at M U) ! m = \<lparr>outcome_tier = fst (ds ! m), outcome_asset = item_asset it\<rparr>"
      "pull_outcomes (pull_at M' U) ! m = \<lparr>outcome_tier = fst (ds ! m), outcome_asset = item_asset it'\<rparr>"
      using its its' m unfolding eq len by blast
    then show ?thesis using same_item [OF still S'(3), of "items ! m" it "items' ! m" it'] by (simp add: word_unat_eq_iff)
  qed
  moreover have "length (pull_outcomes (pull_at K U)) = 10" for K using pull_wf_at [of K U] by (simp add: pull_wf_def)
  ultimately show ?thesis using n len by (auto simp: u0 list_eq_iff_nth_eq)
qed

end
