(* ===== verification/System_Witnesses.thy ===== *)
theory System_Witnesses
  imports Crank Refund_Progress Fairness Witnesses
begin

section \<open>Histories on concrete ledgers\<close>

text \<open>
  A sound ledger with a pool of three prizes, their Items and a pending pull, and concrete runs from
  it and from the empty ledger, on which the properties of \<open>System\<close> and \<open>Progress\<close> are applied.
\<close>

definition prize :: "u8 \<Rightarrow> u32 \<Rightarrow> pubkey \<Rightarrow> item" where
  "prize tier position asset = example_item\<lparr>item_tier := tier, item_position := position, item_asset := asset\<rparr>"

definition prize_account :: "item \<Rightarrow> account" where
  "prize_account i = \<lparr>acct_owner = ID, acct_lamports = 500, acct_data = encode_item i\<rparr>"

definition full_ledger :: ledger where
  "full_ledger = (example_ledger pool_a (encode_pull example_pull))
     (31 := prize_account (prize 1 1 41), 32 := prize_account (prize 0 2 42))"

definition item_keys :: "pubkey \<Rightarrow> item option" where
  "item_keys = [30 \<mapsto> example_item, 31 \<mapsto> prize 1 1 41, 32 \<mapsto> prize 0 2 42]"

lemma full_same: "k \<noteq> 31 \<Longrightarrow> k \<noteq> 32 \<Longrightarrow> same_at k (example_ledger pool_a (encode_pull example_pull)) full_ledger"
  by (simp add: full_ledger_def same_at_def)

lemma full_views:
  "load_pool full_ledger (info 1045) = Inr pool_a" "pool_at full_ledger (info 1045) = pool_a"
  "pool_ok full_ledger (info 1045) [1, 2, 1]" "load_pull full_ledger (info 1069) = Inr example_pull"
  "load_item full_ledger (info 30) = Inr example_item"
  using same_at_views [OF full_same, of "info 1045"] same_at_views [OF full_same, of "info 1069"]
    same_at_views [OF full_same, of "info 30"] pool_ok_same [OF full_same, of "info 1045"]
  by (simp_all add: example_views [OF pool_a(2)] example_pull)

lemma prize_loads:
  assumes "L k = prize_account i" "item_version i = ITEM_VERSION"
  shows "load_item L (info k) = Inr i"
proof -
  have "decode_item (encode_item i) = i" using item_layout.dec_enc [of i "[]"] by simp
  then show ?thesis using assms length_encode_item [of i] by (simp add: load_item_Inr acct_def data_of_def prize_account_def)
qed

lemma full_items: "load_item full_ledger (info 31) = Inr (prize 1 1 41)" "load_item full_ledger (info 32) = Inr (prize 0 2 42)"
  by (rule prize_loads, simp_all add: full_ledger_def prize_def example_item_def)+

text \<open>No other account is the program's.\<close>

lemma full_unused: "k \<notin> {1045, 1069, 30, 31, 32} \<Longrightarrow> unused full_ledger k"
  using program_ids by (auto simp: unused_def full_ledger_def example_ledger_def system_account_def)

lemma protocol_of_full:
  "protocol_of full_ledger = \<lparr>pr_pools = [1045 \<mapsto> stock_pool_at full_ledger (info 1045)], pr_pulls = [1069 \<mapsto> example_pull],
     pr_items = item_keys\<rparr>"
proof -
  have "pr_pools (protocol_of full_ledger) k = [1045 \<mapsto> stock_pool_at full_ledger (info 1045)] k \<and>
      pr_pulls (protocol_of full_ledger) k = [1069 \<mapsto> example_pull] k \<and> pr_items (protocol_of full_ledger) k = item_keys k" for k
  proof (cases "k \<in> {1045, 1069, 30, 31, 32}")
    case True
    then show ?thesis
      using reads(1) [OF full_views(1)] reads(2) [OF full_views(4)] reads(3) [OF full_views(5)]
        reads(3) [OF full_items(1)] reads(3) [OF full_items(2)] by (auto simp: item_keys_def)
  next
    case False
    then show ?thesis using unused_protocol [OF full_unused [OF False]] by (auto simp: item_keys_def)
  qed
  then show ?thesis by (intro protocol.equality) auto
qed

lemma prize_simps [simp]: "item_pool (prize t q a) = 1045" "item_tier (prize t q a) = t" "item_position (prize t q a) = q"
  by (simp_all add: prize_def example_item)

lemma full_sound: "sound full_ledger"
proof -
  let ?s = "protocol_of full_ledger" and ?p = "stock_pool_at full_ledger (info 1045)"
  have p: "?p = \<lparr>sp_terms = pool_terms pool_a, sp_status = 1, sp_pending = 1, sp_next_index = 1, sp_next_settle = 0,
      sp_tags = [1, 2, 1]\<rparr>"
    by (simp add: stock_pool_at_eq [OF full_views(3)] full_views(2) pool_a)
  have "waiting ?s 1045 = {(1069, example_pull)}"
    by (auto simp: waiting_def protocol_of_full example_pull split: if_splits)
  then have q: "queue ?s 1045 ?p [(1069, example_pull)]" by (simp add: queue_def p example_pull)
  have r: "reserved (sp_tags ?p) 0 0 [(1069, example_pull)]" by (simp add: p example_pull stock_below_def)
  have c: "custody ?s 1045 (sp_tags ?p)"
  proof (rule custodyI)
    show "unat (item_position i) < length (sp_tags ?p) \<and> unat (item_tier i) < MAX_TIERS \<and>
        sp_tags ?p ! unat (item_position i) = tier_tag (unat (item_tier i))" if "pr_items ?s I = Some i" for I i
      using that by (auto simp: protocol_of_full item_keys_def p example_item tier_tag_def split: if_splits)
    show "\<exists>I i. pr_items ?s I = Some i \<and> item_pool i = 1045 \<and> unat (item_position i) = q"
      if "q < length (sp_tags ?p)" for q
    proof -
      have "q = 0 \<or> q = 1 \<or> q = 2" using that by (auto simp: p)
      then show ?thesis
        by (elim disjE) (rule exI [of _ 30] exI [of _ 31] exI [of _ 32], force simp: protocol_of_full item_keys_def example_item)+
    qed
    show "I = J" if "pr_items ?s I = Some i" "pr_items ?s J = Some j" "item_position i = item_position j" for I i J j
      using that by (auto simp: protocol_of_full item_keys_def example_item split: if_splits)
  qed
  have f: "fair_terms (sp_terms ?p)"
    by (rule ssubst [OF p]) (simp add: fair_terms_def pool_valid_def pool_wf_def pool_terms_def tiers_of_def pool_a sample_tiers_def)
  have "protocol_inv ?s"
    unfolding protocol_inv_def
    using pool_invI [OF q r c f] by (auto simp: protocol_of_full example_pull item_keys_def example_item split: if_splits)
  moreover have "ledger_ok full_ledger"
    unfolding ledger_ok_def
  proof (intro allI impI)
    fix P p assume P: "load_pool full_ledger P = Inr p"
    then have "pr_pools ?s (info_key P) \<noteq> None" using reads(1) by simp
    then have "info_key P = info_key (info 1045)" by (simp add: protocol_of_full split: if_splits)
    then have "pool_ok full_ledger P [1, 2, 1]" using full_views(3) views_key(9) by metis
    then show "pool_ok full_ledger P (tags_at full_ledger P)" using tags_at_eq by metis
  qed
  ultimately show ?thesis by (simp add: sound_def)
qed

subsection \<open>Runs\<close>

definition retire_run :: "ledger \<Rightarrow> ledger \<Rightarrow> bool" where
  "retire_run L L' \<longleftrightarrow> process_instruction example_env (map info [7, 1045, 2, 3]) [3, 2] L = Inr L'"

lemma retire_full: "\<exists>L'. retire_run full_ledger L' \<and> set_status example_env [info 7, info 1045, info 2, info 3] [2] full_ledger = Inr L'"
  by (simp add: retire_run_def process_instruction_def set_status_def try_set_status_accounts_def try_set_status_data_def
      set_status_process_def full_views pool_a)

text \<open>The ledger after a pool was created on the empty one.\<close>

lemma created:
  obtains L' where "create_pool example_env (map info [7, 1045, 8, 9, 2000, 0, 2, 3]) create_bytes empty_ledger = Inr L'" "reachable L'"
proof -
  obtain L' where L': "create_pool example_env (map info [7, 1045, 8, 9, 2000, 0, 2, 3]) create_bytes empty_ledger = Inr L'"
    using create_pool_run by blast
  then have run: "process_instruction example_env (map info [7, 1045, 8, 9, 2000, 0, 2, 3]) (0 # create_bytes) empty_ledger = Inr L'"
    by (simp add: process_instruction_def)
  have "reachable empty_ledger"
    by (rule reachable.start) (auto simp: empty_ledger_def system_account_def split: if_splits)
  then have "reachable L'" using program_step.instruction [OF example_runtime_ok run] by (rule reachable.step)
  with L' show thesis by (rule that)
qed

theorem reachable_ledgers_sound_witness:
  "\<exists>L'. create_pool example_env (map info [7, 1045, 8, 9, 2000, 0, 2, 3]) create_bytes empty_ledger = Inr L' \<and>
     ledger_ok L' \<and> protocol_inv (protocol_of L')"
  using created reachable_ledgers_sound by metis

theorem queue_bounds_witness:
  "\<exists>L' p. create_pool example_env (map info [7, 1045, 8, 9, 2000, 0, 2, 3]) create_bytes empty_ledger = Inr L' \<and>
     load_pool L' (info 1045) = Inr p \<and> unat (pool_pending_draws p) \<le> unat (pool_inventory_version p) \<and>
     (\<forall>A u. load_pull L' A = Inr u \<and> pull_pool u = 1045 \<longrightarrow> pull_status u \<noteq> STATUS_PENDING)"
proof -
  obtain L' where L': "create_pool example_env (map info [7, 1045, 8, 9, 2000, 0, 2, 3]) create_bytes empty_ledger = Inr L'"
    and r: "reachable L'" by (rule created)
  have "create_pool example_env [info 7, info 1045, info 8, info 9, info 2000, info 0, info 2, info 3] create_bytes empty_ledger = Inr L'"
    using L' by simp
  from create_pool_Inr [OF example_runtime_ok this] have P: "load_pool L' (info 1045) = Inr (pool_at L' (info 1045))"
    and ix: "pool_next_index (pool_at L' (info 1045)) = 0" "pool_next_settle (pool_at L' (info 1045)) = 0"
    using pool_okD(1) by auto
  from queue_bounds [OF r P] ix show ?thesis using L' P by fastforce
qed

theorem instruction_refines_protocol_witness:
  "\<exists>L'. retire_run full_ledger L' \<and> sound L' \<and> protocol_step (protocol_of full_ledger) (protocol_of L')"
proof -
  obtain L' where L': "retire_run full_ledger L'" using retire_full by blast
  then show ?thesis
    using instruction_refines_protocol [OF example_runtime_ok full_sound, of "map info [7, 1045, 2, 3]" "[3, 2]" L']
    by (auto simp: retire_run_def)
qed

theorem pool_history_witness:
  "\<exists>L' p'. retire_run full_ledger L' \<and> load_pool L' (info 1045) = Inr p' \<and> pool_terms p' = pool_terms pool_a \<and> 1 \<le> pool_next_index p'"
proof -
  obtain L' where L': "retire_run full_ledger L'" using retire_full by blast
  then have "program_step\<^sup>*\<^sup>* full_ledger L'"
    using program_step.instruction [OF example_runtime_ok] by (auto simp: retire_run_def)
  from pool_history [OF full_sound this full_views(1)] L' show ?thesis by (auto simp: pool_a)
qed

text \<open>Settlements of the pull of \<open>full_ledger\<close>, and of a sound ledger that still has it at the head.\<close>

lemma settle_again:
  assumes so: "sound L" and P: "load_pool L (info 1045) = Inr p" "pool_operator p = 8" "pool_next_settle p = 0"
    and U: "load_pull L (info 1069) = Inr example_pull"
    and O': "acct_owner (acct L (info 8)) \<noteq> ID" and rent: "\<forall>k. unat (acct_lamports (L k)) \<le> 10 ^ 18"
  shows "\<exists>items L'. settle example_env (info 8 # info 1045 # info 1069 # items @ [info 2, info 3]) (replicate 80 1) L = Inr L'"
proof -
  have laws: "closes example_env" "emits example_env (info 2) (info 3)" by (simp_all add: closes_def emits_def)
  have head: "pull_pool example_pull = info_key (info 1045)" "pull_index example_pull = pool_next_settle p" by (simp_all add: example_pull P)
  have clock: "env_clock example_env = Inr \<lparr>clock_slot = 100, clock_unix_timestamp = 1000\<rparr>"
    "clock_slot \<lparr>clock_slot = 100, clock_unix_timestamp = 1000\<rparr> \<le> pull_deadline_slot example_pull"
    by (simp_all add: example_env_def example_pull)
  have vrf: "env_proof_verify example_env (replicate 80 1) k a = Some (replicate 64 0)" for k a by (simp add: example_env_def)
  show ?thesis
    using settle_lives [OF example_runtime_ok laws so P(1) U head(1) example_pull(4) head(2) clock vrf _ _ _ _ _ _ O' rent] P(2) by auto
qed

lemma full_accounts: "acct_owner (acct full_ledger (info 8)) \<noteq> ID" "\<forall>k. unat (acct_lamports (full_ledger k)) \<le> 10 ^ 18"
  using program_ids
  by (simp_all add: acct_def full_ledger_def example_ledger_def system_account_def prize_account_def)

theorem pull_lifecycle_witness:
  "\<exists>accounts L' u'. process_instruction example_env accounts (20 # replicate 80 1) full_ledger = Inr L' \<and>
     load_pull L' (info 1069) = Inr u' \<and>
     u'\<lparr>pull_outcomes := []\<rparr> = example_pull\<lparr>pull_status := STATUS_SETTLED, pull_outcomes := []\<rparr>"
proof -
  obtain items L' where L': "settle example_env (info 8 # info 1045 # info 1069 # items @ [info 2, info 3]) (replicate 80 1) full_ledger = Inr L'"
    using settle_again [OF full_sound full_views(1) _ _ full_views(4) full_accounts] by (auto simp: pool_a)
  have at: "pull_at full_ledger (info 1069) = example_pull" using full_views(4) by (simp add: load_pull_Inr)
  then have "load_pull L' (info 1069) = Inr (pull_at L' (info 1069)) \<and>
      pull_at L' (info 1069)\<lparr>pull_outcomes := []\<rparr> = example_pull\<lparr>pull_status := STATUS_SETTLED, pull_outcomes := []\<rparr>"
    using settle_Inr [OF example_runtime_ok full_views(3) _ L'] by (auto simp: example_pull)
  then have "load_pull L' (info 1069) \<noteq> Inr example_pull" and "\<nexists>e. load_pull L' (info 1069) = Inl e"
    by (auto dest: arg_cong [where f = pull_status] simp: example_pull)
  moreover have run: "process_instruction example_env (info 8 # info 1045 # info 1069 # items @ [info 2, info 3]) (20 # replicate 80 1) full_ledger = Inr L'"
    using L' by (simp add: process_instruction_def)
  ultimately show ?thesis
    using pull_lifecycle [OF full_sound program_step.instruction [OF example_runtime_ok run] full_views(4)] run
    by (auto simp: example_pull)
qed

text \<open>Retiring the pool before the settlement changes nothing for the pull.\<close>

lemma retired:
  obtains L' where "retire_run full_ledger L'" "program_step full_ledger L'" "sound L'" "load_pull L' (info 1069) = Inr example_pull"
    "load_pool L' (info 1045) = Inr (pool_a\<lparr>pool_status := 2\<rparr>)" "\<forall>k. k \<noteq> 1045 \<longrightarrow> L' k = full_ledger k"
    "acct_lamports (L' 1045) = acct_lamports (full_ledger 1045)"
proof -
  obtain L' where L': "retire_run full_ledger L'" "set_status example_env [info 7, info 1045, info 2, info 3] [2] full_ledger = Inr L'"
    using retire_full by blast
  have st: "program_step full_ledger L'" using L'(1) program_step.instruction [OF example_runtime_ok] by (simp add: retire_run_def)
  have S: "pool_at L' (info 1045) = pool_a\<lparr>pool_status := 2\<rparr>" "pool_ok L' (info 1045) [1, 2, 1]" "\<forall>k. k \<noteq> 1045 \<longrightarrow> L' k = full_ledger k"
    using set_status_Inr [OF example_runtime_ok full_views(3) L'(2)] full_views(2) by simp_all
  have "same_at 1069 full_ledger L'" using S(3) by (simp add: same_at_def)
  then have "load_pull L' (info 1069) = Inr example_pull" using same_at_views(3) [of "info 1069"] full_views(4) by simp
  moreover have "acct_lamports (L' 1045) = acct_lamports (full_ledger 1045)"
    using L'(2) by (auto simp: set_status_def try_set_status_accounts_def set_status_process_def full_views dest!: emit_same [OF example_runtime_ok] split: if_splits)
  ultimately show thesis using that [OF L'(1) st] program_step_protocol [OF st full_sound] pool_okD(1) [OF S(2)] S by simp
qed

theorem outcome_fixed_at_head_witness:
  "\<exists>L' items items' M M'. retire_run full_ledger L' \<and>
     settle example_env (info 8 # info 1045 # info 1069 # items @ [info 2, info 3]) (replicate 80 1) full_ledger = Inr M \<and>
     settle example_env (info 8 # info 1045 # info 1069 # items' @ [info 2, info 3]) (replicate 80 1) L' = Inr M' \<and>
     map info_key items' = map info_key items \<and>
     take 1 (pull_outcomes (pull_at M' (info 1069))) = take 1 (pull_outcomes (pull_at M (info 1069)))"
proof -
  obtain L' where L': "retire_run full_ledger L'" "program_step full_ledger L'" "sound L'"
    and U: "load_pull L' (info 1069) = Inr example_pull" and P: "load_pool L' (info 1045) = Inr (pool_a\<lparr>pool_status := 2\<rparr>)"
    and same: "\<forall>k. k \<noteq> 1045 \<longrightarrow> L' k = full_ledger k" "acct_lamports (L' 1045) = acct_lamports (full_ledger 1045)"
    by (rule retired)
  have acc: "acct_owner (acct L' (info 8)) \<noteq> ID" using full_accounts(1) same(1) by (simp add: acct_def)
  have "acct_lamports (L' k) = acct_lamports (full_ledger k)" for k using same by (cases "k = 1045") simp_all
  then have rent: "\<forall>k. unat (acct_lamports (L' k)) \<le> 10 ^ 18" using full_accounts(2) by simp
  obtain items M where s: "settle example_env (info 8 # info 1045 # info 1069 # items @ [info 2, info 3]) (replicate 80 1) full_ledger = Inr M"
    using settle_again [OF full_sound full_views(1) _ _ full_views(4) full_accounts] by (auto simp: pool_a)
  obtain items' M' where s': "settle example_env (info 8 # info 1045 # info 1069 # items' @ [info 2, info 3]) (replicate 80 1) L' = Inr M'"
    using settle_again [OF L'(3) P _ _ U acc rent] by (auto simp: pool_a)
  have run: "unsettled (info 1069) example_pull full_ledger L'" using L'(2) U by blast
  have unique: "env_proof_verify example_env (replicate 80 1) key alpha = Some beta \<Longrightarrow>
      env_proof_verify example_env (replicate 80 1) key alpha = Some beta' \<Longrightarrow> beta' = beta" for key alpha beta beta' by simp
  have "unat (pull_count example_pull) = 1" by (simp add: example_pull)
  with outcome_fixed_at_head [OF example_runtime_ok example_runtime_ok refl unique full_sound full_views(4) run s s'] L'(1) s s'
  show ?thesis by (intro exI [of _ L'] exI [of _ items] exI [of _ items'] exI [of _ M] exI [of _ M']) simp
qed

theorem head_can_settle_witness:
  "\<exists>items L'. settle example_env (info 8 # info 1045 # info 1069 # items @ [info 2, info 3]) (replicate 80 1) full_ledger = Inr L'"
proof (rule head_can_settle [OF example_runtime_ok _ _ full_sound full_views(1,4),
      where clock = "\<lparr>clock_slot = 100, clock_unix_timestamp = 1000\<rparr>"])
  show "closes example_env" by (simp add: closes_def)
  show "emits example_env (info 2) (info 3)" by (simp add: emits_def)
  show "env_proof_verify example_env (replicate 80 1) (pool_operator pool_a)
      (env_sha256 example_env (to_le (info_key (info 1069)) @ to_le (pull_client_seed example_pull))) = Some (replicate 64 0)"
    by (simp add: example_env_def)
  show "acct_owner (acct full_ledger (info 8)) \<noteq> ID"
    using program_ids by (simp add: acct_def full_ledger_def example_ledger_def system_account_def)
  show "\<forall>k. unat (acct_lamports (full_ledger k)) \<le> 10 ^ 18"
    by (simp add: full_ledger_def example_ledger_def system_account_def prize_account_def)
qed (simp_all add: example_pull pool_a)

text \<open>The same runtime a hundred slots later, when the deadline of the pull has passed.\<close>

definition late_env :: env where
  "late_env = example_env\<lparr>env_clock := Inr \<lparr>clock_slot = 200, clock_unix_timestamp = 2000\<rparr>\<rparr>"

lemma late_simps [simp]:
  "env_invoke late_env = env_invoke example_env" "env_system_id late_env = env_system_id example_env"
  "env_token_id late_env = env_token_id example_env" "env_close late_env = env_close example_env"
  "env_realloc late_env = env_realloc example_env" "env_create_program_address late_env = env_create_program_address example_env"
  "env_clock late_env = Inr \<lparr>clock_slot = 200, clock_unix_timestamp = 2000\<rparr>"
  by (simp_all add: late_env_def)

lemma late_runtime: "runtime_ok late_env" "closes late_env" "emits late_env (info 2) (info 3)"
proof -
  have emit: "emit late_env = emit example_env" by (simp add: fun_eq_iff emit_def emit_data_def)
  have "runtime_ok late_env \<longleftrightarrow> runtime_ok example_env"
    by (simp only: runtime_ok_def invoke_law_def owner_law_def event_law_def create_law_def transfer_law_def allocate_law_def
        assign_law_def token_law_def core_law_def realloc_law_def close_law_def emit late_simps)
  then show "runtime_ok late_env" using example_runtime_ok by simp
  show "closes late_env" "emits late_env (info 2) (info 3)" by (simp_all add: closes_def emits_def emit)
qed

lemma late_pays: "pays late_env"
proof -
  have ids: "env_invoke example_env = example_invoke" "env_token_id example_env = 5" by (simp_all add: example_env_def)
  show ?thesis
    unfolding pays_def
    by (auto simp: token_account_def ids move_tokens_def checked_add_def checked_sub_def write_data_def)
qed

theorem head_can_be_refunded_witness:
  "\<exists>L'. refund late_env (map info [1045, 1069, 20, 2000, 21, 5, 2, 3]) full_ledger = Inr L' \<and>
    unat (balance L' (info 21)) = 1000 + due pool_a 1"
proof -
  have k: "acct full_ledger a = acct (example_ledger pool_a (encode_pull example_pull)) a"
    "data_of full_ledger a = data_of (example_ledger pool_a (encode_pull example_pull)) a" if "info_key a \<notin> {31, 32}" for a
    using that by (simp_all add: full_ledger_def acct_def data_of_def)
  have tokens: "token_account late_env full_ledger (info 2000) 9 (info_key (info 1045))"
    "token_account late_env full_ledger (info 21) 9 (pull_buyer example_pull)"
    by (simp_all add: token_account_def k data_of_acct example_ledger_at example_pull_def)
      (simp_all add: example_env_def token_data_def nth_append slice_def)
  have bal: "balance full_ledger (info 2000) = 1000" "balance full_ledger (info 21) = 1000"
    using example_views(7,8) [OF pool_a(2)] by (simp_all add: balance_def k)
  have pda: "env_create_program_address late_env (pool_signer_seeds pool_a) ID = Some (info_key (info 1045))"
    by (simp add: pool_signer_seeds_def pool_seeds_def POOL_SEED_def)
  have vault: "solvent full_ledger (info 1045) (info 2000)" by (simp add: solvent_def full_views bal due_def pool_a)
  have own: "acct_owner (acct full_ledger (info 20)) \<noteq> ID" using program_ids by (simp add: k example_ledger_at system_account_def)
  show ?thesis
    using head_can_be_refunded [OF late_runtime late_pays full_sound full_views(1,4), of _ "info 20" "info 2000" "info 21" 9,
        OF _ _ _ _ _ _ own _ _ _ _ _ _ _ tokens pda vault _ full_accounts(2)]
    by (simp add: example_pull pool_a bal due_def example_pull_def)
qed

text \<open>The only waiting pull of \<open>full_ledger\<close> can be proved in \<open>example_env\<close>.\<close>

lemma full_provable: "all_provable (info 2) (info 3) (info 1045) full_ledger"
  unfolding all_provable_def
proof (intro allI impI)
  fix U u assume U: "load_pull full_ledger U = Inr u \<and> pull_pool u = info_key (info 1045) \<and> pull_status u = STATUS_PENDING"
  then have "pr_pulls (protocol_of full_ledger) (info_key U) = Some u" using reads(2) by blast
  then have "u = example_pull" by (simp add: protocol_of_full split: if_splits)
  moreover have "env_clock example_env = Inr \<lparr>clock_slot = 100, clock_unix_timestamp = 1000\<rparr>"
    "env_proof_verify example_env (replicate 80 1) k alpha = Some (replicate 64 0)" for k alpha
    by (simp_all add: example_env_def)
  ultimately show "provable (info 2) (info 3) (pool_operator (pool_at full_ledger (info 1045))) (info_key U) u"
    unfolding provable_def
    by (intro exI [of _ example_env] exI [of _ "replicate 80 1"] exI [of _ "replicate 64 0"]
        exI [of _ "\<lparr>clock_slot = 100, clock_unix_timestamp = 1000\<rparr>"])
      (simp add: example_runtime_ok closes_def emits_def example_pull)
qed

theorem crank_empties_queue_witness:
  "\<exists>M. settlements (info 8) (info 1045) (info 2) (info 3) 1 full_ledger M \<and> unat (pool_pending_draws (pool_at M (info 1045))) = 0 \<and>
    (\<exists>u'. load_pull M (info 1069) = Inr u' \<and>
      u'\<lparr>pull_outcomes := []\<rparr> = example_pull\<lparr>pull_status := STATUS_SETTLED, pull_outcomes := []\<rparr>)"
proof -
  have own: "acct_owner (acct full_ledger (info 8)) \<noteq> ID"
    using program_ids by (simp add: acct_def full_ledger_def example_ledger_def system_account_def)
  have fund: "funded full_ledger (info_key (info 8)) (10 ^ 18) (10 ^ 18)"
    by (simp add: funded_def lamports_def full_ledger_def example_ledger_def system_account_def prize_account_def)
  note T = crank_empties_queue [OF full_sound full_views(1) full_provable _ _ _ own fund, of 1]
  then have run: "\<exists>M. settlements (info 8) (info 1045) (info 2) (info 3) 1 full_ledger M" by (simp add: pool_a)
  have "unat (pool_next_index pool_a - pool_next_settle pool_a) = 1" by (simp add: pool_a)
  with T run full_views(4) show ?thesis by (fastforce simp: pool_a example_pull)
qed

end
