(* ===== verification/Sdk.thy ===== *)
theory Sdk
  imports Runtime
begin

section \<open>gacha-rust: snapshots and instructions\<close>

text \<open>
  The host SDK, \<open>packages/gacha-rust/src/lib.rs\<close>: views of fetched accounts that check owner, layout,
  parameters and address; the instruction of every operation of the program; the replay of a
  settlement's draws from a verified proof; and the grouping of instructions into transactions.

  The libraries that the SDK calls are the record \<open>sdk_env\<close>: SHA-256, the search for a program
  address with its bump, the VRF, the associated token program's client and the serialization of a
  message. An index out of bounds, a division by zero or an overflow is the error \<open>SdkPanic\<close>.
  The \<open>number_getters\<close> and \<open>key_getters\<close> are the fields of the decoded header.
\<close>

datatype sdk_error =
    SdkInvalidAccount
  | SdkInvalidArgument
  | SdkInvalidProof
  | SdkWrongPool
  | SdkNotPending
  | SdkNotSettled
  | SdkNotNextInQueue
  | SdkMissingInventory
  | SdkInvalidItem
  | SdkInvalidAsset
  | SdkInvalidPoolStatus
  | SdkPendingPurchases
  | SdkTransactionTooLarge
  | SdkPanic

type_synonym 'a sdk_result = "sdk_error + 'a"

record sdk_instruction =
  ins_program :: pubkey
  ins_accounts :: "account_meta list"
  ins_data :: bytes

record sdk_env =
  sk_sha256 :: "bytes \<Rightarrow> bytes32"
  sk_find_program_address :: "seeds \<Rightarrow> pubkey \<Rightarrow> pubkey \<times> u8"
  sk_valid_key :: "pubkey \<Rightarrow> bool"
  sk_proof_verify :: "bytes \<Rightarrow> pubkey \<Rightarrow> bytes32 \<Rightarrow> bytes option"
  sk_token_address :: "pubkey \<Rightarrow> pubkey \<Rightarrow> pubkey \<Rightarrow> pubkey"
  sk_create_token_account :: "pubkey \<Rightarrow> pubkey \<Rightarrow> pubkey \<Rightarrow> pubkey \<Rightarrow> sdk_instruction"
  sk_message :: "sdk_instruction list \<Rightarrow> pubkey \<Rightarrow> nat \<times> bytes"

text \<open>
  \<open>map_err(|_| error)\<close> on a result of \<open>gacha-core\<close>; a panic stays a panic. \<open>sdk_total\<close> is for calls
  that return no \<open>Result\<close> and can only panic.
\<close>

definition sdk_err :: "sdk_error \<Rightarrow> 'a result \<Rightarrow> 'a sdk_result" where
  "sdk_err e r = (case r of Inl Panic \<Rightarrow> Inl SdkPanic | Inl _ \<Rightarrow> Inl e | Inr x \<Rightarrow> Inr x)"

definition sdk_total :: "'a result \<Rightarrow> 'a sdk_result" where
  "sdk_total r = (case r of Inl _ \<Rightarrow> Inl SdkPanic | Inr x \<Rightarrow> Inr x)"

definition TOKEN :: pubkey where
  "TOKEN = from_le
    [6, 221, 246, 225, 215, 101, 161, 147, 217, 203, 225, 70, 206, 235, 121, 172, 28, 180, 133,
     237, 95, 91, 55, 145, 58, 140, 245, 133, 126, 255, 0, 169]"

abbreviation (input) SYSTEM :: pubkey where
  "SYSTEM \<equiv> 0"

subsection \<open>Snapshots\<close>

record sdk_pool =
  kp_address :: pubkey
  kp_data :: bytes

record sdk_pull =
  ku_address :: pubkey
  ku_data :: bytes

record sdk_item =
  ki_address :: pubkey
  ki_data :: bytes

datatype sdk_purchase_status = Pending | Settled

datatype sdk_pool_status = Paused | Active | Retired

record sdk_outcome =
  ko_asset :: pubkey
  ko_tier :: "u8 option"

record sdk_draw =
  kd_tier :: u8
  kd_position :: u32
  kd_item :: pubkey

record sdk_asset =
  ka_address :: pubkey
  ka_owner :: pubkey
  ka_collection :: "pubkey option"

definition asset_from_account :: "pubkey \<Rightarrow> pubkey \<Rightarrow> bytes \<Rightarrow> sdk_asset sdk_result" where
  "asset_from_account address owner data =
     (case core_asset_from_account owner data of
        Inl _ \<Rightarrow> Inl SdkInvalidAsset
      | Inr header \<Rightarrow> Inr \<lparr>ka_address = address, ka_owner = asset_owner header, ka_collection = asset_collection header\<rparr>)"

subsection \<open>Account metas and instructions\<close>

definition rw :: "pubkey \<Rightarrow> bool \<Rightarrow> account_meta" where
  "rw key signer = \<lparr>meta_key = key, meta_writable = True, meta_signer = signer\<rparr>"

definition ro :: "pubkey \<Rightarrow> bool \<Rightarrow> account_meta" where
  "ro key signer = \<lparr>meta_key = key, meta_writable = False, meta_signer = signer\<rparr>"

definition sdk_instruction :: "bytes \<Rightarrow> account_meta list \<Rightarrow> sdk_instruction" where
  "sdk_instruction data accounts =
     \<lparr>ins_program = ID, ins_accounts = accounts @ [ro EVENT_AUTHORITY False, ro ID False], ins_data = data\<rparr>"

definition sdk_check :: "pubkey \<Rightarrow> bytes \<Rightarrow> nat \<Rightarrow> u8 \<Rightarrow> unit sdk_result" where
  "sdk_check owner data minimum version =
     (if owner \<noteq> ID \<or> length data < minimum then Inl SdkInvalidAccount
      else if length data = 0 then Inl SdkPanic
      else if data ! 0 \<noteq> version then Inl SdkInvalidAccount
      else Inr ())"

definition sdk_ata :: "sdk_env \<Rightarrow> pubkey \<Rightarrow> pubkey \<Rightarrow> pubkey" where
  "sdk_ata K owner mint = sk_token_address K owner mint TOKEN"

definition create_ata :: "sdk_env \<Rightarrow> pubkey \<Rightarrow> pubkey \<Rightarrow> pubkey \<Rightarrow> sdk_instruction" where
  "create_ata K payer owner mint = sk_create_token_account K payer owner mint TOKEN"

definition token_transfer :: "pubkey \<Rightarrow> pubkey \<Rightarrow> pubkey \<Rightarrow> u64 \<Rightarrow> sdk_instruction" where
  "token_transfer src dst authority amount =
     \<lparr>ins_program = TOKEN, ins_accounts = [rw src False, rw dst False, ro authority True], ins_data = 3 # to_le amount\<rparr>"

definition collection_or_core :: "sdk_asset \<Rightarrow> pubkey" where
  "collection_or_core asset = (case ka_collection asset of None \<Rightarrow> CORE_ID | Some key \<Rightarrow> key)"

definition sdk_deliver_one :: "pubkey \<Rightarrow> pubkey \<Rightarrow> pubkey \<Rightarrow> sdk_asset \<Rightarrow> u8 \<Rightarrow> pubkey \<Rightarrow> sdk_instruction sdk_result" where
  "sdk_deliver_one pool pull buyer asset outcome payer =
     (if ka_owner asset \<noteq> pool then Inl SdkInvalidAsset
      else Inr (sdk_instruction [21, outcome]
        [rw payer True, ro pool False, rw pull False, rw buyer False, rw (ka_address asset) False,
         ro (collection_or_core asset) False, ro CORE_ID False, ro SYSTEM False]))"

subsection \<open>Transactions\<close>

definition transaction_size :: "sdk_env \<Rightarrow> sdk_instruction list \<Rightarrow> pubkey \<Rightarrow> nat" where
  "transaction_size K instructions payer =
     (let message = sk_message K instructions payer in 1 + 64 * fst message + length (snd message))"

text \<open>
  The loop of \<open>batches\<close> with the finished groups (newest first) and the current one; the last
  statement drops empty groups.
\<close>

fun batch :: "sdk_env \<Rightarrow> pubkey \<Rightarrow> sdk_instruction list list \<Rightarrow> sdk_instruction list \<Rightarrow> sdk_instruction list
    \<Rightarrow> sdk_instruction list list sdk_result" where
  "batch K payer finished current [] = Inr (rev (current # finished))"
| "batch K payer finished current (i # is) =
     (if 1232 < transaction_size K (current @ [i]) payer
      then if 1232 < transaction_size K [i] payer then Inl SdkTransactionTooLarge
           else batch K payer (current # finished) [i] is
      else batch K payer finished (current @ [i]) is)"

definition batches :: "sdk_env \<Rightarrow> sdk_instruction list \<Rightarrow> sdk_instruction list \<Rightarrow> pubkey
    \<Rightarrow> sdk_instruction list list sdk_result" where
  "batches K initial instructions payer =
     (if 1232 < transaction_size K initial payer then Inl SdkTransactionTooLarge
      else and_then (batch K payer [] initial instructions) (\<lambda>groups.
        Inr (filter (\<lambda>group. group \<noteq> []) groups)))"

subsection \<open>Item and Pull\<close>

definition item_address_for :: "sdk_env \<Rightarrow> pubkey \<Rightarrow> u8 \<Rightarrow> u32 \<Rightarrow> pubkey \<times> u8" where
  "item_address_for K pool tier position =
     sk_find_program_address K [ITEM_SEED, to_le pool, [tier], to_le position] ID"

definition sdk_item_header :: "sdk_item \<Rightarrow> item" where
  "sdk_item_header i = decode_item (ki_data i)"

definition item_from_account :: "sdk_env \<Rightarrow> pubkey \<Rightarrow> pubkey \<Rightarrow> bytes \<Rightarrow> sdk_item sdk_result" where
  "item_from_account K address owner data =
     and_then (sdk_check owner data ITEM_LEN ITEM_VERSION) (\<lambda>_.
     if length data \<noteq> ITEM_LEN \<or> MAX_TIERS \<le> unat (data ! 2) then Inl SdkInvalidAccount
     else let item = \<lparr>ki_address = address, ki_data = data\<rparr>; h = sdk_item_header item in
       if item_address_for K (item_pool h) (item_tier h) (item_position h) \<noteq> (address, item_bump h)
       then Inl SdkInvalidAccount else Inr item)"

definition pull_address_for :: "sdk_env \<Rightarrow> pubkey \<Rightarrow> bytes32 \<Rightarrow> pubkey \<times> u8" where
  "pull_address_for K pool client_seed = sk_find_program_address K [PULL_SEED, to_le pool, to_le client_seed] ID"

definition sdk_pull_header :: "sdk_pull \<Rightarrow> pull" where
  "sdk_pull_header u = decode_pull (ku_data u)"

definition sdk_pull_status :: "sdk_pull \<Rightarrow> sdk_purchase_status" where
  "sdk_pull_status u = (if pull_status (sdk_pull_header u) = STATUS_PENDING then Pending else Settled)"

text \<open>\<open>(0..count).any(..)\<close> stops at the first outcome with an unknown tier; an index past the table panics.\<close>

fun bad_outcome :: "pull \<Rightarrow> nat list \<Rightarrow> bool sdk_result" where
  "bad_outcome u [] = Inr False"
| "bad_outcome u (i # is) =
     and_then (sdk_total (pull_outcome u i)) (\<lambda>(tier, asset).
     if tier \<noteq> DELIVERED \<and> MAX_TIERS \<le> unat tier then Inr True else bad_outcome u is)"

definition pull_from_account :: "sdk_env \<Rightarrow> pubkey \<Rightarrow> pubkey \<Rightarrow> bytes \<Rightarrow> sdk_pull sdk_result" where
  "pull_from_account K address owner data =
     and_then (sdk_check owner data PULL_LEN PULL_VERSION) (\<lambda>_.
     if length data \<noteq> PULL_LEN \<or> STATUS_SETTLED < data ! 2 \<or> \<not> (1 \<le> unat (data ! 3) \<and> unat (data ! 3) \<le> MAX_COUNT)
     then Inl SdkInvalidAccount
     else let pull = \<lparr>ku_address = address, ku_data = data\<rparr>; h = sdk_pull_header pull in
       if pull_address_for K (pull_pool h) (pull_client_seed h) \<noteq> (address, pull_bump h) then Inl SdkInvalidAccount
       else if sdk_pull_status pull = Settled
       then and_then (bad_outcome h [0..<unat (pull_count h)]) (\<lambda>bad. if bad then Inl SdkInvalidAccount else Inr pull)
       else Inr pull)"

definition sdk_alpha :: "sdk_env \<Rightarrow> sdk_pull \<Rightarrow> bytes32" where
  "sdk_alpha K u = sk_sha256 K (to_le (ku_address u) @ to_le (pull_client_seed (sdk_pull_header u)))"

definition sdk_outcomes :: "sdk_pull \<Rightarrow> sdk_outcome list sdk_result" where
  "sdk_outcomes u =
     (if sdk_pull_status u \<noteq> Settled then Inl SdkNotSettled
      else let h = sdk_pull_header u in
        map_res (\<lambda>i. and_then (sdk_total (pull_outcome h i)) (\<lambda>(tier, asset).
          Inr \<lparr>ko_asset = asset, ko_tier = (if tier \<noteq> DELIVERED then Some tier else None)\<rparr>)) [0..<unat (pull_count h)])"

text \<open>The index of an outcome among all outcomes is sent as a byte.\<close>

definition sdk_deliver :: "sdk_env \<Rightarrow> sdk_pull \<Rightarrow> sdk_asset list \<Rightarrow> pubkey \<Rightarrow> sdk_instruction list list sdk_result" where
  "sdk_deliver K u assets payer =
     and_then (sdk_outcomes u) (\<lambda>outcomes.
     let pending = filter (\<lambda>(i, o'). ko_tier o' \<noteq> None) (enumerate 0 outcomes); h = sdk_pull_header u in
     if length pending \<noteq> length assets then Inl SdkInvalidAsset
     else and_then (map_res (\<lambda>((i, outcome), asset).
         if ko_asset outcome \<noteq> ka_address asset then Inl SdkInvalidAsset
         else sdk_deliver_one (pull_pool h) (ku_address u) (pull_buyer h) asset (word_of_nat i) payer)
         (zip pending assets)) (\<lambda>instructions.
       batches K [] instructions payer))"

end
