(* ===== verification/Sdk_Pool.thy ===== *)
theory Sdk_Pool
  imports Sdk
begin

section \<open>gacha-rust: the pool\<close>

text \<open>
  \<open>CreatePool::instructions\<close>, the methods of \<open>Pool\<close> and \<open>Settlement\<close> of
  \<open>packages/gacha-rust/src/lib.rs\<close>, in the order of the file.
\<close>

subsection \<open>CreatePool and BuybackQuote\<close>

record sdk_create_pool =
  kc_id :: u64
  kc_price :: u64
  kc_deadline_slots :: u64
  kc_bond_per_draw :: u64
  kc_bond :: u64
  kc_weights :: "u32 list"

definition pool_address_for :: "sdk_env \<Rightarrow> pubkey \<Rightarrow> u64 \<Rightarrow> pubkey \<times> u8" where
  "pool_address_for K authority n = sk_find_program_address K [POOL_SEED, to_le authority, to_le n] ID"

text \<open>\<open>self.weights.get(i).copied().unwrap_or(0)\<close> for the eight slots.\<close>

definition weight_bytes :: "u32 list \<Rightarrow> bytes" where
  "weight_bytes ws = concat (map (\<lambda>i. to_le (if i < length ws then ws ! i else 0)) [0..<MAX_TIERS])"

definition sdk_create_pool_instructions ::
  "sdk_env \<Rightarrow> sdk_create_pool \<Rightarrow> pubkey \<Rightarrow> pubkey \<Rightarrow> pubkey \<Rightarrow> sdk_instruction list sdk_result" where
  "sdk_create_pool_instructions K c authority operator payment_mint =
     (if \<not> (1 \<le> length (kc_weights c) \<and> length (kc_weights c) \<le> MAX_TIERS) \<or> 0 \<in> set (kc_weights c) \<or>
        kc_price c = 0 \<or> kc_deadline_slots c = 0 \<or> kc_bond_per_draw c = 0 \<or>
        Option.bind (checked_add (kc_price c) (kc_bond_per_draw c)) (\<lambda>n. checked_mul n 10) = None \<or>
        \<not> sk_valid_key K operator
      then Inl SdkInvalidArgument
      else let (pool, bump) = pool_address_for K authority (kc_id c);
          data = [0] @ to_le (kc_id c) @ to_le (kc_price c) @ to_le (kc_deadline_slots c) @ to_le (kc_bond_per_draw c) @
            [word_of_nat (length (kc_weights c))] @ weight_bytes (kc_weights c) @ [bump];
          instructions = [create_ata K authority pool payment_mint,
            sdk_instruction data [rw authority True, rw pool False, ro operator False, ro payment_mint False,
              ro (sdk_ata K pool payment_mint) False, ro SYSTEM False]] in
        Inr (if 0 < kc_bond c
          then instructions @ [token_transfer (sdk_ata K authority payment_mint) (sdk_ata K pool payment_mint) authority (kc_bond c)]
          else instructions))"

record sdk_quote =
  kq_pool :: pubkey
  kq_asset :: pubkey
  kq_price :: u64
  kq_expires_at :: i64
  kq_tier :: u8

definition sdk_quote_message :: "sdk_quote \<Rightarrow> bytes" where
  "sdk_quote_message q = buyback_message (kq_pool q) (kq_asset q) (kq_price q) (kq_expires_at q) (kq_tier q)"

subsection \<open>The view of a pool\<close>

definition sdk_header :: "sdk_pool \<Rightarrow> pool" where
  "sdk_header P = decode_pool (kp_data P)"

definition sdk_tag :: "sdk_pool \<Rightarrow> u32 \<Rightarrow> u8 sdk_result" where
  "sdk_tag P position =
     (let i = POOL_LEN + unat position div INVENTORY_TAGS_PER_BLOCK * INVENTORY_BLOCK_LEN + INVENTORY_COUNTS_LEN +
        unat position mod INVENTORY_TAGS_PER_BLOCK in
      if i < length (kp_data P) then Inr (kp_data P ! i) else Inl SdkPanic)"

text \<open>\<open>0..n\<close> on \<open>u32\<close>.\<close>

definition positions_below :: "u32 \<Rightarrow> u32 list" where
  "positions_below n = map word_of_nat [0..<unat n]"

definition count_position :: "sdk_pool \<Rightarrow> u8 \<Rightarrow> u32 list \<Rightarrow> u32 \<Rightarrow> u32 list sdk_result" where
  "count_position P tier_count remaining position =
     and_then (sdk_tag P position) (\<lambda>tag.
     if tier_count < tag then Inl SdkInvalidAccount
     else if 0 < tag
     then if unat tag - 1 < length remaining
       then and_then (sdk_total (add_ov (remaining ! (unat tag - 1)) 1)) (\<lambda>n. Inr (remaining[unat tag - 1 := n]))
       else Inl SdkPanic
     else Inr remaining)"

definition pool_from_account :: "sdk_env \<Rightarrow> pubkey \<Rightarrow> pubkey \<Rightarrow> bytes \<Rightarrow> sdk_pool sdk_result" where
  "pool_from_account K address owner data =
     and_then (sdk_check owner data POOL_LEN POOL_VERSION) (\<lambda>_.
     let P = \<lparr>kp_address = address, kp_data = data\<rparr>; h = sdk_header P in
     if \<not> (1 \<le> unat (pool_tier_count h) \<and> unat (pool_tier_count h) \<le> MAX_TIERS) \<or> POOL_RETIRED < pool_status h \<or>
        (length data \<noteq> POOL_LEN \<and> length data \<noteq> POOL_LEN + inventory_space (pool_inventory_version h)) \<or>
        pool_address_for K (pool_authority h) (pool_id h) \<noteq> (address, pool_bump h) \<or>
        pool_vault h \<noteq> sdk_ata K address (pool_payment_mint h) \<or>
        pool_price h = 0 \<or> pool_bond_per_draw h = 0 \<or> pool_deadline_slots h = 0 \<or> isl (refund_amount h 10)
     then Inl SdkInvalidAccount
     else and_then (sdk_total (pool_tiers h)) (\<lambda>ts.
       if list_ex (\<lambda>t. tier_weight t = 0) ts then Inl SdkInvalidAccount
       else if POOL_LEN < length data
       then and_then (fold_res (count_position P (pool_tier_count h)) (replicate MAX_TIERS 0)
           (positions_below (pool_inventory_version h))) (\<lambda>remaining.
         if list_ex (\<lambda>(t, n). tier_remaining t \<noteq> n) (zip ts remaining) then Inl SdkInvalidAccount else Inr P)
       else Inr P))"

definition sdk_tiers :: "sdk_pool \<Rightarrow> (u32 \<times> u32) list sdk_result" where
  "sdk_tiers P = and_then (sdk_total (pool_tiers (sdk_header P))) (\<lambda>ts. Inr (map (\<lambda>t. (tier_weight t, tier_remaining t)) ts))"

definition sdk_status :: "sdk_pool \<Rightarrow> sdk_pool_status" where
  "sdk_status P =
     (if pool_status (sdk_header P) = POOL_PAUSED then Paused
      else if pool_status (sdk_header P) = POOL_ACTIVE then Active else Retired)"

primrec status_byte :: "sdk_pool_status \<Rightarrow> u8" where
  "status_byte Paused = POOL_PAUSED"
| "status_byte Active = POOL_ACTIVE"
| "status_byte Retired = POOL_RETIRED"

subsection \<open>The instructions of a pool\<close>

definition sdk_set_status :: "sdk_pool \<Rightarrow> sdk_pool_status \<Rightarrow> sdk_instruction sdk_result" where
  "sdk_set_status P status =
     (if sdk_status P = Retired \<and> status \<noteq> Retired then Inl SdkInvalidPoolStatus
      else Inr (sdk_instruction [3, status_byte status]
        [ro (pool_authority (sdk_header P)) True, rw (kp_address P) False]))"

definition sdk_spendable_balance :: "sdk_pool \<Rightarrow> u64 \<Rightarrow> u64 sdk_result" where
  "sdk_spendable_balance P vault_balance =
     and_then (sdk_err SdkInvalidAccount (refund_amount (sdk_header P) (pool_pending_draws (sdk_header P)))) (\<lambda>reserved.
     Inr (saturating_sub vault_balance reserved))"

definition sdk_available_draws :: "sdk_pool \<Rightarrow> u64 \<Rightarrow> u8 sdk_result" where
  "sdk_available_draws P vault_balance =
     (if sdk_status P \<noteq> Active then Inr 0
      else let h = sdk_header P in
        and_then (sdk_total (remaining_total h)) (\<lambda>remaining.
        and_then (ok_or (checked_sub remaining (pool_pending_draws h)) SdkInvalidAccount) (\<lambda>stock.
        and_then (sdk_spendable_balance P vault_balance) (\<lambda>spendable.
        if pool_bond_per_draw h = 0 then Inl SdkPanic
        else let funded = spendable div pool_bond_per_draw h in
          Inr (ucast (min (min stock funded) 10))))))"

record sdk_buy_order =
  kb_buyer :: pubkey
  kb_count :: u8
  kb_client_seed :: bytes32

record sdk_purchase =
  kr_pull :: pubkey
  kr_instruction :: sdk_instruction

definition sdk_buy :: "sdk_env \<Rightarrow> sdk_pool \<Rightarrow> sdk_buy_order \<Rightarrow> sdk_purchase sdk_result" where
  "sdk_buy K P b =
     (if sdk_status P \<noteq> Active then Inl SdkInvalidPoolStatus
      else if \<not> (1 \<le> unat (kb_count b) \<and> unat (kb_count b) \<le> MAX_COUNT) then Inl SdkInvalidArgument
      else let h = sdk_header P; (pull, bump) = pull_address_for K (kp_address P) (kb_client_seed b);
          data = [10, kb_count b] @ to_le (kb_client_seed b) @ to_le (pool_inventory_version h) @ [bump] in
        Inr \<lparr>kr_pull = pull, kr_instruction = sdk_instruction data
          [rw (kb_buyer b) True, rw (kp_address P) False, rw pull False,
           rw (sdk_ata K (kb_buyer b) (pool_payment_mint h)) False, rw (pool_vault h) False,
           ro TOKEN False, ro SYSTEM False]\<rparr>)"

definition sdk_deposit :: "sdk_env \<Rightarrow> sdk_pool \<Rightarrow> u8 \<Rightarrow> sdk_asset \<Rightarrow> sdk_instruction sdk_result" where
  "sdk_deposit K P tier asset =
     (let h = sdk_header P in
      if sdk_status P = Retired then Inl SdkInvalidPoolStatus
      else if pool_tier_count h \<le> tier then Inl SdkInvalidArgument
      else if ka_owner asset \<noteq> pool_authority h then Inl SdkInvalidAsset
      else let (item, bump) = item_address_for K (kp_address P) tier (pool_inventory_version h) in
        Inr (sdk_instruction [1, tier, bump]
          [rw (pool_authority h) True, rw (kp_address P) False, rw item False, rw (ka_address asset) False,
           ro (collection_or_core asset) False, ro CORE_ID False, ro SYSTEM False]))"

text \<open>\<open>expires_at\<close> is a signed integer.\<close>

definition sdk_buyback :: "sdk_env \<Rightarrow> sdk_pool \<Rightarrow> sdk_quote \<Rightarrow> bytes \<Rightarrow> sdk_asset \<Rightarrow> pubkey
    \<Rightarrow> sdk_instruction list sdk_result" where
  "sdk_buyback K P q signature asset payer =
     (let h = sdk_header P in
      if sdk_status P \<noteq> Active then Inl SdkInvalidPoolStatus
      else if kq_pool q \<noteq> kp_address P then Inl SdkWrongPool
      else if pool_tier_count h \<le> kq_tier q \<or> kq_price q = 0 \<or> sint (kq_expires_at q) \<le> 0 then Inl SdkInvalidArgument
      else if kq_asset q \<noteq> ka_address asset \<or> ka_owner asset = kp_address P then Inl SdkInvalidAsset
      else let (item, bump) = item_address_for K (kp_address P) (kq_tier q) (pool_inventory_version h);
          data = [12, kq_tier q] @ to_le (kq_price q) @ to_le (kq_expires_at q) @ signature @ [bump] in
        Inr [create_ata K payer (ka_owner asset) (pool_payment_mint h),
          sdk_instruction data
            [rw payer True, ro (ka_owner asset) True, rw (kp_address P) False, rw item False, rw (ka_address asset) False,
             ro (collection_or_core asset) False, rw (pool_vault h) False,
             rw (sdk_ata K (ka_owner asset) (pool_payment_mint h)) False,
             ro CORE_ID False, ro TOKEN False, ro SYSTEM False]])"

definition sdk_reclaim :: "sdk_pool \<Rightarrow> sdk_item \<Rightarrow> sdk_asset \<Rightarrow> sdk_instruction sdk_result" where
  "sdk_reclaim P i asset =
     (let h = sdk_header P; it = sdk_item_header i in
      if sdk_status P \<noteq> Retired then Inl SdkInvalidPoolStatus
      else if pool_pending_draws h \<noteq> 0 then Inl SdkPendingPurchases
      else if item_pool it \<noteq> kp_address P \<or> pool_tier_count h \<le> item_tier it \<or>
        pool_inventory_version h \<le> item_position it \<or> item_asset it \<noteq> ka_address asset
      then Inl SdkInvalidItem
      else if ka_owner asset \<noteq> kp_address P then Inl SdkInvalidAsset
      else Inr (sdk_instruction [4]
        [rw (pool_authority h) True, rw (kp_address P) False, rw (ki_address i) False, rw (ka_address asset) False,
         ro (collection_or_core asset) False, ro CORE_ID False, ro SYSTEM False]))"

definition sdk_withdraw :: "sdk_pool \<Rightarrow> pubkey \<Rightarrow> u64 \<Rightarrow> sdk_instruction" where
  "sdk_withdraw P destination amount =
     (let h = sdk_header P in
      sdk_instruction (2 # to_le amount)
        [ro (pool_authority h) True, ro (kp_address P) False, rw (pool_vault h) False, rw destination False,
         ro TOKEN False])"

definition sdk_pending :: "sdk_pool \<Rightarrow> sdk_pull \<Rightarrow> unit sdk_result" where
  "sdk_pending P u =
     (let h = sdk_header P; v = sdk_pull_header u in
      if pull_pool v \<noteq> kp_address P then Inl SdkWrongPool
      else if sdk_pull_status u \<noteq> Pending then Inl SdkNotPending
      else if pull_index v \<noteq> pool_next_settle h then Inl SdkNotNextInQueue
      else if pool_inventory_version h < pull_inventory_version v then Inl SdkInvalidAccount
      else Inr ())"

definition sdk_refund :: "sdk_env \<Rightarrow> sdk_pool \<Rightarrow> sdk_pull \<Rightarrow> pubkey \<Rightarrow> sdk_instruction list sdk_result" where
  "sdk_refund K P u payer =
     and_then (sdk_pending P u) (\<lambda>_.
     let h = sdk_header P; buyer = pull_buyer (sdk_pull_header u) in
     Inr [create_ata K payer buyer (pool_payment_mint h),
       sdk_instruction [11]
         [rw (kp_address P) False, rw (ku_address u) False, rw buyer False, rw (pool_vault h) False,
          rw (sdk_ata K buyer (pool_payment_mint h)) False, ro TOKEN False]])"

subsection \<open>The replay of a settlement\<close>

record sdk_settlement =
  ks_pool :: pubkey
  ks_pull :: pubkey
  ks_buyer :: pubkey
  ks_operator :: pubkey
  ks_proof :: bytes
  ks_draws :: "sdk_draw list"

text \<open>The candidates of every tier, in the order of their positions.\<close>

definition add_candidate :: "sdk_pool \<Rightarrow> u32 list list \<Rightarrow> u32 \<Rightarrow> u32 list list sdk_result" where
  "add_candidate P candidates position =
     and_then (sdk_tag P position) (\<lambda>tag.
     if 0 < tag
     then if unat tag - 1 < length candidates
       then Inr (candidates[unat tag - 1 := candidates ! (unat tag - 1) @ [position]])
       else Inl SdkPanic
     else Inr candidates)"

definition candidate_counts :: "u32 list list \<Rightarrow> u32 list" where
  "candidate_counts candidates =
     map (\<lambda>entries. word_of_nat (length entries)) candidates @ replicate (MAX_TIERS - length candidates) 0"

definition remove_nth :: "nat \<Rightarrow> 'a list \<Rightarrow> 'a list" where
  "remove_nth n xs = take n xs @ drop (Suc n) xs"

text \<open>
  One draw: \<open>counts[t]\<close> panics past \<open>MAX_TIERS\<close>, \<open>candidates[tier]\<close> and \<open>remove(rank)\<close> past their
  lengths.
\<close>

fun replay_draws :: "sdk_env \<Rightarrow> sdk_pool \<Rightarrow> bytes \<Rightarrow> u32 list list \<Rightarrow> nat list \<Rightarrow> sdk_draw list sdk_result" where
  "replay_draws K P beta candidates [] = Inr []"
| "replay_draws K P beta candidates (i # is) =
     (if MAX_TIERS < length candidates then Inl SdkPanic
      else and_then (sdk_err SdkInvalidAccount
        (pool_draw (sdk_header P) (sk_sha256 K (beta @ [word_of_nat i])) (candidate_counts candidates))) (\<lambda>(tier, rank).
      if length candidates \<le> unat tier \<or> length (candidates ! unat tier) \<le> unat rank then Inl SdkPanic
      else let position = candidates ! unat tier ! unat rank in
        and_then (replay_draws K P beta
          (candidates[unat tier := remove_nth (unat rank) (candidates ! unat tier)]) is) (\<lambda>draws.
        Inr (\<lparr>kd_tier = tier, kd_position = position,
          kd_item = fst (item_address_for K (kp_address P) tier position)\<rparr> # draws))))"

definition sdk_settle :: "sdk_env \<Rightarrow> sdk_pool \<Rightarrow> sdk_pull \<Rightarrow> bytes \<Rightarrow> sdk_settlement sdk_result" where
  "sdk_settle K P u proof_bytes =
     and_then (sdk_pending P u) (\<lambda>_.
     let h = sdk_header P; v = sdk_pull_header u in
     if length (kp_data P) \<noteq> POOL_LEN + inventory_space (pool_inventory_version h) then Inl SdkMissingInventory
     else and_then (ok_or (sk_proof_verify K proof_bytes (pool_operator h) (sdk_alpha K u)) SdkInvalidProof) (\<lambda>beta.
       and_then (fold_res (add_candidate P) (replicate (unat (pool_tier_count h)) [])
         (positions_below (pull_inventory_version v))) (\<lambda>candidates.
       and_then (replay_draws K P beta candidates [0..<unat (pull_count v)]) (\<lambda>draws.
       Inr \<lparr>ks_pool = kp_address P, ks_pull = ku_address u, ks_buyer = pull_buyer v,
         ks_operator = pool_operator h, ks_proof = proof_bytes, ks_draws = draws\<rparr>))))"

definition settlement_instruction :: "sdk_settlement \<Rightarrow> sdk_instruction" where
  "settlement_instruction S =
     sdk_instruction (20 # ks_proof S)
       ([rw (ks_operator S) False, rw (ks_pool S) False, rw (ks_pull S) False] @
        map (\<lambda>d. rw (kd_item d) False) (ks_draws S))"

definition settlement_instructions :: "sdk_env \<Rightarrow> sdk_settlement \<Rightarrow> sdk_item list \<Rightarrow> sdk_asset list \<Rightarrow> pubkey
    \<Rightarrow> sdk_instruction list list sdk_result" where
  "settlement_instructions K S items assets payer =
     (if length items \<noteq> length (ks_draws S) \<or> list_ex (\<lambda>(item, d). ki_address item \<noteq> kd_item d) (zip items (ks_draws S))
      then Inl SdkInvalidItem
      else if length assets \<noteq> length items then Inl SdkInvalidAsset
      else and_then (map_res (\<lambda>(i, item, asset).
          if item_asset (sdk_item_header item) \<noteq> ka_address asset then Inl SdkInvalidAsset
          else sdk_deliver_one (ks_pool S) (ks_pull S) (ks_buyer S) asset (word_of_nat i) payer)
          (enumerate 0 (zip items assets))) (\<lambda>instructions.
        batches K [settlement_instruction S] instructions payer))"

end
