(* ===== verification/Client.thy ===== *)
theory Client
  imports Sdk_Pool
begin

section \<open>gacha-rust: the RPC client\<close>

text \<open>
  \<open>packages/gacha-rust/src/rpc.rs\<close>: the read-only client that fetches accounts and composes the SDK's
  operations. The node is a parameter: it answers a request knowing all requests so far, in any way
  it likes, so the answers need not be consistent. An account of an answer carries an owner that may
  not parse and data that may not decode. A client operation maps the requests made so far, the
  newest first, to its result and the requests then. The commitment and the encoding are the same in
  every request.
\<close>

record rpc_request =
  rq_keys :: "pubkey list"
  rq_minimum :: "u64 option"
  rq_length :: "nat option"

record rpc_account =
  ra_owner :: "pubkey option"
  ra_data :: "bytes option"

record rpc_response =
  rs_slot :: u64
  rs_value :: "rpc_account option list"

datatype rpc_error =
    Transport
  | Account sdk_error
  | MissingAccount pubkey

type_synonym rpc_node = "rpc_request list \<Rightarrow> rpc_error + rpc_response"
type_synonym 'a client = "rpc_request list \<Rightarrow> (rpc_error + 'a) \<times> rpc_request list"

subsection \<open>Composition\<close>

definition client_bind :: "'a client \<Rightarrow> ('a \<Rightarrow> 'b client) \<Rightarrow> 'b client" where
  "client_bind m f = (\<lambda>log. case m log of (Inl e, log') \<Rightarrow> (Inl e, log') | (Inr x, log') \<Rightarrow> f x log')"

text \<open>\<open>?\<close> on a result without requests, and \<open>Into\<close> for the SDK's errors.\<close>

definition lift_rpc :: "rpc_error + 'a \<Rightarrow> 'a client" where
  "lift_rpc r = (\<lambda>log. (r, log))"

definition lift_sdk :: "'a sdk_result \<Rightarrow> 'a client" where
  "lift_sdk r = lift_rpc (case r of Inl e \<Rightarrow> Inl (Account e) | Inr x \<Rightarrow> Inr x)"

subsection \<open>read\<close>

definition read_account :: "pubkey \<times> rpc_account option \<Rightarrow> rpc_error + (pubkey \<times> bytes)" where
  "read_account entry =
     (case snd entry of
        None \<Rightarrow> Inl (MissingAccount (fst entry))
      | Some account \<Rightarrow>
          (case ra_owner account of
             None \<Rightarrow> Inl (Account SdkInvalidAccount)
           | Some owner \<Rightarrow>
               (case ra_data account of None \<Rightarrow> Inl (Account SdkInvalidAccount) | Some data \<Rightarrow> Inr (owner, data))))"

definition too_old :: "u64 option \<Rightarrow> u64 \<Rightarrow> bool" where
  "too_old minimum slot = (case minimum of None \<Rightarrow> False | Some m \<Rightarrow> slot < m)"

definition client_read :: "rpc_node \<Rightarrow> pubkey list \<Rightarrow> u64 option \<Rightarrow> nat option \<Rightarrow> (u64 \<times> (pubkey \<times> bytes) list) client" where
  "client_read node keys minimum len = (\<lambda>log.
     let log = \<lparr>rq_keys = keys, rq_minimum = minimum, rq_length = len\<rparr> # log in
     case node log of
       Inl e \<Rightarrow> (Inl e, log)
     | Inr response \<Rightarrow>
         if length (rs_value response) \<noteq> length keys \<or> too_old minimum (rs_slot response)
         then (Inl (Account SdkInvalidAccount), log)
         else (case map_res read_account (zip keys (rs_value response)) of
             Inl e \<Rightarrow> (Inl e, log)
           | Inr accounts \<Rightarrow> (Inr (rs_slot response, accounts), log)))"

text \<open>\<open>accounts[i]\<close>.\<close>

definition account_at :: "'a list \<Rightarrow> nat \<Rightarrow> 'a client" where
  "account_at xs i = lift_sdk (if i < length xs then Inr (xs ! i) else Inl SdkPanic)"

subsection \<open>Fetching one account\<close>

definition fetch_with :: "rpc_node \<Rightarrow> (pubkey \<Rightarrow> pubkey \<Rightarrow> bytes \<Rightarrow> 'a sdk_result) \<Rightarrow> pubkey \<Rightarrow> 'a client" where
  "fetch_with node from_account address =
     client_bind (client_read node [address] None None) (\<lambda>(_, accounts).
     client_bind (account_at accounts 0) (\<lambda>(owner, data).
     lift_sdk (from_account address owner data)))"

definition fetch_pool :: "rpc_node \<Rightarrow> sdk_env \<Rightarrow> pubkey \<Rightarrow> sdk_pool client" where
  "fetch_pool node K = fetch_with node (pool_from_account K)"

definition fetch_pull :: "rpc_node \<Rightarrow> sdk_env \<Rightarrow> pubkey \<Rightarrow> sdk_pull client" where
  "fetch_pull node K = fetch_with node (pull_from_account K)"

definition fetch_item :: "rpc_node \<Rightarrow> sdk_env \<Rightarrow> pubkey \<Rightarrow> sdk_item client" where
  "fetch_item node K = fetch_with node (item_from_account K)"

definition client_assets :: "rpc_node \<Rightarrow> pubkey list \<Rightarrow> u64 option \<Rightarrow> sdk_asset list client" where
  "client_assets node keys minimum =
     (if keys = [] then lift_rpc (Inr [])
      else client_bind (client_read node keys minimum (Some 66)) (\<lambda>(_, accounts).
        lift_sdk (map_res (\<lambda>(key, owner, data). asset_from_account key owner data) (zip keys accounts))))"

text \<open>\<open>remove(0)\<close>.\<close>

definition fetch_asset :: "rpc_node \<Rightarrow> pubkey \<Rightarrow> sdk_asset client" where
  "fetch_asset node address = client_bind (client_assets node [address] None) (\<lambda>assets. account_at assets 0)"

subsection \<open>Composed operations\<close>

definition client_buy :: "rpc_node \<Rightarrow> sdk_env \<Rightarrow> pubkey \<Rightarrow> sdk_buy_order \<Rightarrow> sdk_purchase client" where
  "client_buy node K pool b =
     client_bind (client_read node [pool] None (Some POOL_LEN)) (\<lambda>(_, accounts).
     client_bind (account_at accounts 0) (\<lambda>(owner, data).
     client_bind (lift_sdk (pool_from_account K pool owner data)) (\<lambda>P. lift_sdk (sdk_buy K P b))))"

definition client_buyback :: "rpc_node \<Rightarrow> sdk_env \<Rightarrow> sdk_quote \<Rightarrow> bytes \<Rightarrow> pubkey \<Rightarrow> sdk_instruction list client" where
  "client_buyback node K q signature payer =
     client_bind (client_read node [kq_pool q, kq_asset q] None (Some POOL_LEN)) (\<lambda>(_, accounts).
     client_bind (account_at accounts 0) (\<lambda>(owner, data).
     client_bind (lift_sdk (pool_from_account K (kq_pool q) owner data)) (\<lambda>P.
     client_bind (account_at accounts 1) (\<lambda>(asset_owner, asset_data).
     client_bind (lift_sdk (asset_from_account (kq_asset q) asset_owner asset_data)) (\<lambda>asset.
     lift_sdk (sdk_buyback K P q signature asset payer))))))"

text \<open>Without the inventory, both slices are as long as a pull and only the pool's header is decoded.\<close>

definition client_snapshot :: "rpc_node \<Rightarrow> sdk_env \<Rightarrow> pubkey \<Rightarrow> bool \<Rightarrow> (sdk_pool \<times> sdk_pull \<times> u64) client" where
  "client_snapshot node K address inventory =
     client_bind (client_read node [address] None None) (\<lambda>(slot, accounts).
     client_bind (account_at accounts 0) (\<lambda>(owner, data).
     client_bind (lift_sdk (pull_from_account K address owner data)) (\<lambda>discovered.
     let pool_key = pull_pool (sdk_pull_header discovered); len = (if inventory then None else Some PULL_LEN) in
     client_bind (client_read node [pool_key, address] (Some slot) len) (\<lambda>(slot, accounts).
     client_bind (account_at accounts 0) (\<lambda>(pool_owner, pool_data).
     client_bind (lift_sdk (if inventory then Inr pool_data
         else if POOL_LEN \<le> length pool_data then Inr (take POOL_LEN pool_data) else Inl SdkInvalidAccount)) (\<lambda>pool_data.
     client_bind (lift_sdk (pool_from_account K pool_key pool_owner pool_data)) (\<lambda>P.
     client_bind (account_at accounts 1) (\<lambda>(pull_owner, pull_data).
     client_bind (lift_sdk (pull_from_account K address pull_owner pull_data)) (\<lambda>u.
     lift_rpc (Inr (P, u, slot)))))))))))"

definition client_refund :: "rpc_node \<Rightarrow> sdk_env \<Rightarrow> pubkey \<Rightarrow> pubkey \<Rightarrow> sdk_instruction list client" where
  "client_refund node K address payer =
     client_bind (client_snapshot node K address False) (\<lambda>(P, u, _). lift_sdk (sdk_refund K P u payer))"

definition client_deliver :: "rpc_node \<Rightarrow> sdk_env \<Rightarrow> pubkey \<Rightarrow> pubkey \<Rightarrow> sdk_instruction list list client" where
  "client_deliver node K address payer =
     client_bind (client_read node [address] None None) (\<lambda>(slot, accounts).
     client_bind (account_at accounts 0) (\<lambda>(owner, data).
     client_bind (lift_sdk (pull_from_account K address owner data)) (\<lambda>u.
     client_bind (lift_sdk (sdk_outcomes u)) (\<lambda>outcomes.
     let keys = map ko_asset (filter (\<lambda>o'. ko_tier o' \<noteq> None) outcomes) in
     client_bind (client_assets node keys (Some slot)) (\<lambda>assets.
     lift_sdk (sdk_deliver K u assets payer))))))"

definition client_settle :: "rpc_node \<Rightarrow> sdk_env \<Rightarrow> pubkey \<Rightarrow> bytes \<Rightarrow> pubkey \<Rightarrow> sdk_instruction list list client" where
  "client_settle node K address proof_bytes payer =
     client_bind (client_snapshot node K address True) (\<lambda>(P, u, slot).
     client_bind (lift_sdk (sdk_settle K P u proof_bytes)) (\<lambda>S.
     let keys = map kd_item (ks_draws S) in
     client_bind (client_read node keys (Some slot) None) (\<lambda>(slot, accounts).
     client_bind (lift_sdk (map_res (\<lambda>(key, owner, data). item_from_account K key owner data) (zip keys accounts))) (\<lambda>items.
     let keys = map (\<lambda>item. item_asset (sdk_item_header item)) items in
     client_bind (client_assets node keys (Some slot)) (\<lambda>assets.
     lift_sdk (settlement_instructions K S items assets payer))))))"

end
