(* ===== verification/Sdk_Replay.thy ===== *)
theory Sdk_Replay
  imports Sdk_Pool Operator_Correct
begin

section \<open>The host replays the draws of the chain\<close>

text \<open>
  \<open>Pool::settle\<close> of the SDK scans the tags of a complete snapshot and removes the drawn positions
  from lists; the program counts with the Fenwick index. Both are the reference draw, so the plan of
  the host names the positions, tiers and Item accounts that the chain will draw.
\<close>

subsection \<open>A snapshot of a pool and its tags\<close>

definition snapshot :: "sdk_pool \<Rightarrow> pool \<Rightarrow> u8 list \<Rightarrow> bool" where
  "snapshot P p tags \<longleftrightarrow> sdk_header P = p \<and> pool_valid p \<and>
     length (kp_data P) = POOL_LEN + inventory_space (pool_inventory_version p) \<and>
     length tags = unat (pool_inventory_version p) \<and> tags_ok (drop POOL_LEN (kp_data P)) tags \<and>
     (\<forall>x \<in> set tags. unat x \<le> unat (pool_tier_count p))"

lemma tag_count_bound:
  assumes "pool_ok L A tags" "x \<in> set tags"
  shows "unat x \<le> unat (pool_tier_count (pool_at L A))"
proof (rule ccontr)
  assume "\<not> ?thesis"
  then have big: "unat (pool_tier_count (pool_at L A)) < unat x" by simp
  have "unat x \<le> 8" using pool_okD(3) [OF assms(1)] assms(2) by (simp add: index_rep_def index_inv_def)
  then obtain t where t: "t < 8" "x = tier_tag t" using tag_cases [of x] big by auto
  then have "\<not> t < unat (pool_tier_count (pool_at L A))" using big by simp
  then have "count_list tags x = 0" using assms(1) t by (simp add: pool_ok_def)
  then show False using assms(2) by (simp add: count_list_0_iff)
qed

lemma snapshot_of_ledger:
  assumes "pool_ok L A tags" "kp_data P = data_of L A"
  shows "snapshot P (pool_at L A) tags"
  using assms tag_count_bound [OF assms(1)] pool_okD(1-4,6) [OF assms(1)]
  by (simp add: snapshot_def sdk_header_def pool_at_def index_rep_def index_inv_def index_at_def)

lemma snapshotD:
  assumes "snapshot P p tags"
  shows "sdk_header P = p" "pool_valid p" "length tags < 2 ^ 32" "unat (pool_tier_count p) \<le> 8"
    "\<And>x. x \<in> set tags \<Longrightarrow> unat x \<le> unat (pool_tier_count p)"
  using assms unat_u32_bound [of "pool_inventory_version p"] by (simp_all add: snapshot_def pool_valid_def)

lemma sdk_tag_snapshot:
  assumes "snapshot P p tags" "q < length tags"
  shows "sdk_tag P (word_of_nat q) = Inr (tags ! q)"
proof -
  let ?d = "drop POOL_LEN (kp_data P)"
  have un: "unat (word_of_nat q :: u32) = q" using assms(2) snapshotD(3) [OF assms(1)] by (simp add: unat_of_nat)
  have ok: "tags_ok ?d tags" and len: "length tags = unat (pool_inventory_version p)"
    "length (kp_data P) = POOL_LEN + inventory_space (pool_inventory_version p)"
    using assms(1) by (simp_all add: snapshot_def)
  then have blk: "q < 64 * index_blocks ?d" using assms(2) by (simp add: tags_ok_def)
  then have d: "?d ! tag_index q = tags ! q" using ok assms(2) by (simp add: tags_ok_def)
  have "tag_index q < length ?d" using blk by (rule tag_index_less)
  then have "POOL_LEN + tag_index q < length (kp_data P)" by simp
  moreover have "kp_data P ! (POOL_LEN + tag_index q) = tags ! q" using d len(2) by simp
  ultimately show ?thesis by (simp add: sdk_tag_def tag_index_def un Let_def algebra_simps)
qed

subsection \<open>The candidates\<close>

definition candidates_of :: "nat \<Rightarrow> u8 list \<Rightarrow> u32 list list" where
  "candidates_of n xs = map (\<lambda>t. map word_of_nat (available xs t)) [0..<n]"

lemma candidates_step:
  assumes "n \<le> 8" "unat x \<le> n"
  shows "candidates_of n (xs @ [x]) =
    (if x = 0 then candidates_of n xs
     else (candidates_of n xs)[unat x - 1 := candidates_of n xs ! (unat x - 1) @ [word_of_nat (length xs)]])"
proof (cases "x = 0")
  case True
  then have "x \<noteq> tier_tag t" if "t < n" for t using that assms(1) by simp
  then show ?thesis using True by (simp add: candidates_of_def available_snoc)
next
  case False
  then obtain k where k: "k < 8" "x = tier_tag k" "unat x - 1 = k" using tag_cases [of x] assms by auto
  then have kn: "k < n" using assms(2) by simp
  show ?thesis
  proof (rule nth_equalityI)
    fix t assume "t < length (candidates_of n (xs @ [x]))"
    then have "t < n" by (simp add: candidates_of_def)
    moreover have "x = tier_tag t \<longleftrightarrow> k = t" using \<open>t < n\<close> k assms(1) by simp
    ultimately show "candidates_of n (xs @ [x]) ! t = (if x = 0 then candidates_of n xs
        else (candidates_of n xs)[unat x - 1 := candidates_of n xs ! (unat x - 1) @ [word_of_nat (length xs)]]) ! t"
      using False k(3) kn by (simp add: candidates_of_def available_snoc nth_list_update)
  qed (simp add: candidates_of_def False)
qed

lemma candidates_scan:
  assumes s: "snapshot P p tags" and c: "c \<le> length tags"
  shows "fold_res (add_candidate P) (replicate (unat (pool_tier_count p)) []) (map word_of_nat [0..<c]) =
    Inr (candidates_of (unat (pool_tier_count p)) (take c tags))"
  using c
proof (induction c)
  case 0
  show ?case by (simp add: candidates_of_def available_def map_replicate_const)
next
  case (Suc c)
  let ?n = "unat (pool_tier_count p)" and ?x = "tags ! c"
  have lt: "c < length tags" using Suc.prems by simp
  have x: "unat ?x \<le> ?n" using snapshotD(5) [OF s, of ?x] lt by simp
  have take: "take (Suc c) tags = take c tags @ [?x]" using lt by (rule take_Suc_conv_app_nth)
  have add: "add_candidate P (candidates_of ?n (take c tags)) (word_of_nat c) =
      Inr (candidates_of ?n (take (Suc c) tags))"
  proof (cases "?x = 0")
    case True
    then show ?thesis
      unfolding take using candidates_step [OF snapshotD(4) [OF s] x, of "take c tags"]
      by (simp add: add_candidate_def sdk_tag_snapshot [OF s lt])
  next
    case False
    then have "0 < unat ?x" by (simp add: unat_gt_0)
    then have "unat ?x - 1 < length (candidates_of ?n (take c tags))" using x by (simp add: candidates_of_def)
    then show ?thesis
      unfolding take using False candidates_step [OF snapshotD(4) [OF s] x, of "take c tags"] lt
      by (simp add: add_candidate_def sdk_tag_snapshot [OF s lt] word_gt_0)
  qed
  show ?case using Suc.IH lt add by (simp add: fold_res_append)
qed

lemma candidate_counts_of:
  assumes "n \<le> 8" "\<forall>x \<in> set tags. unat x \<le> n"
  shows "candidate_counts (candidates_of n (take c tags)) = prefix_words tags c"
proof (rule nth_equalityI)
  fix t assume "t < length (candidate_counts (candidates_of n (take c tags)))"
  then have t: "t < 8" using assms(1) by (simp add: candidate_counts_def candidates_of_def)
  have count: "length (available (take c tags) t) = prefix_count tags t c" by (simp add: prefix_count_def)
  have "prefix_count tags t c = 0" if "\<not> t < n"
  proof -
    have "\<not> unat (tier_tag t) \<le> n" using that t by simp
    then have "tier_tag t \<notin> set (take c tags)" using assms(2) in_set_takeD by fast
    then show ?thesis by (simp add: prefix_count_def count_list_0_iff)
  qed
  then show "candidate_counts (candidates_of n (take c tags)) ! t = prefix_words tags c ! t"
    using t count assms(1)
    by (simp add: candidate_counts_def candidates_of_def prefix_words_def nth_append del: upt_conv_Cons length_available)
qed (use assms(1) in \<open>simp add: candidate_counts_def candidates_of_def\<close>)

subsection \<open>Removing a drawn position\<close>

lemma available_cleared:
  assumes "p < length xs"
  shows "available (xs[p := 0]) t = (if t < 8 then filter (\<lambda>q. q \<noteq> p) (available xs t) else available (xs[p := 0]) t)"
  using assms by (auto simp: available_def nth_list_update intro!: filter_cong)

lemma remove_nth_filter:
  assumes "distinct xs" "r < length xs"
  shows "remove_nth r xs = filter (\<lambda>q. q \<noteq> xs ! r) xs"
proof -
  have xs: "xs = take r xs @ xs ! r # drop (Suc r) xs" using assms(2) by (rule id_take_nth_drop)
  then have d: "distinct (take r xs @ xs ! r # drop (Suc r) xs)" using assms(1) by simp
  have "filter (\<lambda>q. q \<noteq> xs ! r) xs = filter (\<lambda>q. q \<noteq> xs ! r) (take r xs @ xs ! r # drop (Suc r) xs)" using xs by simp
  also have "\<dots> = take r xs @ drop (Suc r) xs"
  proof -
    have "filter (\<lambda>q. q \<noteq> xs ! r) (take r xs) = take r xs" "filter (\<lambda>q. q \<noteq> xs ! r) (drop (Suc r) xs) = drop (Suc r) xs"
      by (rule filter_True, use d in auto)+
    then show ?thesis by simp
  qed
  finally show ?thesis by (simp add: remove_nth_def)
qed

lemma remove_nth_map: "remove_nth r (map f xs) = map f (remove_nth r xs)"
  by (simp add: remove_nth_def take_map drop_map)

lemma candidates_remove:
  assumes n: "n \<le> 8" and t: "t < n" and r: "r < length (available xs t)" and p: "p = available xs t ! r"
  shows "(candidates_of n xs)[t := remove_nth r (candidates_of n xs ! t)] = candidates_of n (xs[p := 0])"
proof (rule nth_equalityI)
  have dist: "distinct (available xs t')" for t' by (simp add: available_def)
  have px: "p < length xs" "xs ! p = tier_tag t" using available_nth [of r xs t] r p by simp_all
  fix t' assume "t' < length ((candidates_of n xs)[t := remove_nth r (candidates_of n xs ! t)])"
  then have t': "t' < n" by (simp add: candidates_of_def)
  have cleared: "available (xs[p := 0]) t' = filter (\<lambda>q. q \<noteq> p) (available xs t')"
    using available_cleared [OF px(1), of t'] t' n by simp
  show "(candidates_of n xs)[t := remove_nth r (candidates_of n xs ! t)] ! t' = candidates_of n (xs[p := 0]) ! t'"
  proof (cases "t' = t")
    case True
    then show ?thesis
      using t cleared remove_nth_filter [OF dist r] p by (simp add: candidates_of_def remove_nth_map)
  next
    case False
    then have "filter (\<lambda>q. q \<noteq> p) (available xs t') = available xs t'"
      using px t' t n by (intro filter_True) (auto simp: available_def)
    then show ?thesis using False t' cleared by (simp add: candidates_of_def)
  qed
qed (simp add: candidates_of_def)

subsection \<open>The draws\<close>

definition plan :: "sdk_env \<Rightarrow> pubkey \<Rightarrow> u8 \<times> nat \<Rightarrow> sdk_draw" where
  "plan K pool d = \<lparr>kd_tier = fst d, kd_position = word_of_nat (snd d),
     kd_item = fst (item_address_for K pool (fst d) (word_of_nat (snd d)))\<rparr>"

text \<open>One draw from the candidates: the position and the candidates that are left.\<close>

lemma candidates_draw:
  assumes n8: "n \<le> 8" and t: "t < n" and r: "r < prefix_count tags t c"
  defines "cand \<equiv> candidates_of n (take c tags)" and "pos \<equiv> available tags t ! r"
  shows "r < length (cand ! t)" "cand ! t ! r = word_of_nat pos"
    "cand[t := remove_nth r (cand ! t)] = candidates_of n (take c (tags[pos := 0]))"
proof -
  have rl: "r < length (available (take c tags) t)" using r by (simp add: prefix_count_def)
  have pos: "available (take c tags) t ! r = pos" unfolding pos_def by (rule available_take [OF r])
  show "r < length (cand ! t)" "cand ! t ! r = word_of_nat pos" using t rl pos by (simp_all add: cand_def candidates_of_def)
  show "cand[t := remove_nth r (cand ! t)] = candidates_of n (take c (tags[pos := 0]))"
    unfolding cand_def using candidates_remove [OF n8 t rl pos [symmetric]] by (simp add: take_update_swap)
qed

lemma replay_reference:
  assumes hash: "\<And>x. sk_sha256 K x = env_sha256 E x" and p: "sdk_header P = p" "pool_valid p"
    and "\<forall>x \<in> set tags. unat x \<le> unat (pool_tier_count p)" and "length tags < 2 ^ 32"
  shows "replay_draws K P beta (candidates_of (unat (pool_tier_count p)) (take c tags)) [i ..< i + m] =
    (case reference_draws E p beta c tags i m of
       Inl _ \<Rightarrow> Inl SdkInvalidAccount | Inr ds \<Rightarrow> Inr (map (plan K (kp_address P)) ds))"
  using assms(4,5)
proof (induction m arbitrary: i tags)
  case (Suc m)
  let ?n = "unat (pool_tier_count p)" and ?cs = "prefix_words tags c" and ?h = "env_sha256 E (beta @ [word_of_nat i])"
  let ?cand = "candidates_of ?n (take c tags)"
  have n8: "?n \<le> 8" using p(2) by (simp add: pool_valid_def)
  have counts: "candidate_counts ?cand = ?cs" by (rule candidate_counts_of [OF n8 Suc.prems(1)])
  have len: "length ?cand = ?n" by (simp add: candidates_of_def)
  have upt: "[i ..< i + Suc m] = i # [Suc i ..< Suc i + m]" by (simp add: upt_conv_Cons del: upt_Suc)
  show ?case
  proof (cases "sum_list (eligible (tiers_of p) ?cs) = 0")
    case True
    then have "pool_draw p ?h ?cs = Inl (gerr SoldOut)" using pool_draw_cases [OF p(2), of ?cs ?h] by simp
    then show ?thesis
      unfolding upt using n8 len by (simp add: counts hash p(1) sdk_err_def gerr_def del: upt_Suc)
  next
    case False
    then obtain tier rank where dr: "pool_draw p ?h ?cs = Inr (tier, rank)"
      and tr: "unat tier < ?n" "unat rank < unat (?cs ! unat tier)"
      using pool_draw_cases [OF p(2), of ?cs ?h] unfolding if_not_P [OF False] by auto
    let ?t = "unat tier" and ?r = "unat rank"
    have rk: "?r < prefix_count tags ?t c" using tr n8 prefix_words_nth [OF _ Suc.prems(2), of ?t c] by simp
    let ?pos = "available tags ?t ! ?r"
    note cand = candidates_draw [OF n8 tr(1) rk]
    have bound: "\<forall>x \<in> set (tags[?pos := 0]). unat x \<le> ?n"
      using Suc.prems(1) set_update_subset_insert [of tags ?pos 0] by auto
    have IH: "replay_draws K P beta (candidates_of ?n (take c (tags[?pos := 0]))) [Suc i ..< Suc i + m] =
        (case reference_draws E p beta c (tags[?pos := 0]) (Suc i) m of
           Inl _ \<Rightarrow> Inl SdkInvalidAccount | Inr ds \<Rightarrow> Inr (map (plan K (kp_address P)) ds))"
      using Suc.prems(2) by (intro Suc.IH bound) simp
    show ?thesis
      unfolding upt using n8 len tr(1) cand dr IH
      by (cases "reference_draws E p beta c (tags[?pos := 0]) (Suc i) m")
        (simp_all add: counts hash p(1) sdk_err_def Let_def plan_def not_le not_less del: upt_Suc)
  qed
qed simp

subsection \<open>The plan of a settlement\<close>

lemma scan_positions: "positions_below n = map word_of_nat [0 ..< unat n]"
  by (simp add: positions_below_def)

lemma sdk_pendingD:
  assumes "sdk_pending P u = Inr x"
  shows "pull_pool (sdk_pull_header u) = kp_address P" "sdk_pull_status u = Pending"
    "pull_index (sdk_pull_header u) = pool_next_settle (sdk_header P)"
    "unat (pull_inventory_version (sdk_pull_header u)) \<le> unat (pool_inventory_version (sdk_header P))"
  using assms by (auto simp: sdk_pending_def Let_def not_less word_le_nat_alt split: if_splits)

lemma sdk_settle_exact:
  assumes hash: "\<And>x. sk_sha256 K x = env_sha256 E x" and s: "snapshot P p tags"
  shows "sdk_settle K P u proof_bytes = and_then (sdk_pending P u) (\<lambda>_.
    and_then (ok_or (sk_proof_verify K proof_bytes (pool_operator p) (sdk_alpha K u)) SdkInvalidProof) (\<lambda>beta.
      case reference_draws E p beta (unat (pull_inventory_version (sdk_pull_header u))) tags 0
        (unat (pull_count (sdk_pull_header u))) of
        Inl _ \<Rightarrow> Inl SdkInvalidAccount
      | Inr ds \<Rightarrow> Inr \<lparr>ks_pool = kp_address P, ks_pull = ku_address u, ks_buyer = pull_buyer (sdk_pull_header u),
          ks_operator = pool_operator p, ks_proof = proof_bytes, ks_draws = map (plan K (kp_address P)) ds\<rparr>))"
proof (cases "sdk_pending P u")
  case (Inr x)
  let ?v = "sdk_pull_header u"
  let ?c = "unat (pull_inventory_version ?v)" and ?m = "unat (pull_count ?v)"
  note S = snapshotD [OF s]
  have len: "length (kp_data P) = POOL_LEN + inventory_space (pool_inventory_version p)"
    and c: "?c \<le> length tags"
    using s sdk_pendingD(4) [OF Inr] S(1) by (simp_all add: snapshot_def)
  have scan: "fold_res (add_candidate P) (replicate (unat (pool_tier_count p)) []) (positions_below (pull_inventory_version ?v)) =
      Inr (candidates_of (unat (pool_tier_count p)) (take ?c tags))"
    unfolding scan_positions by (rule candidates_scan [OF s c])
  have bound: "\<forall>x \<in> set tags. unat x \<le> unat (pool_tier_count p)" using S(5) by blast
  have "replay_draws K P beta (candidates_of (unat (pool_tier_count p)) (take ?c tags)) [0 ..< 0 + ?m] =
      (case reference_draws E p beta ?c tags 0 ?m of
         Inl _ \<Rightarrow> Inl SdkInvalidAccount | Inr ds \<Rightarrow> Inr (map (plan K (kp_address P)) ds))" for beta
    by (rule replay_reference [OF hash S(1,2) bound S(3)])
  then have replay: "replay_draws K P beta (candidates_of (unat (pool_tier_count p)) (take ?c tags)) [0 ..< ?m] =
      (case reference_draws E p beta ?c tags 0 ?m of
         Inl _ \<Rightarrow> Inl SdkInvalidAccount | Inr ds \<Rightarrow> Inr (map (plan K (kp_address P)) ds))" for beta
    by simp
  show ?thesis
    by (cases "sk_proof_verify K proof_bytes (pool_operator p) (sdk_alpha K u)")
      (simp_all add: sdk_settle_def Inr Let_def S(1) len scan replay ok_or_def split: sum.splits)
qed (simp add: sdk_settle_def)

text \<open>
  C15: the host's scan is the reference draw. On a complete snapshot whose tags are consistent with the
  header, \<open>Pool::settle\<close> fails exactly when the pull is not the head of the queue, the proof does
  not verify or the candidates are exhausted; otherwise its plan lists the reference draws over the
  pinned prefix, each with the address of its Item. It never panics.
\<close>

theorem sdk_settle_replays:
  assumes "\<And>x. sk_sha256 K x = env_sha256 E x" "snapshot P p tags"
  shows "sdk_settle K P u proof_bytes = and_then (sdk_pending P u) (\<lambda>_.
    and_then (ok_or (sk_proof_verify K proof_bytes (pool_operator p) (sdk_alpha K u)) SdkInvalidProof) (\<lambda>beta.
      case reference_draws E p beta (unat (pull_inventory_version (sdk_pull_header u))) tags 0
        (unat (pull_count (sdk_pull_header u))) of
        Inl _ \<Rightarrow> Inl SdkInvalidAccount
      | Inr ds \<Rightarrow> Inr \<lparr>ks_pool = kp_address P, ks_pull = ku_address u, ks_buyer = pull_buyer (sdk_pull_header u),
          ks_operator = pool_operator p, ks_proof = proof_bytes, ks_draws = map (plan K (kp_address P)) ds\<rparr>))"
  by (rule sdk_settle_exact [OF assms])

lemma host_plan:
  assumes ok: "runtime_ok E" and P: "pool_ok L A tags"
    and pinned: "unat (pull_inventory_version (pull_at L U)) \<le> length tags"
    and run: "settle E (operator # A # U # items @ [event_authority, program]) data L = Inr L'"
    and same: "\<And>x. sk_sha256 K x = env_sha256 E x" "sk_proof_verify K = env_proof_verify E"
  defines "host_pool \<equiv> \<lparr>kp_address = info_key A, kp_data = data_of L A\<rparr>"
    and "host_pull \<equiv> \<lparr>ku_address = info_key U, ku_data = data_of L U\<rparr>"
  shows "\<exists>S. sdk_settle K host_pool host_pull data = Inr S \<and> length (ks_draws S) = length items \<and>
    ks_pool S = info_key A \<and> ks_pull S = info_key U \<and> ks_operator S = pool_operator (pool_at L A) \<and> ks_proof S = data \<and>
    (\<forall>d \<in> set (ks_draws S). kd_item d = fst (item_address_for K (info_key A) (kd_tier d) (kd_position d))) \<and>
    (\<forall>n < length items. \<exists>it. load_item L (items ! n) = Inr it \<and> item_pool it = ks_pool S \<and>
      item_tier it = kd_tier (ks_draws S ! n) \<and> item_position it = kd_position (ks_draws S ! n) \<and>
      pull_outcomes (pull_at L' U) ! n = \<lparr>outcome_tier = kd_tier (ks_draws S ! n), outcome_asset = item_asset it\<rparr>)"
proof -
  let ?p = "pool_at L A" and ?u = "pull_at L U"
  from settle_Inr [OF ok P pinned run] obtain beta ds where
    head: "pull_pool ?u = info_key A" "pull_status ?u = STATUS_PENDING" "pull_index ?u = pool_next_settle ?p"
    and len: "length items = unat (pull_count ?u)"
    and vrf: "env_proof_verify E data (pool_operator ?p) (env_sha256 E (to_le (info_key U) @ to_le (pull_client_seed ?u))) = Some beta"
    and ds: "reference_draws E ?p beta (unat (pull_inventory_version ?u)) tags 0 (length items) = Inr ds" "length ds = length items"
    and its: "\<forall>n < length items. \<exists>it. load_item L (items ! n) = Inr it \<and> item_pool it = info_key A \<and>
        item_tier it = fst (ds ! n) \<and> unat (item_position it) = snd (ds ! n) \<and>
        pull_outcomes (pull_at L' U) ! n = \<lparr>outcome_tier = fst (ds ! n), outcome_asset = item_asset it\<rparr> \<and> data_of L' (items ! n) = []"
    by (elim exE conjE) (rule that, assumption+, blast dest: reference_draws_length, assumption)
  have s: "snapshot host_pool ?p tags" by (rule snapshot_of_ledger [OF P]) (simp add: host_pool_def)
  have hdr: "sdk_header host_pool = ?p" "sdk_pull_header host_pull = ?u"
    by (simp_all add: host_pool_def host_pull_def sdk_header_def sdk_pull_header_def pool_at_def pull_at_def)
  have "pull_inventory_version ?u \<le> pool_inventory_version ?p"
    using pinned pool_okD(4) [OF P] by (simp add: word_le_nat_alt)
  then have pend: "sdk_pending host_pool host_pull = Inr ()"
    using head hdr by (simp add: sdk_pending_def Let_def sdk_pull_status_def not_less) (simp add: host_pool_def)
  have alpha: "sdk_alpha K host_pull = env_sha256 E (to_le (info_key U) @ to_le (pull_client_seed ?u))"
    using hdr(2) same(1) by (simp add: sdk_alpha_def) (simp add: host_pull_def)
  let ?S = "\<lparr>ks_pool = kp_address host_pool, ks_pull = ku_address host_pull, ks_buyer = pull_buyer ?u,
      ks_operator = pool_operator ?p, ks_proof = data, ks_draws = map (plan K (kp_address host_pool)) ds\<rparr>"
  have "sdk_settle K host_pool host_pull data = Inr ?S"
    unfolding sdk_settle_exact [OF same(1) s] using pend alpha vrf ds(1) len same(2) hdr(2) by simp
  moreover have "\<exists>it. load_item L (items ! n) = Inr it \<and> item_pool it = ks_pool ?S \<and>
      item_tier it = kd_tier (ks_draws ?S ! n) \<and> item_position it = kd_position (ks_draws ?S ! n) \<and>
      pull_outcomes (pull_at L' U) ! n = \<lparr>outcome_tier = kd_tier (ks_draws ?S ! n), outcome_asset = item_asset it\<rparr>"
    if n: "n < length items" for n
  proof -
    obtain it where it: "load_item L (items ! n) = Inr it" "item_pool it = info_key A" "item_tier it = fst (ds ! n)"
      "unat (item_position it) = snd (ds ! n)"
      "pull_outcomes (pull_at L' U) ! n = \<lparr>outcome_tier = fst (ds ! n), outcome_asset = item_asset it\<rparr>" using its n by blast
    moreover have "item_position it = word_of_nat (snd (ds ! n))" unfolding it(4) [symmetric] by simp
    ultimately show ?thesis using n ds(2) by (intro exI [of _ it]) (simp add: plan_def host_pool_def)
  qed
  moreover have "\<forall>d \<in> set (ks_draws ?S). kd_item d = fst (item_address_for K (info_key A) (kd_tier d) (kd_position d))"
    by (auto simp: plan_def host_pool_def)
  moreover have "kp_address host_pool = info_key A" "ku_address host_pull = info_key U"
    by (simp_all add: host_pool_def host_pull_def)
  ultimately show ?thesis using ds(2) by (intro exI [of _ ?S]) simp
qed

text \<open>
  C10: the host plans what the chain draws. If a settlement succeeds on chain, then the SDK, given the
  same proof and snapshots of the same two accounts before it, returns a plan; and draw by draw the
  Item that the chain accepted has the planned tier and position, and the pull records the planned
  tier with the asset of that Item.
\<close>

theorem host_plan_matches_chain:
  assumes ok: "runtime_ok E" and P: "pool_ok L A tags"
    and pinned: "unat (pull_inventory_version (pull_at L U)) \<le> length tags"
    and run: "settle E (operator # A # U # items @ [event_authority, program]) data L = Inr L'"
    and same: "\<And>x. sk_sha256 K x = env_sha256 E x" "sk_proof_verify K = env_proof_verify E"
  defines "host_pool \<equiv> \<lparr>kp_address = info_key A, kp_data = data_of L A\<rparr>"
    and "host_pull \<equiv> \<lparr>ku_address = info_key U, ku_data = data_of L U\<rparr>"
  shows "\<exists>S. sdk_settle K host_pool host_pull data = Inr S \<and> length (ks_draws S) = length items \<and>
    ks_pool S = info_key A \<and> ks_pull S = info_key U \<and> ks_operator S = pool_operator (pool_at L A) \<and> ks_proof S = data \<and>
    (\<forall>d \<in> set (ks_draws S). kd_item d = fst (item_address_for K (info_key A) (kd_tier d) (kd_position d))) \<and>
    (\<forall>n < length items. \<exists>it. load_item L (items ! n) = Inr it \<and> item_pool it = ks_pool S \<and>
      item_tier it = kd_tier (ks_draws S ! n) \<and> item_position it = kd_position (ks_draws S ! n) \<and>
      pull_outcomes (pull_at L' U) ! n = \<lparr>outcome_tier = kd_tier (ks_draws S ! n), outcome_asset = item_asset it\<rparr>)"
  unfolding host_pool_def host_pull_def using ok P pinned run same by (rule host_plan)

end
