(* ===== verification/Sdk_View.thy ===== *)
theory Sdk_View
  imports Sdk_Replay Abstraction
begin

section \<open>What a decoded snapshot guarantees\<close>

text \<open>
  \<open>Pool::from_account\<close> accepts exactly the accounts whose parameters, derived addresses and, in a
  complete snapshot, tags and remaining counts are consistent. The pools of a sound ledger are among
  them, so the SDK never refuses an account that the program itself would use.
\<close>

subsection \<open>The tags of a complete snapshot\<close>

definition stored_tags :: "bytes \<Rightarrow> nat \<Rightarrow> u8 list" where
  "stored_tags d n = map (\<lambda>q. d ! (POOL_LEN + tag_index q)) [0..<n]"

lemma length_stored_tags [simp]: "length (stored_tags d n) = n"
  by (simp add: stored_tags_def)

lemma div_ceil_gt:
  assumes "q < n"
  shows "q div 64 < div_ceil n 64"
proof (cases "n mod 64 = 0")
  case True
  have "n div 64 * 64 = n" using div_mult_mod_eq [of n 64] unfolding True by simp
  then have "q < n div 64 * 64" using assms by (rule subst [OF sym])
  then show ?thesis using True by (simp add: div_ceil_def div_less_iff_less_mult)
next
  case False
  then show ?thesis using div_le_mono [of q n 64] assms by (simp add: div_ceil_def)
qed

lemma sdk_tag_complete:
  assumes "length (kp_data P) = POOL_LEN + inventory_space v" "q < unat v"
  shows "sdk_tag P (word_of_nat q) = Inr (stored_tags (kp_data P) (unat v) ! q)"
proof -
  have "q < 2 ^ 32" by (rule order_less_trans [OF assms(2)]) simp
  then have un: "unat (word_of_nat q :: u32) = q" by (simp add: unat_of_nat)
  have "q div 64 * 96 + 96 \<le> div_ceil (unat v) 64 * 96" using div_ceil_gt [OF assms(2)] by simp
  moreover have "q mod 64 < 64" by simp
  ultimately have "POOL_LEN + (q div 64 * 96 + 32 + q mod 64) < length (kp_data P)"
    using assms(1) by (simp add: inventory_space_def)
  then show ?thesis using assms(2) by (simp add: sdk_tag_def un Let_def stored_tags_def tag_index_def algebra_simps)
qed

subsection \<open>The count of the tags\<close>

lemma prefix_words_zero: "prefix_words tags 0 = replicate 8 0"
  by (rule nth_equalityI) (simp_all add: prefix_words_def prefix_count_def del: upt_conv_Cons)

lemma prefix_words_Suc:
  assumes "c < length tags" "length tags < 2 ^ 32" "unat (tags ! c) \<le> 8"
  shows "prefix_words tags (Suc c) =
    (if tags ! c = 0 then prefix_words tags c
     else (prefix_words tags c)[unat (tags ! c) - 1 := prefix_words tags c ! (unat (tags ! c) - 1) + 1])"
proof (rule nth_equalityI)
  fix t assume "t < length (prefix_words tags (Suc c))"
  then have t: "t < 8" by (simp add: prefix_words_def)
  have step: "prefix_count tags t (Suc c) = prefix_count tags t c + (if tags ! c = tier_tag t then 1 else 0)"
    using assms(1) by (simp add: prefix_count_def take_Suc_conv_app_nth)
  consider "tags ! c = 0" | k where "k < 8" "tags ! c = tier_tag k" "unat (tags ! c) - 1 = k"
    using tag_cases [OF assms(3)] by blast
  then show "prefix_words tags (Suc c) ! t = (if tags ! c = 0 then prefix_words tags c
     else (prefix_words tags c)[unat (tags ! c) - 1 := prefix_words tags c ! (unat (tags ! c) - 1) + 1]) ! t"
  proof cases
    case 1
    then have "tags ! c \<noteq> tier_tag t" using t by simp
    then show ?thesis using 1 t step by (simp add: prefix_words_def del: upt_conv_Cons)
  next
    case 2
    then have "tags ! c = tier_tag t \<longleftrightarrow> k = t" "tags ! c \<noteq> 0" using t by simp_all
    then show ?thesis using 2 t step by (simp add: prefix_words_def nth_list_update del: upt_conv_Cons)
  qed
qed (simp add: prefix_words_def)

lemma count_scan:
  assumes len: "length (kp_data P) = POOL_LEN + inventory_space v" and k: "unat k \<le> 8" and c: "c \<le> unat v"
  defines "tags \<equiv> stored_tags (kp_data P) (unat v)"
  shows "fold_res (count_position P k) (replicate MAX_TIERS 0) (map word_of_nat [0..<c]) =
    (if \<exists>x \<in> set (take c tags). k < x then Inl SdkInvalidAccount else Inr (prefix_words tags c))"
  using c
proof (induction c)
  case (Suc c)
  let ?x = "tags ! c"
  have lt: "c < unat v" "c < length tags" using Suc.prems by (simp_all add: tags_def)
  have small: "length tags < 2 ^ 32" using unat_u32_bound [of v] by (simp add: tags_def)
  have take: "take (Suc c) tags = take c tags @ [?x]" using lt(2) by (rule take_Suc_conv_app_nth)
  have tag: "sdk_tag P (word_of_nat c) = Inr ?x" unfolding tags_def by (rule sdk_tag_complete [OF len lt(1)])
  have add: "count_position P k (prefix_words tags c) (word_of_nat c) = Inr (prefix_words tags (Suc c))" if "\<not> k < ?x"
  proof -
    have x8: "unat ?x \<le> 8" using that k by (simp add: word_less_nat_alt)
    show ?thesis
    proof (cases "?x = 0")
      case True
      then show ?thesis using that prefix_words_Suc [OF lt(2) small x8] by (simp add: count_position_def tag)
    next
      case False
      then have pos: "0 < unat ?x" "0 < ?x" by (simp_all add: unat_gt_0 word_gt_0)
      then have i: "unat ?x - 1 < 8" using x8 by linarith
      have "unat (prefix_words tags c ! (unat ?x - 1)) = prefix_count tags (unat ?x - 1) c"
        by (rule prefix_words_nth [OF i small])
      moreover have "prefix_count tags (unat ?x - 1) c \<le> c"
        using count_le_length [of "take c tags" "tier_tag (unat ?x - 1)"] by (simp add: prefix_count_def)
      ultimately have "unat (prefix_words tags c ! (unat ?x - 1)) + 1 < 2 ^ 32" using lt(2) small by linarith
      then have "add_ov (prefix_words tags c ! (unat ?x - 1)) 1 = Inr (prefix_words tags c ! (unat ?x - 1) + 1)"
        by (simp add: add_ov_def)
      then show ?thesis
        using that pos i False prefix_words_Suc [OF lt(2) small x8]
        by (simp add: count_position_def tag sdk_total_def length_prefix_words)
    qed
  qed
  have bad: "count_position P k cs (word_of_nat c) = Inl SdkInvalidAccount" if "k < ?x" for cs
    using that by (simp add: count_position_def tag)
  show ?case using Suc add bad lt by (auto simp: fold_res_append take)
qed (simp add: prefix_words_zero)

subsection \<open>Accepted accounts\<close>

definition pool_view :: "sdk_env \<Rightarrow> pubkey \<Rightarrow> bytes \<Rightarrow> pool \<Rightarrow> bool" where
  "pool_view K address data p \<longleftrightarrow>
     POOL_LEN \<le> length data \<and> pool_version p = POOL_VERSION \<and> pool_valid p \<and> pool_status p \<le> POOL_RETIRED \<and>
     pool_address_for K (pool_authority p) (pool_id p) = (address, pool_bump p) \<and>
     pool_vault p = sdk_ata K address (pool_payment_mint p) \<and>
     pool_price p \<noteq> 0 \<and> pool_bond_per_draw p \<noteq> 0 \<and> pool_deadline_slots p \<noteq> 0 \<and>
     (unat (pool_price p) + unat (pool_bond_per_draw p)) * MAX_COUNT < 2 ^ 64 \<and>
     0 \<notin> tier_weight ` set (tiers_of p)"

text \<open>The part of a complete snapshot after the header.\<close>

definition stock_view :: "pool \<Rightarrow> u8 list \<Rightarrow> bool" where
  "stock_view p tags \<longleftrightarrow> (\<forall>x \<in> set tags. x \<le> pool_tier_count p) \<and>
     (\<forall>t < unat (pool_tier_count p). unat (tier_remaining (pool_tiers_all p ! t)) = count_list tags (tier_tag t))"

lemma refund_of_ten:
  "isl (refund_amount p 10) \<longleftrightarrow> \<not> (unat (pool_price p) + unat (pool_bond_per_draw p)) * MAX_COUNT < 2 ^ 64"
proof (cases "refund_amount p 10")
  case (Inl e)
  then show ?thesis using refund_amount_ex [of p 10 10] by force
next
  case (Inr a)
  then have "unat a = (unat (pool_price p) + unat (pool_bond_per_draw p)) * 10" by (simp add: refund_amount_Inr)
  moreover have "unat a < 2 ^ 64" by simp
  ultimately show ?thesis using Inr by simp
qed

lemma counts_agree:
  assumes v: "pool_valid p" and small: "length tags < 2 ^ 32"
  shows "\<not> list_ex (\<lambda>(t, n). tier_remaining t \<noteq> n) (zip (tiers_of p) (prefix_words tags (length tags))) \<longleftrightarrow>
    (\<forall>t < unat (pool_tier_count p). unat (tier_remaining (pool_tiers_all p ! t)) = count_list tags (tier_tag t))"
proof -
  have n: "unat (pool_tier_count p) \<le> 8" "length (pool_tiers_all p) = 8" using v by (simp_all add: pool_valid_def pool_wf_def)
  have "tier_remaining (tiers_of p ! t) = prefix_words tags (length tags) ! t \<longleftrightarrow>
      unat (tier_remaining (pool_tiers_all p ! t)) = count_list tags (tier_tag t)" if "t < unat (pool_tier_count p)" for t
    using that n prefix_words_nth [OF _ small, of t "length tags"]
    by (simp add: tiers_of_def word_unat_eq_iff prefix_count_def)
  moreover have "length (zip (tiers_of p) (prefix_words tags (length tags))) = unat (pool_tier_count p)"
    using n by (simp add: tiers_of_def length_prefix_words)
  ultimately show ?thesis using n by (simp add: list_ex_length length_prefix_words)
qed

lemma sdk_check_Inr: "sdk_check owner data n v = Inr x \<longleftrightarrow> owner = ID \<and> n \<le> length data \<and> data \<noteq> [] \<and> data ! 0 = v"
  by (auto simp: sdk_check_def)

lemma sdk_check_eq:
  "0 < n \<Longrightarrow> sdk_check owner data n v =
    (if owner = ID \<and> n \<le> length data \<and> data ! 0 = v then Inr () else Inl SdkInvalidAccount)"
  by (auto simp: sdk_check_def not_less)

lemma version_byte: "POOL_LEN \<le> length d \<Longrightarrow> pool_version (decode_pool d) = d ! 0"
  by (cases d) (simp_all add: decode_pool_def slice_def from_le_def)

text \<open>The condition of the header checks, as the code has it.\<close>

definition bad_header :: "sdk_env \<Rightarrow> pubkey \<Rightarrow> bytes \<Rightarrow> pool \<Rightarrow> bool" where
  "bad_header K address data p \<longleftrightarrow>
     \<not> (1 \<le> unat (pool_tier_count p) \<and> unat (pool_tier_count p) \<le> MAX_TIERS) \<or> POOL_RETIRED < pool_status p \<or>
     (length data \<noteq> POOL_LEN \<and> length data \<noteq> POOL_LEN + inventory_space (pool_inventory_version p)) \<or>
     pool_address_for K (pool_authority p) (pool_id p) \<noteq> (address, pool_bump p) \<or>
     pool_vault p \<noteq> sdk_ata K address (pool_payment_mint p) \<or>
     pool_price p = 0 \<or> pool_bond_per_draw p = 0 \<or> pool_deadline_slots p = 0 \<or> isl (refund_amount p 10)"

definition complete :: "bytes \<Rightarrow> pool \<Rightarrow> bool" where
  "complete data p \<longleftrightarrow> length data = POOL_LEN \<or> length data = POOL_LEN + inventory_space (pool_inventory_version p)"

lemma header_accepted:
  assumes "pool_wf p" "POOL_LEN \<le> length data" "pool_version p = POOL_VERSION"
  shows "\<not> bad_header K address data p \<and> \<not> list_ex (\<lambda>t. tier_weight t = 0) (tiers_of p) \<longleftrightarrow>
    pool_view K address data p \<and> complete data p"
proof -
  have "list_ex (\<lambda>t. tier_weight t = 0) (tiers_of p) \<longleftrightarrow> 0 \<in> tier_weight ` set (tiers_of p)"
    by (auto simp: list_ex_iff image_iff)
  then show ?thesis
    using assms by (simp add: bad_header_def pool_view_def complete_def pool_valid_def refund_of_ten not_less not_le Suc_le_eq) blast
qed

lemma stock_accepted:
  fixes address :: pubkey
  assumes p: "pool_valid p" and len: "length data = POOL_LEN + inventory_space (pool_inventory_version p)"
  defines "P \<equiv> \<lparr>kp_address = address, kp_data = data\<rparr>"
  shows "and_then (fold_res (count_position P (pool_tier_count p)) (replicate MAX_TIERS 0)
      (positions_below (pool_inventory_version p))) (\<lambda>remaining.
        if list_ex (\<lambda>(t, n). tier_remaining t \<noteq> n) (zip (tiers_of p) remaining) then Inl SdkInvalidAccount else Inr P) =
    (if stock_view p (stored_tags data (unat (pool_inventory_version p))) then Inr P else Inl SdkInvalidAccount)"
proof -
  let ?v = "pool_inventory_version p"
  let ?tags = "stored_tags data (unat ?v)"
  have n: "unat (pool_tier_count p) \<le> 8" using p by (simp add: pool_valid_def)
  have len': "length (kp_data P) = POOL_LEN + inventory_space ?v" using len by (simp add: P_def)
  have scan: "fold_res (count_position P (pool_tier_count p)) (replicate MAX_TIERS 0) (positions_below ?v) =
      (if \<exists>x \<in> set ?tags. pool_tier_count p < x then Inl SdkInvalidAccount else Inr (prefix_words ?tags (length ?tags)))"
    using count_scan [OF len' n order_refl] by (simp add: positions_below_def P_def)
  have small: "length ?tags < 2 ^ 32" using unat_u32_bound [of ?v] by simp
  show ?thesis unfolding scan using counts_agree [OF p small] by (auto simp: stock_view_def not_less)
qed

lemma pool_from_account_eq:
  fixes data :: bytes
  defines "p \<equiv> decode_pool data"
  shows "pool_from_account K address owner data =
    (if owner = ID \<and> pool_view K address data p \<and> (length data = POOL_LEN \<or>
        length data = POOL_LEN + inventory_space (pool_inventory_version p) \<and>
        stock_view p (stored_tags data (unat (pool_inventory_version p))))
     then Inr \<lparr>kp_address = address, kp_data = data\<rparr> else Inl SdkInvalidAccount)"
proof (cases "owner = ID \<and> POOL_LEN \<le> length data \<and> pool_version p = POOL_VERSION")
  case True
  let ?P = "\<lparr>kp_address = address, kp_data = data\<rparr>"
  have chk: "sdk_check owner data POOL_LEN POOL_VERSION = Inr ()"
    using True version_byte [of data] by (simp add: sdk_check_eq p_def)
  have h: "sdk_header ?P = p" by (simp add: sdk_header_def p_def)
  have wf: "pool_wf p" by (simp add: p_def)
  note unfold = pool_from_account_def chk and_then.simps Let_def h bad_header_def [symmetric]
  have view: "\<not> bad_header K address data p \<and> \<not> list_ex (\<lambda>t. tier_weight t = 0) (tiers_of p) \<longleftrightarrow>
      pool_view K address data p \<and> complete data p"
    using True wf by (intro header_accepted) simp_all
  show ?thesis
  proof (cases "bad_header K address data p")
    case True
    then show ?thesis unfolding unfold using view by (auto simp: complete_def)
  next
    case False
    then have n: "unat (pool_tier_count p) \<le> 8" "1 \<le> unat (pool_tier_count p)" by (simp_all add: bad_header_def)
    then have tiers: "pool_tiers p = Inr (tiers_of p)" "pool_valid p"
      using wf by (simp_all add: pool_tiers_def tiers_of_def pool_wf_def pool_valid_def)
    show ?thesis
    proof (cases "length data = POOL_LEN")
      case True
      then show ?thesis unfolding unfold if_not_P [OF False] tiers sdk_total_def sum.case using view False \<open>owner = ID \<and> _\<close>
        by (auto simp: complete_def)
    next
      case longer: False
      then have "POOL_LEN < length data" "length data = POOL_LEN + inventory_space (pool_inventory_version p)"
        using True False by (auto simp: bad_header_def)
      then show ?thesis
        unfolding unfold if_not_P [OF False] tiers sdk_total_def sum.case
        using view False longer True stock_accepted [OF tiers(2), of data address] by (auto simp: complete_def)
    qed
  qed
next
  case False
  then have "sdk_check owner data POOL_LEN POOL_VERSION = Inl SdkInvalidAccount"
    using version_byte [of data] by (auto simp: sdk_check_eq p_def)
  then show ?thesis using False by (auto simp: pool_from_account_def pool_view_def)
qed

lemma pool_from_account_iff:
  "pool_from_account K address owner data = Inr P \<longleftrightarrow>
    P = \<lparr>kp_address = address, kp_data = data\<rparr> \<and> owner = ID \<and> pool_view K address data (decode_pool data) \<and>
    (length data = POOL_LEN \<or> length data = POOL_LEN + inventory_space (pool_inventory_version (decode_pool data)) \<and>
       stock_view (decode_pool data) (stored_tags data (unat (pool_inventory_version (decode_pool data)))))"
  by (auto simp: pool_from_account_eq)

text \<open>
  C16: the SDK accepts exactly the consistent accounts. \<open>Pool::from_account\<close> succeeds iff the account is
  the program's, its header is a valid pool at its derived address with its derived vault, positive
  terms, positive weights and a refund of ten draws that fits; and, for anything longer than the
  header, the data is the complete account, no tag names a tier the pool does not have and the
  remaining count of every tier is the number of its tags. Every other account, whatever its bytes,
  is \<open>InvalidAccount\<close>: nothing panics.
\<close>

theorem pool_snapshot_checked:
  "pool_from_account K address owner data =
    (if owner = ID \<and> pool_view K address data (decode_pool data) \<and> (length data = POOL_LEN \<or>
        length data = POOL_LEN + inventory_space (pool_inventory_version (decode_pool data)) \<and>
        stock_view (decode_pool data) (stored_tags data (unat (pool_inventory_version (decode_pool data)))))
     then Inr \<lparr>kp_address = address, kp_data = data\<rparr> else Inl SdkInvalidAccount)"
  by (rule pool_from_account_eq)

subsection \<open>The pools of a ledger\<close>

lemma stored_tags_of_ledger:
  assumes "pool_ok L A tags"
  shows "stored_tags (data_of L A) (unat (pool_inventory_version (pool_at L A))) = tags"
proof (rule nth_equalityI)
  have len: "length tags = unat (pool_inventory_version (pool_at L A))" using pool_okD(4) [OF assms] by simp
  then show "length (stored_tags (data_of L A) (unat (pool_inventory_version (pool_at L A)))) = length tags" by simp
  fix q assume "q < length (stored_tags (data_of L A) (unat (pool_inventory_version (pool_at L A))))"
  then have q: "q < length tags" using len by simp
  have ok: "tags_ok (index_at L A) tags" and dlen: "POOL_LEN \<le> length (data_of L A)"
    using pool_okD(3,6) [OF assms] by (simp_all add: index_rep_def index_inv_def)
  then have "index_at L A ! tag_index q = tags ! q" using q by (simp add: tags_ok_def)
  then show "stored_tags (data_of L A) (unat (pool_inventory_version (pool_at L A))) ! q = tags ! q"
    using q len dlen by (simp add: stored_tags_def index_at_def)
qed

lemma ledger_pool_accepted:
  assumes ok: "pool_ok L A tags" and view: "pool_view K (info_key A) (data_of L A) (pool_at L A)"
  shows "pool_from_account K (info_key A) ID (data_of L A) = Inr \<lparr>kp_address = info_key A, kp_data = data_of L A\<rparr>"
proof -
  have p: "decode_pool (data_of L A) = pool_at L A" by (simp add: pool_at_def)
  have "stock_view (pool_at L A) tags"
    using tag_count_bound [OF ok] pool_ok_count [OF ok] by (auto simp: stock_view_def word_le_nat_alt)
  then show ?thesis
    using view pool_okD(6) [OF ok] by (simp add: pool_from_account_iff p stored_tags_of_ledger [OF ok])
qed

end
