(* ===== verification/Sdk_Correct.thy ===== *)
theory Sdk_Correct
  imports Sdk_Pool Player_Correct
begin

section \<open>gacha-rust: transactions and purchases\<close>

text \<open>
  The groups of instructions fit a transaction, keep their order and lose nothing; and the number of
  draws that the SDK offers is exactly what a purchase on the chain accepts.
\<close>

subsection \<open>Groups\<close>

lemma batch_Inr:
  "batch K payer finished current is = Inr groups \<Longrightarrow> \<forall>g \<in> set finished. transaction_size K g payer \<le> 1232 \<Longrightarrow>
   transaction_size K current payer \<le> 1232 \<Longrightarrow>
   concat groups = concat (rev finished) @ current @ is \<and> (\<forall>g \<in> set groups. transaction_size K g payer \<le> 1232)"
proof (induction "is" arbitrary: finished current)
  case (Cons i "is")
  show ?case
  proof (cases "1232 < transaction_size K (current @ [i]) payer")
    case True
    with Cons.prems(1) have next_group: "\<not> 1232 < transaction_size K [i] payer"
      and rest: "batch K payer (current # finished) [i] is = Inr groups" by (simp_all split: if_splits)
    show ?thesis using Cons.IH [OF rest] Cons.prems(2,3) next_group by simp
  next
    case False
    with Cons.prems(1) have rest: "batch K payer finished (current @ [i]) is = Inr groups" by simp
    show ?thesis using Cons.IH [OF rest Cons.prems(2)] False by simp
  qed
qed auto

lemma batch_total:
  "\<forall>i \<in> set is. transaction_size K [i] payer \<le> 1232 \<Longrightarrow> \<exists>groups. batch K payer finished current is = Inr groups"
  by (induction "is" arbitrary: finished current) auto

lemma concat_nonempty: "concat (filter (\<lambda>g. g \<noteq> []) gs) = concat gs"
  by (induction gs) auto

lemma batches_Inr:
  assumes "batches K initial is payer = Inr groups"
  shows "concat groups = initial @ is" "\<forall>g \<in> set groups. g \<noteq> [] \<and> transaction_size K g payer \<le> 1232"
proof -
  obtain gs where gs: "batch K payer [] initial is = Inr gs" "groups = filter (\<lambda>g. g \<noteq> []) gs"
    and init: "transaction_size K initial payer \<le> 1232"
    using assms by (auto simp: batches_def not_less)
  from batch_Inr [OF gs(1) _ init] show "concat groups = initial @ is" unfolding gs(2) concat_nonempty by simp
  from batch_Inr [OF gs(1) _ init]
  show "\<forall>g \<in> set groups. g \<noteq> [] \<and> transaction_size K g payer \<le> 1232" unfolding gs(2) by simp
qed

text \<open>
  C40: the groups of instructions fit. Whatever the sizes of the instructions are, \<open>batches\<close> returns
  groups that are not empty, each within the 1232 bytes of a transaction, whose instructions are the
  initial ones and then the given ones, all of them in order; and it fails only when the initial
  group or some instruction does not fit a transaction on its own.
\<close>

theorem batches_fit:
  "(\<forall>groups. batches K initial is payer = Inr groups \<longrightarrow> concat groups = initial @ is \<and>
      (\<forall>g \<in> set groups. g \<noteq> [] \<and> transaction_size K g payer \<le> 1232)) \<and>
   (transaction_size K initial payer \<le> 1232 \<and> (\<forall>i \<in> set is. transaction_size K [i] payer \<le> 1232) \<longrightarrow>
      (\<exists>groups. batches K initial is payer = Inr groups))"
proof (intro conjI allI impI)
  fix groups assume b: "batches K initial is payer = Inr groups"
  show "concat groups = initial @ is" by (rule batches_Inr(1) [OF b])
  show "\<forall>g \<in> set groups. g \<noteq> [] \<and> transaction_size K g payer \<le> 1232" by (rule batches_Inr(2) [OF b])
next
  assume "transaction_size K initial payer \<le> 1232 \<and> (\<forall>i \<in> set is. transaction_size K [i] payer \<le> 1232)"
  then show "\<exists>groups. batches K initial is payer = Inr groups"
    using batch_total [of "is" K payer "[]" initial] by (auto simp: batches_def)
qed

subsection \<open>Available draws\<close>

lemma funded_iff:
  assumes "0 < (b :: nat)" "0 < n"
  shows "n \<le> (v - (a + b) * k) div b \<longleftrightarrow> (a + b) * (k + n) \<le> v + a * n"
proof -
  have pos: "0 < n * b" using assms by simp
  have "n \<le> (v - (a + b) * k) div b \<longleftrightarrow> n * b \<le> v - (a + b) * k" using assms(1) by (rule less_eq_div_iff_mult_less_eq)
  also have "\<dots> \<longleftrightarrow> (a + b) * k + n * b \<le> v" using pos by arith
  also have "\<dots> \<longleftrightarrow> (a + b) * (k + n) \<le> v + a * n" by (simp add: algebra_simps)
  finally show ?thesis .
qed

lemma unat_ucast_u8: "unat (ucast (c :: u64) :: u8) = unat c mod 256"
  by (simp add: unsigned_ucast_eq take_bit_eq_mod)

lemma sdk_available_draws_Inr:
  assumes "sdk_available_draws P v = Inr n" "sdk_status P = Active"
  defines "p \<equiv> sdk_header P"
  shows "\<exists>remaining. remaining_total p = Inr remaining \<and> unat (pool_pending_draws p) \<le> unat remaining \<and> 0 < unat (pool_bond_per_draw p) \<and>
    unat n = min (min (unat remaining - unat (pool_pending_draws p)) ((unat v - due p (unat (pool_pending_draws p))) div unat (pool_bond_per_draw p))) 10"
proof -
  from assms obtain remaining stock reserved where r: "remaining_total p = Inr remaining"
    "checked_sub remaining (pool_pending_draws p) = Some stock" "refund_amount p (pool_pending_draws p) = Inr reserved"
    "pool_bond_per_draw p \<noteq> 0" "n = ucast (min (min stock (saturating_sub v reserved div pool_bond_per_draw p)) 10)"
    by (auto simp: sdk_available_draws_def sdk_spendable_balance_def Let_def sdk_total_def sdk_err_def
        split: sum.splits program_error.splits if_splits)
  let ?m = "min (min stock (saturating_sub v reserved div pool_bond_per_draw p)) 10"
  have min_unat: "unat (min a b) = min (unat a) (unat b)" for a b :: u64 by (simp add: min_def word_le_nat_alt)
  have m: "unat ?m = min (min (unat stock) ((unat v - unat reserved) div unat (pool_bond_per_draw p))) 10"
    by (simp add: min_unat unat_saturating_sub unat_div_distrib)
  then have "unat ?m \<le> 10" by simp
  then have "unat ?m mod 256 = unat ?m" by (intro mod_less) linarith
  then have "unat n = unat ?m" unfolding r(5) unat_ucast_u8 .
  moreover have "unat reserved = due p (unat (pool_pending_draws p))" using r(3) by (simp add: refund_amount_Inr due_def)
  ultimately show ?thesis using r(1,2,4) m by (simp add: checked_sub_Some unat_gt_0)
qed

lemma add_ov_ex:
  assumes "unat a + unat b < 2 ^ LENGTH('a)"
  shows "\<exists>c. add_ov a b = Inr c \<and> unat c = unat a + unat (b :: 'a::len word)"
proof -
  have "add_ov a b = Inr (a + b)" using assms by (simp add: add_ov_def)
  then show ?thesis using add_ov_Inr by blast
qed

lemma payment_ex:
  assumes "unat (pool_price p) * unat n < 2 ^ 64"
  shows "\<exists>c. payment p n = Inr c \<and> unat c = unat (pool_price p) * unat n"
proof -
  have "payment p n = Inr (pool_price p * n)" using assms by (simp add: payment_def checked_mul_def)
  then show ?thesis using payment_Inr by blast
qed

lemma buy_reserve_iff:
  assumes pull: "env_create_program_address E [PULL_SEED, to_le (info_key (buy_pool a)), to_le (buy_client_seed d), [buy_bump d]] ID =
      Some (info_key (buy_pull a))"
    and P: "load_pool L (buy_pool a) = Inr p" "buy_inventory_version d = pool_inventory_version p"
    and V: "load_token E L (buy_vault a) = Inr t"
    and r: "remaining_total p = Inr remaining" "unat (pool_pending_draws p) \<le> unat remaining"
    and c: "0 < unat (buy_count d)" "unat (buy_count d) \<le> 10"
    and room: "unat (token_amount t) + unat (pool_price p) * 10 < 2 ^ 64"
  shows "(\<exists>r. buy_reserve E a d L = Inr r) \<longleftrightarrow> unat (pool_pending_draws p) + unat (buy_count d) \<le> unat remaining \<and>
    due p (unat (pool_pending_draws p) + unat (buy_count d)) \<le> unat (token_amount t) + unat (pool_price p) * unat (buy_count d)"
    (is "?run \<longleftrightarrow> ?k + ?c \<le> ?r \<and> due p (?k + ?c) \<le> ?v + ?a")
proof -
  let ?count = "ucast (buy_count d) :: u64"
  have un: "unat ?count = ?c" by (simp add: unat_ucast_widen)
  have room': "?v + ?a < 2 ^ 64" using room c(2) by (intro order_le_less_trans [OF _ room]) simp
  show ?thesis
  proof
    assume ?run
    then obtain pending amount where run: "buy_reserve E a d L = Inr (pending, amount)" by auto
    with P V r(1) pull obtain balance reserved where pe: "add_ov (pool_pending_draws p) ?count = Inr pending"
      and le: "pending \<le> remaining" "reserved \<le> balance" and am: "payment p ?count = Inr amount"
      and ba: "add_ov (token_amount t) amount = Inr balance" and re: "refund_amount p pending = Inr reserved"
      by (auto simp: buy_reserve_def Let_def not_less)
    have "unat pending = ?k + ?c" "unat amount = ?a" using pe am un by (simp_all add: add_ov_Inr payment_Inr)
    then show "?k + ?c \<le> ?r \<and> due p (?k + ?c) \<le> ?v + ?a"
      using le ba refund_amount_due [OF re] by (simp add: add_ov_Inr word_le_nat_alt)
  next
    assume h: "?k + ?c \<le> ?r \<and> due p (?k + ?c) \<le> ?v + ?a"
    have "?r < 2 ^ 64" by simp
    with h have "?k + ?c < 2 ^ 64" by linarith
    then obtain pending where pe: "add_ov (pool_pending_draws p) ?count = Inr pending" "unat pending = ?k + ?c"
      using add_ov_ex [of "pool_pending_draws p" ?count] un by auto
    have "?a < 2 ^ 64" using room' by simp
    then obtain amount where am: "payment p ?count = Inr amount" "unat amount = ?a"
      using payment_ex [of p ?count] un by auto
    obtain balance where ba: "add_ov (token_amount t) amount = Inr balance" "unat balance = ?v + ?a"
      using add_ov_ex [of "token_amount t" amount] am(2) room' by auto
    have "due p (?k + ?c) < 2 ^ 64" using h room' by linarith
    then have "(unat (pool_price p) + unat (pool_bond_per_draw p)) * unat pending < 2 ^ 64" using pe(2) by (simp add: due_def)
    then obtain reserved where re: "refund_amount p pending = Inr reserved" "unat reserved = due p (?k + ?c)"
      using refund_amount_ex [of p "unat pending" pending] pe(2) c(1) by (auto simp: due_def)
    have "\<not> remaining < pending" "\<not> balance < reserved" using h pe(2) ba(2) re(2) by (simp_all add: word_less_nat_alt)
    then show ?run using pull P V r pe(1) am(1) ba(1) re(1) by (simp add: buy_reserve_def Let_def)
  qed
qed

text \<open>
  C34: the offered draws are the accepted draws. If the SDK reads \<open>n\<close> available draws from an active
  pool and the balance of its vault, then among the purchases of one to ten draws that the program
  can decode, exactly those of at most \<open>n\<close> draws pass its checks of stock and collateral.
\<close>

theorem available_draws_exact:
  assumes "sdk_available_draws P (token_amount t) = Inr n" "sdk_status P = Active"
    and "load_pool L (buy_pool a) = Inr (sdk_header P)" "load_token E L (buy_vault a) = Inr t"
    and "buy_inventory_version d = pool_inventory_version (sdk_header P)"
    and "env_create_program_address E [PULL_SEED, to_le (info_key (buy_pool a)), to_le (buy_client_seed d), [buy_bump d]] ID =
      Some (info_key (buy_pull a))"
    and "0 < unat (buy_count d)" "unat (buy_count d) \<le> 10"
    and "unat (token_amount t) + unat (pool_price (sdk_header P)) * 10 < 2 ^ 64"
  shows "(\<exists>r. buy_reserve E a d L = Inr r) \<longleftrightarrow> unat (buy_count d) \<le> unat n"
proof -
  let ?p = "sdk_header P"
  let ?k = "unat (pool_pending_draws ?p)" and ?c = "unat (buy_count d)" and ?v = "unat (token_amount t)"
  obtain remaining where r: "remaining_total ?p = Inr remaining" "?k \<le> unat remaining" "0 < unat (pool_bond_per_draw ?p)"
    "unat n = min (min (unat remaining - ?k) ((?v - due ?p ?k) div unat (pool_bond_per_draw ?p))) 10"
    using sdk_available_draws_Inr [OF assms(1,2)] by blast
  have "?c \<le> (?v - due ?p ?k) div unat (pool_bond_per_draw ?p) \<longleftrightarrow> due ?p (?k + ?c) \<le> ?v + unat (pool_price ?p) * ?c"
    unfolding due_def by (rule funded_iff [OF r(3) assms(7)])
  then show ?thesis
    unfolding buy_reserve_iff [OF assms(6,3,5,4) r(1,2) assms(7-9)] r(4) using r(2) assms(8) by auto
qed

end
