(* ===== verification/Sdk_Accept.thy ===== *)
theory Sdk_Accept
  imports Sdk_Replay Sdk_Correct Progress
begin

section \<open>The program accepts what the SDK builds\<close>

text \<open>
  The runtime hands the accounts of an instruction to the entrypoint with their privileges. An
  instruction that the SDK builds from a current snapshot reaches the \<open>process\<close> of its handler with
  the accounts and arguments that the caller meant: its data parse, every account check passes and
  the derived addresses are the ones the handler derives.
\<close>

definition info_of :: "account_meta \<Rightarrow> account_info" where
  "info_of m = \<lparr>info_key = meta_key m, is_signer = meta_signer m, is_writable = meta_writable m\<rparr>"

definition execute :: "env \<Rightarrow> sdk_instruction \<Rightarrow> ledger \<Rightarrow> ledger result" where
  "execute E i L = process_instruction E (map info_of (ins_accounts i)) (ins_data i) L"

text \<open>The snapshot of the SDK is what the account holds now.\<close>

definition current :: "ledger \<Rightarrow> sdk_pool \<Rightarrow> bool" where
  "current L P \<longleftrightarrow> (\<forall>a. info_key a = kp_address P \<longrightarrow> load_pool L a = Inr (sdk_header P))"

definition unused_address :: "env \<Rightarrow> ledger \<Rightarrow> pubkey \<Rightarrow> bool" where
  "unused_address E L k \<longleftrightarrow> acct_owner (L k) = env_system_id E \<and> acct_data (L k) = []"

text \<open>
  The libraries on the host and on the chain compute the same functions; the address found with a
  bump is the address created with that bump.
\<close>

definition host_agrees :: "sdk_env \<Rightarrow> env \<Rightarrow> bool" where
  "host_agrees K E \<longleftrightarrow>
     (\<forall>seeds program. env_create_program_address E (seeds @ [[snd (sk_find_program_address K seeds program)]]) program =
       Some (fst (sk_find_program_address K seeds program))) \<and>
     (\<forall>x. sk_sha256 K x = env_sha256 E x) \<and> sk_proof_verify K = env_proof_verify E \<and>
     (\<forall>owner mint. sdk_ata K owner mint = ata E owner mint)"

lemma host_agreesD:
  assumes "host_agrees K E"
  shows "sk_find_program_address K seeds program = (k, b) \<Longrightarrow> env_create_program_address E (seeds @ [[b]]) program = Some k"
    and "sk_sha256 K x = env_sha256 E x" "sk_proof_verify K = env_proof_verify E" "sdk_ata K owner mint = ata E owner mint"
  using assms by (auto simp: host_agrees_def) (metis fst_conv snd_conv)

lemma info_of_simps [simp]:
  "info_of (rw k s) = \<lparr>info_key = k, is_signer = s, is_writable = True\<rparr>"
  "info_of (ro k s) = \<lparr>info_key = k, is_signer = s, is_writable = False\<rparr>"
  by (simp_all add: info_of_def rw_def ro_def)

lemma check_unused [simp]: "unused_address E L (info_key a) \<Longrightarrow> check_uninitialized E L a = Inr ()"
  by (simp add: unused_address_def check_uninitialized_def acct_def data_of_def)

lemma current_load [simp]: "current L P \<Longrightarrow> info_key a = kp_address P \<Longrightarrow> load_pool L a = Inr (sdk_header P)"
  by (simp add: current_def)

lemma execute_instruction [simp]:
  "execute E (sdk_instruction data accounts) L = process_instruction E (map info_of accounts @
     [\<lparr>info_key = EVENT_AUTHORITY, is_signer = False, is_writable = False\<rparr>,
      \<lparr>info_key = ID, is_signer = False, is_writable = False\<rparr>]) data L"
  by (simp add: execute_def sdk_instruction_def)

lemma active_status: "sdk_status P = Active \<longleftrightarrow> pool_status (sdk_header P) = POOL_ACTIVE"
  by (simp add: sdk_status_def)

lemma slice_Cons [simp]:
  "slice (Suc n) m (x # xs) = slice n m xs" "slice (numeral k) m (x # xs) = slice (pred_numeral k) m xs"
  by (simp_all add: slice_def numeral_eq_Suc)

subsection \<open>buy\<close>

lemma buy_data_parses:
  assumes "0 < unat count" "unat count \<le> MAX_COUNT"
  shows "try_buy_data (count # to_le (seed :: bytes32) @ to_le (version :: u32) @ [bump]) =
    Inr \<lparr>buy_count = count, buy_client_seed = seed, buy_inventory_version = version, buy_bump = bump\<rparr>"
  using assms
  by (simp add: try_buy_data_def Let_def slice_walk nth_append unat_gt_0 not_less)

text \<open>
  C35: the purchase that the SDK builds is the purchase that the program processes. On a current snapshot
  and an unused pull address, the entrypoint passes every check of the accounts and of the data and
  calls \<open>process\<close> with the caller's buyer, count and seed, the pool's vault and the inventory version
  of the snapshot; and the bump it carries derives the pull's address.
\<close>

theorem sdk_buy_runs:
  assumes K: "host_agrees K E" and cur: "current L P" and b: "sdk_buy K P b = Inr r"
    and new: "unused_address E L (kr_pull r)"
  shows "\<exists>a d. execute E (kr_instruction r) L = buy_process E a d L \<and>
    info_key (buy_buyer a) = kb_buyer b \<and> info_key (buy_pool a) = kp_address P \<and> info_key (buy_pull a) = kr_pull r \<and>
    info_key (buy_buyer_ata a) = ata E (kb_buyer b) (pool_payment_mint (sdk_header P)) \<and>
    info_key (buy_vault a) = pool_vault (sdk_header P) \<and> buy_count d = kb_count b \<and> buy_client_seed d = kb_client_seed b \<and>
    buy_inventory_version d = pool_inventory_version (sdk_header P) \<and>
    env_create_program_address E [PULL_SEED, to_le (info_key (buy_pool a)), to_le (buy_client_seed d), [buy_bump d]] ID =
      Some (info_key (buy_pull a))"
proof -
  let ?h = "sdk_header P"
  obtain pull bump where f: "pull_address_for K (kp_address P) (kb_client_seed b) = (pull, bump)" by fastforce
  from b f have st: "sdk_status P = Active" and c: "0 < unat (kb_count b)" "unat (kb_count b) \<le> 10"
    and r: "r = \<lparr>kr_pull = pull, kr_instruction = sdk_instruction
      ([10, kb_count b] @ to_le (kb_client_seed b) @ to_le (pool_inventory_version ?h) @ [bump])
      [rw (kb_buyer b) True, rw (kp_address P) False, rw pull False,
       rw (sdk_ata K (kb_buyer b) (pool_payment_mint ?h)) False, rw (pool_vault ?h) False, ro TOKEN False, ro SYSTEM False]\<rparr>"
    by (auto simp: sdk_buy_def Let_def split: if_splits)
  have pda: "env_create_program_address E [PULL_SEED, to_le (kp_address P), to_le (kb_client_seed b), [bump]] ID = Some pull"
    using host_agreesD(1) [OF K f [unfolded pull_address_for_def]] by simp
  let ?a = "\<lparr>buy_buyer = info_of (rw (kb_buyer b) True), buy_pool = info_of (rw (kp_address P) False),
      buy_pull = info_of (rw pull False), buy_buyer_ata = info_of (rw (sdk_ata K (kb_buyer b) (pool_payment_mint ?h)) False),
      buy_vault = info_of (rw (pool_vault ?h) False), buy_event_authority = info_of (ro EVENT_AUTHORITY False),
      buy_program = info_of (ro ID False)\<rparr>"
  let ?d = "\<lparr>buy_count = kb_count b, buy_client_seed = kb_client_seed b,
      buy_inventory_version = pool_inventory_version ?h, buy_bump = bump\<rparr>"
  have "execute E (kr_instruction r) L = buy_process E ?a ?d L"
    using cur new st c
    by (simp add: r process_instruction_def buy_def try_buy_accounts_def buy_data_parses active_status)
  then show ?thesis using pda host_agreesD(4) [OF K] by (intro exI [of _ ?a] exI [of _ ?d]) (simp add: r)
qed

subsection \<open>create\_pool\<close>

lemma nth_append_right: "length xs = n \<Longrightarrow> (xs @ y # ys) ! n = y"
  by (simp add: nth_append)

lemma create_pool_data_parses:
  assumes ws: "1 \<le> length ws" "length ws \<le> MAX_TIERS" "0 \<notin> set ws"
    and pos: "price \<noteq> 0" "bond \<noteq> 0" "deadline \<noteq> 0"
    and fits: "Option.bind (checked_add price bond) (\<lambda>n. checked_mul n 10) \<noteq> None"
  shows "try_create_pool_data (to_le (pid :: u64) @ to_le price @ to_le deadline @ to_le bond @
      word_of_nat (length ws) # weight_bytes ws @ [bump]) =
    Inr \<lparr>cp_id = pid, cp_price = price, cp_deadline_slots = deadline, cp_bond_per_draw = bond,
      cp_tier_count = word_of_nat (length ws), cp_weights = ws @ replicate (MAX_TIERS - length ws) 0, cp_bump = bump\<rparr>"
    (is "try_create_pool_data ?data = _")
proof -
  let ?w = "\<lambda>i. if i < length ws then ws ! i else 0"
  have n: "unat (word_of_nat (length ws) :: u8) = length ws" using ws(2) by (simp add: unat_of_nat)
  have wb: "weight_bytes ws = to_le (?w 0) @ to_le (?w 1) @ to_le (?w 2) @ to_le (?w 3) @ to_le (?w 4) @ to_le (?w 5) @
      to_le (?w 6) @ to_le (?w 7)" by (simp add: weight_bytes_def upt_8)
  have len: "length ?data = 66" by (simp add: wb)
  have ws_map: "map ?w [0..<8] = ws @ replicate (8 - length ws) 0"
    using ws(2) by (intro nth_equalityI) (auto simp: nth_append simp del: upt_conv_Cons)
  have weights: "map (\<lambda>i. from_le (slice (33 + i * 4) 4 ?data)) [0..<8] = map ?w [0..<8]"
    by (simp add: upt_8 wb slice_walk)
  have count: "?data ! 32 = word_of_nat (length ws)"
    using nth_append_right [of "to_le pid @ to_le price @ to_le deadline @ to_le bond" 32 "word_of_nat (length ws)"] by simp
  have bump: "?data ! 65 = bump"
    using nth_append_right [of "to_le pid @ to_le price @ to_le deadline @ to_le bond @ word_of_nat (length ws) # weight_bytes ws" 65 bump "[]"]
    by (simp add: wb)
  have nz: "(word_of_nat (length ws) :: u8) \<noteq> 0" using n ws(1) by (metis not_one_le_zero unat_0)
  have fields: "from_le (slice 0 8 ?data) = pid" "from_le (slice 8 8 ?data) = price" "from_le (slice 16 8 ?data) = deadline"
    "from_le (slice 24 8 ?data) = bond" by (simp_all add: slice_walk)
  show ?thesis
    unfolding try_create_pool_data_def Let_def len count bump fields weights ws_map n
    using nz ws pos fits by simp
qed

text \<open>
  C37: the pool that the SDK asks for is the pool that the program creates. If the SDK accepts the
  parameters and the derived address is unused, the instruction reaches \<open>process\<close> with the caller's
  terms and weights, the vault is the pool's token account, and the bump derives the pool's address.
\<close>

theorem sdk_create_pool_runs:
  assumes K: "host_agrees K E" and c: "sdk_create_pool_instructions K c authority operator mint = Inr instructions"
    and new: "unused_address E L (fst (pool_address_for K authority (kc_id c)))"
  shows "\<exists>a d. execute E (instructions ! 1) L = create_pool_process E a d L \<and>
    info_key (cp_authority a) = authority \<and> info_key (cp_operator a) = operator \<and> info_key (cp_payment_mint a) = mint \<and>
    info_key (cp_pool a) = fst (pool_address_for K authority (kc_id c)) \<and>
    info_key (cp_vault a) = ata E (info_key (cp_pool a)) mint \<and>
    cp_id d = kc_id c \<and> cp_price d = kc_price c \<and> cp_deadline_slots d = kc_deadline_slots c \<and>
    cp_bond_per_draw d = kc_bond_per_draw c \<and> take (unat (cp_tier_count d)) (cp_weights d) = kc_weights c \<and>
    env_create_program_address E [POOL_SEED, to_le authority, to_le (cp_id d), [cp_bump d]] ID = Some (info_key (cp_pool a))"
proof -
  obtain pool bump where f: "pool_address_for K authority (kc_id c) = (pool, bump)" by fastforce
  let ?ws = "kc_weights c"
  let ?data = "[0] @ to_le (kc_id c) @ to_le (kc_price c) @ to_le (kc_deadline_slots c) @ to_le (kc_bond_per_draw c) @
            [word_of_nat (length ?ws)] @ weight_bytes ?ws @ [bump]"
  let ?i = "sdk_instruction ?data [rw authority True, rw pool False, ro operator False, ro mint False,
              ro (sdk_ata K pool mint) False, ro SYSTEM False]"
  from c f have ok: "1 \<le> length ?ws" "length ?ws \<le> 8" "0 \<notin> set ?ws" "kc_price c \<noteq> 0" "kc_bond_per_draw c \<noteq> 0"
    "kc_deadline_slots c \<noteq> 0" "Option.bind (checked_add (kc_price c) (kc_bond_per_draw c)) (\<lambda>n. checked_mul n 10) \<noteq> None"
    and i: "instructions ! 1 = ?i"
    by (auto simp: sdk_create_pool_instructions_def Let_def split: if_splits)
  have n: "unat (word_of_nat (length ?ws) :: u8) = length ?ws" using ok(2) by (simp add: unat_of_nat)
  have pda: "env_create_program_address E [POOL_SEED, to_le authority, to_le (kc_id c), [bump]] ID = Some pool"
    using host_agreesD(1) [OF K f [unfolded pool_address_for_def]] by simp
  let ?a = "\<lparr>cp_authority = info_of (rw authority True), cp_pool = info_of (rw pool False), cp_operator = info_of (ro operator False),
      cp_payment_mint = info_of (ro mint False), cp_vault = info_of (ro (sdk_ata K pool mint) False),
      cp_event_authority = info_of (ro EVENT_AUTHORITY False), cp_program = info_of (ro ID False)\<rparr>"
  let ?d = "\<lparr>cp_id = kc_id c, cp_price = kc_price c, cp_deadline_slots = kc_deadline_slots c, cp_bond_per_draw = kc_bond_per_draw c,
      cp_tier_count = word_of_nat (length ?ws), cp_weights = ?ws @ replicate (8 - length ?ws) 0, cp_bump = bump\<rparr>"
  have "execute E (instructions ! 1) L = create_pool_process E ?a ?d L"
    unfolding i using new f create_pool_data_parses [OF ok, of "kc_id c" bump]
    by (simp add: process_instruction_def create_pool_def try_create_pool_accounts_def)
  then show ?thesis using pda f n host_agreesD(4) [OF K] by (intro exI [of _ ?a] exI [of _ ?d]) simp
qed

subsection \<open>The authority's instructions\<close>

text \<open>A meta as the handler sees it: its key is the only thing that varies.\<close>

abbreviation (input) signer_of :: "pubkey \<Rightarrow> account_info" where
  "signer_of k \<equiv> \<lparr>info_key = k, is_signer = True, is_writable = False\<rparr>"

abbreviation (input) payer_of :: "pubkey \<Rightarrow> account_info" where
  "payer_of k \<equiv> \<lparr>info_key = k, is_signer = True, is_writable = True\<rparr>"

abbreviation (input) changed :: "pubkey \<Rightarrow> account_info" where
  "changed k \<equiv> \<lparr>info_key = k, is_signer = False, is_writable = True\<rparr>"

abbreviation (input) shown :: "pubkey \<Rightarrow> account_info" where
  "shown k \<equiv> \<lparr>info_key = k, is_signer = False, is_writable = False\<rparr>"

lemma set_status_accepted:
  assumes "current L P" "sdk_set_status P status = Inr i"
  shows "execute E i L = set_status_process E \<lparr>ss_authority = signer_of (pool_authority (sdk_header P)),
    ss_pool = changed (kp_address P), ss_event_authority = shown EVENT_AUTHORITY, ss_program = shown ID\<rparr> (status_byte status) L"
proof -
  have "\<not> POOL_RETIRED < status_byte status" by (cases status) simp_all
  then show ?thesis
    using assms by (auto simp: sdk_set_status_def process_instruction_def set_status_def try_set_status_accounts_def
        try_set_status_data_def split: if_splits)
qed

lemma withdraw_accepted:
  assumes "current L P"
  shows "execute E (sdk_withdraw P destination amount) L = withdraw_process E
    \<lparr>wd_authority = signer_of (pool_authority (sdk_header P)), wd_pool = shown (kp_address P),
     wd_vault = changed (pool_vault (sdk_header P)), wd_destination = changed destination,
     wd_event_authority = shown EVENT_AUTHORITY, wd_program = shown ID\<rparr> amount L"
  using assms by (simp add: sdk_withdraw_def Let_def process_instruction_def withdraw_def try_withdraw_accounts_def
      try_withdraw_data_def slice_def)

lemma retired_status: "sdk_status P = Retired \<Longrightarrow> pool_status (sdk_header P) \<le> POOL_RETIRED \<Longrightarrow> pool_status (sdk_header P) = POOL_RETIRED"
  by (simp add: sdk_status_def split: if_splits) unat_arith

lemma deposit_accepted:
  assumes K: "host_agrees K E" and cur: "current L P" and d: "sdk_deposit K P tier asset = Inr i"
  shows "\<exists>item bump. execute E i L = deposit_item_process E \<lparr>di_authority = payer_of (ka_owner asset),
      di_pool = changed (kp_address P), di_item = changed item, di_asset = changed (ka_address asset),
      di_collection = shown (collection_or_core asset), di_core_program = shown CORE_ID, di_system_program = shown SYSTEM,
      di_event_authority = shown EVENT_AUTHORITY, di_program = shown ID\<rparr> \<lparr>di_tier = tier, di_bump = bump\<rparr> L \<and>
    env_create_program_address E (item_seeds (kp_address P) tier (pool_inventory_version (sdk_header P)) bump) ID = Some item \<and>
    ka_owner asset = pool_authority (sdk_header P) \<and> tier < pool_tier_count (sdk_header P)"
proof -
  obtain item bump where f: "item_address_for K (kp_address P) tier (pool_inventory_version (sdk_header P)) = (item, bump)"
    by fastforce
  have "env_create_program_address E (item_seeds (kp_address P) tier (pool_inventory_version (sdk_header P)) bump) ID = Some item"
    using host_agreesD(1) [OF K f [unfolded item_address_for_def]] by (simp add: item_seeds_def)
  moreover have "pool_status (sdk_header P) \<noteq> POOL_RETIRED" and "\<not> pool_tier_count (sdk_header P) \<le> tier"
    and "ka_owner asset = pool_authority (sdk_header P)"
    and "i = sdk_instruction [1, tier, bump]
      [rw (pool_authority (sdk_header P)) True, rw (kp_address P) False, rw item False, rw (ka_address asset) False,
       ro (collection_or_core asset) False, ro CORE_ID False, ro SYSTEM False]"
    using d f by (auto simp: sdk_deposit_def Let_def sdk_status_def split: if_splits)
  ultimately show ?thesis
    using cur by (intro exI [of _ item] exI [of _ bump])
      (simp add: process_instruction_def deposit_item_def try_deposit_item_accounts_def try_deposit_item_data_def)
qed

text \<open>
  Reclaim also asks for a remaining prize of the tier, which the SDK does not check: a sound ledger has
  one for every Item.
\<close>

lemma item_in_stock:
  assumes so: "sound L" and P: "load_pool L A = Inr p" and I: "load_item L I = Inr i" "item_pool i = info_key A"
  shows "unat (item_tier i) < unat (pool_tier_count p) \<and> tier_remaining (pool_tiers_all p ! unat (item_tier i)) \<noteq> 0 \<and>
    unat (item_position i) < unat (pool_inventory_version p) \<and> unat (pool_tier_count p) \<le> 8 \<and> length (pool_tiers_all p) = 8"
proof -
  let ?t = "tags_at L A" and ?p = "pool_at L A"
  have p: "p = ?p" using P by (simp add: load_pool_Inr)
  have ok: "pool_ok L A ?t" using so P ledger_okD by (auto simp: sound_def)
  have inv: "protocol_inv (protocol_of L)" using so by (simp add: sound_def)
  obtain us where "custody (protocol_of L) (info_key A) (sp_tags (stock_pool_at L A))"
    by (rule pool_invE [OF protocol_invD(1) [OF inv conjunct1 [OF reads(1) [OF P]]]])
  then have c: "custody (protocol_of L) (info_key A) ?t" by (simp add: stock_pool_at_eq [OF ok])
  have q: "unat (item_position i) < length ?t" "unat (item_tier i) < 8" "?t ! unat (item_position i) = tier_tag (unat (item_tier i))"
    using custodyD(1) [OF c conjunct2 [OF conjunct2 [OF reads(3) [OF I(1)]]] I(2)] by simp_all
  have in_t: "tier_tag (unat (item_tier i)) \<in> set ?t" using q by (metis nth_mem)
  have n8: "unat (pool_tier_count ?p) \<le> 8" "length (pool_tiers_all ?p) = 8" "length ?t = unat (pool_inventory_version ?p)"
    using pool_okD(2) [OF ok] pool_okD(4) [OF ok] by (simp_all add: pool_valid_def pool_wf_def)
  have "unat (tier_tag (unat (item_tier i))) \<le> unat (pool_tier_count ?p)" by (rule tag_count_bound [OF ok in_t])
  then have t: "unat (item_tier i) < unat (pool_tier_count ?p)" using q(2) by simp
  have "0 < count_list ?t (tier_tag (unat (item_tier i)))" using in_t by (rule count_pos)
  then have "0 < unat (tier_remaining (pool_tiers_all ?p ! unat (item_tier i)))" using pool_ok_count [OF ok t] by simp
  then have "tier_remaining (pool_tiers_all ?p ! unat (item_tier i)) \<noteq> 0" by auto
  then show ?thesis using t q(1) n8 p by simp
qed

lemma reclaim_accepted:
  assumes so: "sound L" and cur: "current L P" and I: "load_item L (changed (ki_address it)) = Inr (sdk_item_header it)"
    and r: "sdk_reclaim P it asset = Inr i" and st: "pool_status (sdk_header P) \<le> POOL_RETIRED"
  shows "execute E i L = reclaim_process E \<lparr>rc_authority = payer_of (pool_authority (sdk_header P)),
      rc_pool = changed (kp_address P), rc_item = changed (ki_address it), rc_asset = changed (ka_address asset),
      rc_collection = shown (collection_or_core asset), rc_core_program = shown CORE_ID, rc_system_program = shown SYSTEM,
      rc_event_authority = shown EVENT_AUTHORITY, rc_program = shown ID\<rparr> L"
proof -
  let ?h = "sdk_header P" and ?i = "sdk_item_header it"
  have c: "sdk_status P = Retired" "pool_pending_draws ?h = 0" "item_pool ?i = kp_address P" "item_asset ?i = ka_address asset"
    and i: "i = sdk_instruction [4]
        [rw (pool_authority ?h) True, rw (kp_address P) False, rw (ki_address it) False, rw (ka_address asset) False,
         ro (collection_or_core asset) False, ro CORE_ID False, ro SYSTEM False]"
    and pos: "\<not> pool_tier_count ?h \<le> item_tier ?i" "\<not> pool_inventory_version ?h \<le> item_position ?i"
    using r by (auto simp: sdk_reclaim_def Let_def split: if_splits)
  have ld: "load_pool L (changed (kp_address P)) = Inr ?h" using cur by simp
  have stock: "unat (item_tier ?i) < unat (pool_tier_count ?h)" "tier_remaining (pool_tiers_all ?h ! unat (item_tier ?i)) \<noteq> 0"
    "unat (pool_tier_count ?h) \<le> 8" "length (pool_tiers_all ?h) = 8"
    using item_in_stock [OF so ld I] c(3) by simp_all
  have "reclaim_item_ok ?h ?i (kp_address P) (ka_address asset) = Inr ()"
    using stock c pos by (simp add: reclaim_item_ok_def pool_tiers_def)
  then show ?thesis
    using ld I c(2) retired_status [OF c(1) st] by (simp add: i process_instruction_def reclaim_def try_reclaim_accounts_def)
qed

text \<open>
  C39: the authority's instructions run. On a current snapshot of a sound ledger, the instructions that
  the SDK builds for a status change, a withdrawal, a deposit and a reclaim pass every check of their
  handlers and reach \<open>process\<close> with the caller's arguments; a deposit's Item is at the derived address
  of the next position, and an Item that the SDK would reclaim is always in stock.
\<close>

theorem sdk_authority_runs:
  assumes "host_agrees K E" "sound L" "current L P" "pool_status (sdk_header P) \<le> POOL_RETIRED"
  shows "(\<forall>i. sdk_set_status P status = Inr i \<longrightarrow> execute E i L = set_status_process E
      \<lparr>ss_authority = signer_of (pool_authority (sdk_header P)), ss_pool = changed (kp_address P),
       ss_event_authority = shown EVENT_AUTHORITY, ss_program = shown ID\<rparr> (status_byte status) L) \<and>
    execute E (sdk_withdraw P destination amount) L = withdraw_process E
      \<lparr>wd_authority = signer_of (pool_authority (sdk_header P)), wd_pool = shown (kp_address P),
       wd_vault = changed (pool_vault (sdk_header P)), wd_destination = changed destination,
       wd_event_authority = shown EVENT_AUTHORITY, wd_program = shown ID\<rparr> amount L \<and>
    (\<forall>i. sdk_deposit K P tier asset = Inr i \<longrightarrow> (\<exists>item bump. execute E i L = deposit_item_process E
      \<lparr>di_authority = payer_of (ka_owner asset), di_pool = changed (kp_address P), di_item = changed item,
       di_asset = changed (ka_address asset), di_collection = shown (collection_or_core asset),
       di_core_program = shown CORE_ID, di_system_program = shown SYSTEM, di_event_authority = shown EVENT_AUTHORITY,
       di_program = shown ID\<rparr> \<lparr>di_tier = tier, di_bump = bump\<rparr> L \<and>
      env_create_program_address E (item_seeds (kp_address P) tier (pool_inventory_version (sdk_header P)) bump) ID = Some item \<and>
      ka_owner asset = pool_authority (sdk_header P) \<and> tier < pool_tier_count (sdk_header P))) \<and>
    (\<forall>it i. load_item L (changed (ki_address it)) = Inr (sdk_item_header it) \<longrightarrow> sdk_reclaim P it asset = Inr i \<longrightarrow>
      execute E i L = reclaim_process E \<lparr>rc_authority = payer_of (pool_authority (sdk_header P)),
       rc_pool = changed (kp_address P), rc_item = changed (ki_address it), rc_asset = changed (ka_address asset),
       rc_collection = shown (collection_or_core asset), rc_core_program = shown CORE_ID, rc_system_program = shown SYSTEM,
       rc_event_authority = shown EVENT_AUTHORITY, rc_program = shown ID\<rparr> L)"
  using set_status_accepted [OF assms(3)] withdraw_accepted [OF assms(3)] deposit_accepted [OF assms(1,3)]
    reclaim_accepted [OF assms(2,3) _ _ assms(4)] by blast

subsection \<open>refund, buyback, deliver and settle\<close>

definition current_pull :: "ledger \<Rightarrow> sdk_pull \<Rightarrow> bool" where
  "current_pull L u \<longleftrightarrow> (\<forall>a. info_key a = ku_address u \<longrightarrow> load_pull L a = Inr (sdk_pull_header u))"

lemma current_pull_load [simp]: "current_pull L u \<Longrightarrow> info_key a = ku_address u \<Longrightarrow> load_pull L a = Inr (sdk_pull_header u)"
  by (simp add: current_pull_def)

lemma refund_accepted:
  assumes K: "host_agrees K E" and cur: "current L P" "current_pull L u" and r: "sdk_refund K P u payer = Inr instructions"
    and late: "env_clock E = Inr clock" "pull_deadline_slot (sdk_pull_header u) < clock_slot clock"
    and token: "load_token E L (changed (ata E (pull_buyer (sdk_pull_header u)) (pool_payment_mint (sdk_header P)))) = Inr t"
      "token_owner t = pull_buyer (sdk_pull_header u)"
  shows "execute E (instructions ! 1) L = refund_process E \<lparr>rf_pool = changed (kp_address P), rf_pull = changed (ku_address u),
      rf_buyer = changed (pull_buyer (sdk_pull_header u)), rf_vault = changed (pool_vault (sdk_header P)),
      rf_buyer_ata = changed (ata E (pull_buyer (sdk_pull_header u)) (pool_payment_mint (sdk_header P))),
      rf_event_authority = shown EVENT_AUTHORITY, rf_program = shown ID\<rparr> L"
proof -
  let ?h = "sdk_header P" and ?v = "sdk_pull_header u"
  obtain x where x: "sdk_pending P u = Inr x" using r by (cases "sdk_pending P u") (simp_all add: sdk_refund_def)
  have i: "instructions ! 1 = sdk_instruction [11]
      [rw (kp_address P) False, rw (ku_address u) False, rw (pull_buyer ?v) False, rw (pool_vault ?h) False,
       rw (ata E (pull_buyer ?v) (pool_payment_mint ?h)) False, ro TOKEN False]"
    using r x host_agreesD(4) [OF K] by (auto simp: sdk_refund_def Let_def)
  have "pull_status ?v = STATUS_PENDING" using sdk_pendingD(2) [OF x] by (simp add: sdk_pull_status_def split: if_splits)
  moreover have over: "\<not> clock_slot clock \<le> pull_deadline_slot ?v" using late(2) by simp
  ultimately show ?thesis
    unfolding i using cur sdk_pendingD(1,3) [OF x] late(1) token
    by (simp add: over process_instruction_def refund_def try_refund_accounts_def)
qed

lemma buyback_data_parses:
  assumes "length signature = 64" "env_clock E = Inr clock" "sint (clock_unix_timestamp clock) < sint expires_at"
  shows "try_buyback_data E (tier # to_le (price :: u64) @ to_le (expires_at :: i64) @ signature @ [bump]) =
    Inr \<lparr>bb_tier = tier, bb_price = price, bb_expires_at = expires_at, bb_signature = signature, bb_bump = bump\<rparr>"
proof -
  have "(tier # to_le price @ to_le expires_at @ signature @ [bump]) ! 81 = bump"
    using nth_append_right [of "tier # to_le price @ to_le expires_at @ signature" 81 bump "[]"] assms(1) by simp
  moreover have "slice 17 64 (tier # to_le price @ to_le expires_at @ signature @ [bump]) = signature"
    using assms(1) by (simp add: slice_walk)
  moreover have "slice 1 8 (tier # to_le price @ to_le expires_at @ signature @ [bump]) = to_le price"
    "slice 9 8 (tier # to_le price @ to_le expires_at @ signature @ [bump]) = to_le expires_at"
    by (simp_all add: slice_walk)
  ultimately show ?thesis using assms by (simp add: try_buyback_data_def Let_def)
qed

text \<open>
  C38: the buyback that the SDK builds is the quoted one. Before the quote expires, and once the seller has
  a token account, the instruction reaches \<open>process\<close> with the price, expiry, tier and signature of the
  quote; the message that \<open>process\<close> verifies is the message that the quote's authority signs, and the
  Item is at the derived address of the next position.
\<close>

theorem sdk_buyback_runs:
  assumes K: "host_agrees K E" and cur: "current L P" and b: "sdk_buyback K P q signature asset payer = Inr instructions"
    and s: "length signature = 64" and live: "env_clock E = Inr clock" "sint (clock_unix_timestamp clock) < sint (kq_expires_at q)"
    and token: "load_token E L (changed (ata E (ka_owner asset) (pool_payment_mint (sdk_header P)))) = Inr t" "token_owner t = ka_owner asset"
  shows "\<exists>item bump. execute E (instructions ! 1) L = buyback_process E \<lparr>bb_payer = payer_of payer,
      bb_seller = signer_of (ka_owner asset), bb_pool = changed (kp_address P), bb_item = changed item,
      bb_asset = changed (ka_address asset), bb_collection = shown (collection_or_core asset),
      bb_vault = changed (pool_vault (sdk_header P)),
      bb_destination = changed (ata E (ka_owner asset) (pool_payment_mint (sdk_header P))),
      bb_core_program = shown CORE_ID, bb_system_program = shown SYSTEM,
      bb_event_authority = shown EVENT_AUTHORITY, bb_program = shown ID\<rparr>
      \<lparr>bb_tier = kq_tier q, bb_price = kq_price q, bb_expires_at = kq_expires_at q, bb_signature = signature, bb_bump = bump\<rparr> L \<and>
    env_create_program_address E (item_seeds (kp_address P) (kq_tier q) (pool_inventory_version (sdk_header P)) bump) ID = Some item \<and>
    sdk_quote_message q = buyback_message (kp_address P) (ka_address asset) (kq_price q) (kq_expires_at q) (kq_tier q)"
proof -
  let ?h = "sdk_header P"
  obtain item bump where f: "item_address_for K (kp_address P) (kq_tier q) (pool_inventory_version ?h) = (item, bump)" by fastforce
  have pda: "env_create_program_address E (item_seeds (kp_address P) (kq_tier q) (pool_inventory_version ?h) bump) ID = Some item"
    using host_agreesD(1) [OF K f [unfolded item_address_for_def]] by (simp add: item_seeds_def)
  have st: "sdk_status P = Active" and q: "kq_pool q = kp_address P" "kq_asset q = ka_address asset"
    and i: "instructions ! 1 = sdk_instruction
      ([12, kq_tier q] @ to_le (kq_price q) @ to_le (kq_expires_at q) @ signature @ [bump])
      [rw payer True, ro (ka_owner asset) True, rw (kp_address P) False, rw item False, rw (ka_address asset) False,
       ro (collection_or_core asset) False, rw (pool_vault ?h) False, rw (ata E (ka_owner asset) (pool_payment_mint ?h)) False,
       ro CORE_ID False, ro TOKEN False, ro SYSTEM False]"
    using b f host_agreesD(4) [OF K] by (auto simp: sdk_buyback_def Let_def split: if_splits)
  show ?thesis
    unfolding i using cur st token pda q buyback_data_parses [OF s live]
    by (intro exI [of _ item] exI [of _ bump])
      (simp add: process_instruction_def buyback_def try_buyback_accounts_def active_status sdk_quote_message_def)
qed

lemma deliver_accepted:
  assumes d: "sdk_deliver_one pool pull buyer asset outcome payer = Inr i"
    and P: "load_pool L (shown pool) = Inr p" and U: "load_pull L (changed pull) = Inr u"
    and u: "pull_pool u = pool" "pull_status u = STATUS_SETTLED" "pull_buyer u = buyer"
  shows "execute E i L = deliver_process E \<lparr>dl_payer = payer_of payer, dl_pool = shown pool, dl_pull = changed pull,
      dl_buyer = changed buyer, dl_asset = changed (ka_address asset), dl_collection = shown (collection_or_core asset),
      dl_core_program = shown CORE_ID, dl_system_program = shown SYSTEM,
      dl_event_authority = shown EVENT_AUTHORITY, dl_program = shown ID\<rparr> outcome L"
proof -
  have "i = sdk_instruction [21, outcome] [rw payer True, ro pool False, rw pull False, rw buyer False, rw (ka_address asset) False,
      ro (collection_or_core asset) False, ro CORE_ID False, ro SYSTEM False]"
    using d by (auto simp: sdk_deliver_one_def split: if_splits)
  then show ?thesis using P U u
    by (simp add: process_instruction_def deliver_def try_deliver_accounts_def try_deliver_data_def)
qed

text \<open>\<open>Pull::deliver\<close> makes one instruction per award that is not delivered, in order.\<close>

lemma map_res_nth:
  "map_res f xs = Inr ys \<Longrightarrow> length ys = length xs \<and> (\<forall>i < length xs. f (xs ! i) = Inr (ys ! i))"
proof (induction xs arbitrary: ys)
  case (Cons x xs)
  then show ?case by (auto simp: nth_Cons split: nat.splits)
qed simp

definition undelivered :: "pull \<Rightarrow> nat list" where
  "undelivered u = filter (\<lambda>i. outcome_tier (pull_outcomes u ! i) \<noteq> DELIVERED) [0..<unat (pull_count u)]"

lemma sdk_outcomes_Inr:
  assumes "sdk_outcomes u = Inr outs"
  shows "pull_status (sdk_pull_header u) \<noteq> STATUS_PENDING" and "length outs = unat (pull_count (sdk_pull_header u))"
    and "\<And>i. i < length outs \<Longrightarrow> ko_asset (outs ! i) = outcome_asset (pull_outcomes (sdk_pull_header u) ! i) \<and>
      (ko_tier (outs ! i) \<noteq> None \<longleftrightarrow> outcome_tier (pull_outcomes (sdk_pull_header u) ! i) \<noteq> DELIVERED)"
proof -
  let ?h = "sdk_pull_header u"
  have st: "sdk_pull_status u = Settled" and
    m: "map_res (\<lambda>i. and_then (sdk_total (pull_outcome ?h i)) (\<lambda>(tier, asset).
      Inr \<lparr>ko_asset = asset, ko_tier = (if tier \<noteq> DELIVERED then Some tier else None)\<rparr>)) [0..<unat (pull_count ?h)] = Inr outs"
    using assms by (auto simp: sdk_outcomes_def Let_def split: if_splits)
  from st show "pull_status ?h \<noteq> STATUS_PENDING" by (simp add: sdk_pull_status_def split: if_splits)
  show len: "length outs = unat (pull_count ?h)" using map_res_nth [OF m] by simp
  fix i assume "i < length outs"
  then have "and_then (sdk_total (pull_outcome ?h i)) (\<lambda>(tier, asset).
      Inr \<lparr>ko_asset = asset, ko_tier = (if tier \<noteq> DELIVERED then Some tier else None)\<rparr>) = Inr (outs ! i)"
    using map_res_nth [OF m] len by simp
  then show "ko_asset (outs ! i) = outcome_asset (pull_outcomes ?h ! i) \<and>
      (ko_tier (outs ! i) \<noteq> None \<longleftrightarrow> outcome_tier (pull_outcomes ?h ! i) \<noteq> DELIVERED)"
    by (cases "outs ! i") (auto simp: pull_outcome_def sdk_total_def split: if_splits)
qed

lemma pending_outcomes:
  assumes "length outs = n" "\<And>i. i < n \<Longrightarrow> ko_tier (outs ! i) \<noteq> None \<longleftrightarrow> Q i"
  shows "filter (\<lambda>(i, o'). ko_tier o' \<noteq> None) (enumerate 0 outs) = map (\<lambda>i. (i, outs ! i)) (filter Q [0..<n])"
proof -
  have "enumerate 0 outs = map (\<lambda>i. (i, outs ! i)) [0..<n]"
    using assms(1) by (intro nth_equalityI) (simp_all add: nth_enumerate_eq)
  moreover have "filter (\<lambda>i. ko_tier (outs ! i) \<noteq> None) [0..<n] = filter Q [0..<n]"
    by (rule filter_cong) (use assms(2) in auto)
  ultimately show ?thesis by (simp add: filter_map comp_def del: not_None_eq)
qed

lemma deliveries:
  assumes d: "sdk_deliver K u assets payer = Inr groups"
  defines "h \<equiv> sdk_pull_header u"
  shows "length (concat groups) = length (undelivered h)" "length assets = length (undelivered h)"
    and "\<And>n. n < length (undelivered h) \<Longrightarrow> ka_address (assets ! n) = outcome_asset (pull_outcomes h ! (undelivered h ! n)) \<and>
      sdk_deliver_one (pull_pool h) (ku_address u) (pull_buyer h) (assets ! n) (word_of_nat (undelivered h ! n)) payer =
        Inr (concat groups ! n)"
proof -
  let ?f = "\<lambda>((i, outcome), asset).
      if ko_asset outcome \<noteq> ka_address asset then Inl SdkInvalidAsset
      else sdk_deliver_one (pull_pool h) (ku_address u) (pull_buyer h) asset (word_of_nat i) payer"
  obtain outs where o: "sdk_outcomes u = Inr outs"
    using d by (cases "sdk_outcomes u") (simp_all add: sdk_deliver_def)
  note O = sdk_outcomes_Inr [OF o, folded h_def]
  have todo: "filter (\<lambda>(i, o'). ko_tier o' \<noteq> None) (enumerate 0 outs) = map (\<lambda>i. (i, outs ! i)) (undelivered h)"
    unfolding undelivered_def by (rule pending_outcomes) (use O(2,3) in auto)
  obtain instructions where len: "length (undelivered h) = length assets"
    and m: "map_res ?f (zip (map (\<lambda>i. (i, outs ! i)) (undelivered h)) assets) = Inr instructions"
    and b: "batches K [] instructions payer = Inr groups"
    using d o by (auto simp: sdk_deliver_def todo h_def [symmetric] Let_def simp del: not_None_eq split: if_splits)
  have all: "concat groups = instructions" using batches_Inr(1) [OF b] by simp
  show "length assets = length (undelivered h)" "length (concat groups) = length (undelivered h)"
    using len all map_res_nth [OF m] by simp_all
  fix n assume n: "n < length (undelivered h)"
  then have "undelivered h ! n \<in> set (undelivered h)" by simp
  then have i: "undelivered h ! n < length outs" using O(2) by (simp add: undelivered_def)
  have "?f ((undelivered h ! n, outs ! (undelivered h ! n)), assets ! n) = Inr (concat groups ! n)"
    using map_res_nth [OF m] n len all by simp
  then show "ka_address (assets ! n) = outcome_asset (pull_outcomes h ! (undelivered h ! n)) \<and>
      sdk_deliver_one (pull_pool h) (ku_address u) (pull_buyer h) (assets ! n) (word_of_nat (undelivered h ! n)) payer =
        Inr (concat groups ! n)"
    using O(3) [OF i] by (auto split: if_splits)
qed

text \<open>
  C36: the deliveries that the SDK builds deliver the awards. \<open>Pull::deliver\<close> returns one instruction
  for every award that is not delivered yet, in order; and each, on any ledger in which the pull is
  still the same settled purchase, reaches \<open>process\<close> with its outcome's index and the asset that the
  pull recorded for it.
\<close>

theorem sdk_deliver_runs:
  assumes "sdk_deliver K u assets payer = Inr groups"
  defines "h \<equiv> sdk_pull_header u"
  shows "length (concat groups) = length (undelivered h) \<and> (\<forall>n < length (undelivered h).
    ka_address (assets ! n) = outcome_asset (pull_outcomes h ! (undelivered h ! n)) \<and>
    (\<forall>E L p v. load_pool L (shown (pull_pool h)) = Inr p \<longrightarrow> load_pull L (changed (ku_address u)) = Inr v \<longrightarrow>
      pull_pool v = pull_pool h \<longrightarrow> pull_buyer v = pull_buyer h \<longrightarrow> pull_status v = STATUS_SETTLED \<longrightarrow>
      execute E (concat groups ! n) L = deliver_process E \<lparr>dl_payer = payer_of payer, dl_pool = shown (pull_pool h),
        dl_pull = changed (ku_address u), dl_buyer = changed (pull_buyer h), dl_asset = changed (ka_address (assets ! n)),
        dl_collection = shown (collection_or_core (assets ! n)), dl_core_program = shown CORE_ID,
        dl_system_program = shown SYSTEM, dl_event_authority = shown EVENT_AUTHORITY, dl_program = shown ID\<rparr>
        (word_of_nat (undelivered h ! n)) L))"
proof -
  note D = deliveries [OF assms(1), folded h_def]
  show ?thesis
  proof (intro conjI allI impI)
    show "length (concat groups) = length (undelivered h)" by (rule D(1))
  next
    fix n assume n: "n < length (undelivered h)"
    then show "ka_address (assets ! n) = outcome_asset (pull_outcomes h ! (undelivered h ! n))" using D(3) by blast
  next
    fix n E L p v
    assume n: "n < length (undelivered h)" and P: "load_pool L (shown (pull_pool h)) = Inr p"
      and U: "load_pull L (changed (ku_address u)) = Inr v"
      and v: "pull_pool v = pull_pool h" "pull_buyer v = pull_buyer h" "pull_status v = STATUS_SETTLED"
    show "execute E (concat groups ! n) L = deliver_process E \<lparr>dl_payer = payer_of payer, dl_pool = shown (pull_pool h),
        dl_pull = changed (ku_address u), dl_buyer = changed (pull_buyer h), dl_asset = changed (ka_address (assets ! n)),
        dl_collection = shown (collection_or_core (assets ! n)), dl_core_program = shown CORE_ID,
        dl_system_program = shown SYSTEM, dl_event_authority = shown EVENT_AUTHORITY, dl_program = shown ID\<rparr>
        (word_of_nat (undelivered h ! n)) L"
      using D(3) [OF n] by (intro deliver_accepted [OF _ P U v(1,3,2)]) simp
  qed
qed

subsection \<open>A settlement, end to end\<close>

text \<open>
  The Items of a pool are at the addresses that the search for a program address finds: the SDK
  derives the addresses of the Items that way, and refuses the accounts of others.
\<close>

definition canonical_items :: "sdk_env \<Rightarrow> ledger \<Rightarrow> pubkey \<Rightarrow> bool" where
  "canonical_items K L pool \<longleftrightarrow> (\<forall>I i. load_item L I = Inr i \<longrightarrow> item_pool i = pool \<longrightarrow>
     info_key I = fst (item_address_for K pool (item_tier i) (item_position i)))"

lemma map_nth_eqI: "length xs = length ys \<Longrightarrow> (\<And>n. n < length ys \<Longrightarrow> xs ! n = f (ys ! n)) \<Longrightarrow> xs = map f ys"
  by (rule nth_equalityI) simp_all

text \<open>At canonical addresses, the Item accounts of a settlement are those that the plan names.\<close>

lemma planned_items:
  assumes items_at: "canonical_items K L A" and len: "length ds = length items"
    and metas: "\<forall>I \<in> set items. is_writable I \<and> \<not> is_signer I"
    and at: "\<forall>d \<in> set ds. kd_item d = fst (item_address_for K A (kd_tier d) (kd_position d))"
    and its: "\<And>n. n < length items \<Longrightarrow> \<exists>it. load_item L (items ! n) = Inr it \<and> item_pool it = A \<and>
      item_tier it = kd_tier (ds ! n) \<and> item_position it = kd_position (ds ! n)"
  shows "items = map (\<lambda>d. changed (kd_item d)) ds"
proof (rule map_nth_eqI)
  fix n assume n: "n < length ds"
  then obtain it where it: "load_item L (items ! n) = Inr it" "item_pool it = A" "item_tier it = kd_tier (ds ! n)"
    "item_position it = kd_position (ds ! n)" using its len by auto
  have "info_key (items ! n) = kd_item (ds ! n)" using items_at it at n by (auto simp: canonical_items_def)
  moreover have "is_writable (items ! n)" "\<not> is_signer (items ! n)" using metas n len by simp_all
  ultimately show "items ! n = changed (kd_item (ds ! n))" by simp
qed (simp add: len)

lemma settlement_lives:
  assumes ok: "runtime_ok E" "closes E" "emits E (shown EVENT_AUTHORITY) (shown ID)" and K: "host_agrees K E"
    and so: "sound L" and items_at: "canonical_items K L A"
    and P: "load_pool L (changed A) = Inr p" and U: "load_pull L (changed U) = Inr u"
    and head: "pull_pool u = A" "pull_status u = STATUS_PENDING" "pull_index u = pool_next_settle p"
    and clock: "env_clock E = Inr clock" "clock_slot clock \<le> pull_deadline_slot u"
    and vrf: "env_proof_verify E data (pool_operator p) (env_sha256 E (to_le U @ to_le (pull_client_seed u))) = Some beta"
      "length data = 80" "length beta = 64"
    and rent: "acct_owner (L (pool_operator p)) \<noteq> ID" "\<forall>k. unat (acct_lamports (L k)) \<le> 10 ^ 18"
  shows "\<exists>S L'. sdk_settle K \<lparr>kp_address = A, kp_data = acct_data (L A)\<rparr> \<lparr>ku_address = U, ku_data = acct_data (L U)\<rparr> data = Inr S \<and>
    execute E (settlement_instruction S) L = Inr L' \<and> length (ks_draws S) = unat (pull_count u) \<and>
    (\<forall>n < length (ks_draws S). \<exists>it. load_item L (changed (kd_item (ks_draws S ! n))) = Inr it \<and>
      pull_outcomes (pull_at L' (changed U)) ! n = \<lparr>outcome_tier = kd_tier (ks_draws S ! n), outcome_asset = item_asset it\<rparr>)"
proof -
  let ?A = "changed A" and ?U = "changed U" and ?O = "changed (pool_operator p)"
  let ?tail = "[shown EVENT_AUTHORITY, shown ID]"
  let ?hp = "\<lparr>kp_address = A, kp_data = acct_data (L A)\<rparr>" and ?hu = "\<lparr>ku_address = U, ku_data = acct_data (L U)\<rparr>"
  have pu: "pool_at L ?A = p" "pull_at L ?U = u" using P U by (simp_all add: load_pool_Inr load_pull_Inr)
  have Pok: "pool_ok L ?A (tags_at L ?A)" using so P ledger_okD by (auto simp: sound_def)
  have inv: "protocol_inv (protocol_of L)" using so by (simp add: sound_def)
  have pinned: "unat (pull_inventory_version (pull_at L ?U)) \<le> length (tags_at L ?A)"
    using head_reserved [OF inv, of A "stock_pool_at L ?A" U u] reads(1) [OF P] reads(2) [OF U] head pu
    by (simp add: stock_pool_at_eq [OF Pok])
  obtain items L' where items: "\<forall>I \<in> set items. is_writable I \<and> \<not> is_signer I"
    and run: "settle E (?O # ?A # ?U # items @ ?tail) data L = Inr L'"
    using settle_lives [OF ok so P U _ head(2,3) clock _ vrf(2,3), of ?O] head(1) vrf(1) rent by (auto simp: acct_def)
  have same: "\<And>x. sk_sha256 K x = env_sha256 E x" "sk_proof_verify K = env_proof_verify E"
    using host_agreesD(2,3) [OF K] by simp_all
  obtain S where S: "sdk_settle K ?hp ?hu data = Inr S" "length (ks_draws S) = length items" "ks_pool S = A" "ks_pull S = U"
    "ks_operator S = pool_operator p" "ks_proof S = data"
    and at: "\<forall>d \<in> set (ks_draws S). kd_item d = fst (item_address_for K A (kd_tier d) (kd_position d))"
    and its: "\<forall>n < length items. \<exists>it. load_item L (items ! n) = Inr it \<and> item_pool it = ks_pool S \<and>
      item_tier it = kd_tier (ks_draws S ! n) \<and> item_position it = kd_position (ks_draws S ! n) \<and>
      pull_outcomes (pull_at L' ?U) ! n = \<lparr>outcome_tier = kd_tier (ks_draws S ! n), outcome_asset = item_asset it\<rparr>"
    using host_plan [OF ok(1) Pok pinned run same] pu by (auto simp: data_of_def)
  have items_eq: "items = map (\<lambda>d. changed (kd_item d)) (ks_draws S)"
    by (rule planned_items [OF items_at S(2) items at]) (use its S(3) in auto)
  have "execute E (settlement_instruction S) L = settle E (?O # ?A # ?U # items @ ?tail) data L"
    unfolding items_eq by (simp add: settlement_instruction_def S process_instruction_def comp_def)
  moreover have "length items = unat (pull_count u)" using settle_Inr [OF ok(1) Pok pinned run] pu(2) by auto
  moreover have "\<exists>it. load_item L (changed (kd_item (ks_draws S ! n))) = Inr it \<and>
      pull_outcomes (pull_at L' ?U) ! n = \<lparr>outcome_tier = kd_tier (ks_draws S ! n), outcome_asset = item_asset it\<rparr>"
    if "n < length (ks_draws S)" for n
  proof -
    have "items ! n = changed (kd_item (ks_draws S ! n))" using that by (simp add: items_eq)
    then show ?thesis using its that S(2) by auto
  qed
  ultimately show ?thesis using S(1,2) run by (intro exI [of _ S] exI [of _ L']) simp
qed

text \<open>
  C5: the settlement that the SDK plans executes. On a sound ledger whose Items are at their derived
  addresses, with a proof for the head of the queue and before its deadline, the SDK returns a plan
  from snapshots of the two accounts; the entrypoint executes the instruction of that plan; and the
  pull then records, draw by draw, the planned tier and the asset of the planned Item.
\<close>

theorem sdk_settlement_runs:
  assumes ok: "runtime_ok E" "closes E" "emits E (shown EVENT_AUTHORITY) (shown ID)" and K: "host_agrees K E"
    and so: "sound L" and items_at: "canonical_items K L A"
    and P: "load_pool L (changed A) = Inr p" and U: "load_pull L (changed U) = Inr u"
    and head: "pull_pool u = A" "pull_status u = STATUS_PENDING" "pull_index u = pool_next_settle p"
    and clock: "env_clock E = Inr clock" "clock_slot clock \<le> pull_deadline_slot u"
    and vrf: "env_proof_verify E data (pool_operator p) (env_sha256 E (to_le U @ to_le (pull_client_seed u))) = Some beta"
      "length data = 80" "length beta = 64"
    and rent: "acct_owner (L (pool_operator p)) \<noteq> ID" "\<forall>k. unat (acct_lamports (L k)) \<le> 10 ^ 18"
  shows "\<exists>S L'. sdk_settle K \<lparr>kp_address = A, kp_data = acct_data (L A)\<rparr> \<lparr>ku_address = U, ku_data = acct_data (L U)\<rparr> data = Inr S \<and>
    execute E (settlement_instruction S) L = Inr L' \<and> length (ks_draws S) = unat (pull_count u) \<and>
    (\<forall>n < length (ks_draws S). \<exists>it. load_item L (changed (kd_item (ks_draws S ! n))) = Inr it \<and>
      pull_outcomes (pull_at L' (changed U)) ! n = \<lparr>outcome_tier = kd_tier (ks_draws S ! n), outcome_asset = item_asset it\<rparr>)"
  by (rule settlement_lives [OF assms])

end
