(* ===== verification/Client_Correct.thy ===== *)
theory Client_Correct
  imports Client Sdk_View Sdk_Accept
begin

section \<open>The client reads coherently\<close>

text \<open>
  A node reads a chain: an answer at a slot shows accounts as they are at that slot. Then the
  client's composed operations use one state for the pool and the pull, never go back to an older
  slot, and the settlement they return executes.
\<close>

definition sliced :: "nat option \<Rightarrow> bytes \<Rightarrow> bytes" where
  "sliced len d = (case len of None \<Rightarrow> d | Some n \<Rightarrow> take n d)"

definition reads_chain :: "rpc_node \<Rightarrow> (u64 \<Rightarrow> ledger) \<Rightarrow> bool" where
  "reads_chain node chain \<longleftrightarrow> (\<forall>q log r k a. node (q # log) = Inr r \<longrightarrow> (k, Some a) \<in> set (zip (rq_keys q) (rs_value r)) \<longrightarrow>
     ra_owner a \<in> {None, Some (acct_owner (chain (rs_slot r) k))} \<and>
     ra_data a \<in> {None, Some (sliced (rq_length q) (acct_data (chain (rs_slot r) k)))})"

lemma client_bind_Inr [simp]:
  "client_bind m f log = (Inr y, log') \<longleftrightarrow> (\<exists>x log1. m log = (Inr x, log1) \<and> f x log1 = (Inr y, log'))"
  by (auto simp: client_bind_def split: sum.splits prod.splits)

lemma client_bind_pair [simp]:
  "client_bind m (\<lambda>(x, y). f x y) log = (Inr z, log') \<longleftrightarrow> (\<exists>x y log1. m log = (Inr (x, y), log1) \<and> f x y log1 = (Inr z, log'))"
  by auto

lemma lift_Inr [simp]:
  "lift_rpc r log = (Inr x, log') \<longleftrightarrow> r = Inr x \<and> log' = log"
  "lift_sdk s log = (Inr x, log') \<longleftrightarrow> s = Inr x \<and> log' = log"
  by (auto simp: lift_rpc_def lift_sdk_def split: sum.splits)

lemma account_at_Inr [simp]: "account_at xs i log = (Inr x, log') \<longleftrightarrow> i < length xs \<and> x = xs ! i \<and> log' = log"
  by (auto simp: account_at_def)

lemma read_account_Inr:
  "read_account (k, entry) = Inr (owner, data) \<longleftrightarrow>
   (\<exists>a. entry = Some a \<and> ra_owner a = Some owner \<and> ra_data a = Some data)"
  by (auto simp: read_account_def split: option.splits)

lemma client_read_chain:
  assumes chain: "reads_chain node chain" and r: "client_read node keys minimum len log = (Inr (slot, accounts), log')"
  shows "accounts = map (\<lambda>k. (acct_owner (chain slot k), sliced len (acct_data (chain slot k)))) keys"
    and "log' = \<lparr>rq_keys = keys, rq_minimum = minimum, rq_length = len\<rparr> # log" "\<not> too_old minimum slot"
proof -
  let ?q = "\<lparr>rq_keys = keys, rq_minimum = minimum, rq_length = len\<rparr>"
  from r obtain response where n: "node (?q # log) = Inr response" and len: "length (rs_value response) = length keys"
    and slot: "\<not> too_old minimum (rs_slot response)" "rs_slot response = slot" "log' = ?q # log"
    and acc: "map_res read_account (zip keys (rs_value response)) = Inr accounts"
    by (auto simp: client_read_def Let_def split: sum.splits if_splits)
  show "log' = ?q # log" "\<not> too_old minimum slot" using slot by simp_all
  show "accounts = map (\<lambda>k. (acct_owner (chain slot k), sliced len (acct_data (chain slot k)))) keys"
  proof (rule nth_equalityI)
    show "length accounts = length (map (\<lambda>k. (acct_owner (chain slot k), sliced len (acct_data (chain slot k)))) keys)"
      using map_res_nth [OF acc] len by simp
    fix i assume "i < length accounts"
    then have i: "i < length keys" using map_res_nth [OF acc] len by simp
    obtain owner data where od: "accounts ! i = (owner, data)" by fastforce
    have "read_account (zip keys (rs_value response) ! i) = Inr (accounts ! i)" using map_res_nth [OF acc] i len by simp
    then have "read_account (keys ! i, rs_value response ! i) = Inr (owner, data)" using i len od by simp
    then obtain a where a: "rs_value response ! i = Some a" "ra_owner a = Some owner" "ra_data a = Some data"
      using read_account_Inr by blast
    then have "(keys ! i, Some a) \<in> set (zip keys (rs_value response))" using i len by (force simp: in_set_zip)
    then have "owner = acct_owner (chain slot (keys ! i)) \<and> data = sliced len (acct_data (chain slot (keys ! i)))"
      using chain n a slot(2) unfolding reads_chain_def by fastforce
    then show "accounts ! i = map (\<lambda>k. (acct_owner (chain slot k), sliced len (acct_data (chain slot k)))) keys ! i"
      using od i by simp
  qed
qed

subsection \<open>Decoded pulls and items\<close>

lemma pull_from_account_Inr:
  assumes "pull_from_account K address owner data = Inr u"
  shows "u = \<lparr>ku_address = address, ku_data = data\<rparr>" "owner = ID" "length data = PULL_LEN"
    "pull_version (decode_pull data) = PULL_VERSION"
    "pull_address_for K (pull_pool (decode_pull data)) (pull_client_seed (decode_pull data)) = (address, pull_bump (decode_pull data))"
proof -
  obtain x where x: "sdk_check owner data PULL_LEN PULL_VERSION = Inr x"
    using assms by (cases "sdk_check owner data PULL_LEN PULL_VERSION") (simp_all add: pull_from_account_def)
  then have c: "owner = ID" "data \<noteq> []" "data ! 0 = PULL_VERSION" by (simp_all add: sdk_check_Inr)
  have "u = \<lparr>ku_address = address, ku_data = data\<rparr> \<and> length data = PULL_LEN \<and>
      pull_address_for K (pull_pool (decode_pull data)) (pull_client_seed (decode_pull data)) = (address, pull_bump (decode_pull data))"
    using assms x by (auto simp: pull_from_account_def Let_def sdk_pull_header_def split: if_splits)
  moreover have "pull_version (decode_pull data) = data ! 0"
    using c(2) by (cases data) (simp_all add: decode_pull_def slice_def from_le_def)
  ultimately show "u = \<lparr>ku_address = address, ku_data = data\<rparr>" "owner = ID" "length data = PULL_LEN"
    "pull_version (decode_pull data) = PULL_VERSION"
    "pull_address_for K (pull_pool (decode_pull data)) (pull_client_seed (decode_pull data)) = (address, pull_bump (decode_pull data))"
    using c by simp_all
qed

lemma item_from_account_Inr:
  assumes "item_from_account K address owner data = Inr i"
  shows "i = \<lparr>ki_address = address, ki_data = data\<rparr>" "owner = ID" "length data = ITEM_LEN"
  using assms by (auto simp: item_from_account_def Let_def sdk_check_Inr split: if_splits)

lemma asset_from_account_Inr:
  "asset_from_account address owner data = Inr a \<Longrightarrow> ka_address a = address"
  by (auto simp: asset_from_account_def split: sum.splits)

subsection \<open>The snapshot of a settlement\<close>

lemma slot_order: "\<not> too_old (Some m) slot \<longleftrightarrow> m \<le> slot"
  by (auto simp: too_old_def not_less)

lemma client_snapshot_chain:
  assumes chain: "reads_chain node chain" and r: "client_snapshot node K U True log = (Inr (P, u, slot), log')"
  shows "\<exists>A s first. first \<le> slot \<and> pool_from_account K A (acct_owner (chain slot A)) (acct_data (chain slot A)) = Inr P \<and>
    pull_from_account K U (acct_owner (chain slot U)) (acct_data (chain slot U)) = Inr u \<and>
    pull_from_account K U (acct_owner (chain first U)) (acct_data (chain first U)) = Inr s \<and> A = pull_pool (sdk_pull_header s)"
proof -
  from r obtain first acc1 log1 s acc2 log2 where
    r1: "client_read node [U] None None log = (Inr (first, acc1), log1)" and
    p1: "pull_from_account K U (fst (acc1 ! 0)) (snd (acc1 ! 0)) = Inr s" and
    r2: "client_read node [pull_pool (sdk_pull_header s), U] (Some first) None log1 = (Inr (slot, acc2), log2)" and
    p2: "pool_from_account K (pull_pool (sdk_pull_header s)) (fst (acc2 ! 0)) (snd (acc2 ! 0)) = Inr P" and
    p3: "pull_from_account K U (fst (acc2 ! 1)) (snd (acc2 ! 1)) = Inr u"
    by (auto simp: client_snapshot_def Let_def case_prod_beta)
  note c1 = client_read_chain [OF chain r1] and c2 = client_read_chain [OF chain r2]
  show ?thesis
    using p1 p2 p3 c1(1) c2(1,3)
    by (intro exI [of _ "pull_pool (sdk_pull_header s)"] exI [of _ s] exI [of _ first]) (simp add: sliced_def slot_order)
qed

text \<open>The Items and the assets of a settlement are those of the plan, in its order.\<close>

lemma client_items:
  assumes chain: "reads_chain node chain" and rd: "client_read node (map kd_item ds) minimum None log = (Inr (slot, acc), log')"
    and its: "map_res (\<lambda>(key, owner, data). item_from_account K key owner data) (zip (map kd_item ds) acc) = Inr items"
  shows "items = map (\<lambda>d. \<lparr>ki_address = kd_item d, ki_data = acct_data (chain slot (kd_item d))\<rparr>) ds"
proof (rule map_nth_eqI)
  note c = client_read_chain [OF chain rd]
  show "length items = length ds" using map_res_nth [OF its] c(1) by simp
  fix i assume i: "i < length ds"
  then have "item_from_account K (kd_item (ds ! i)) (acct_owner (chain slot (kd_item (ds ! i))))
      (acct_data (chain slot (kd_item (ds ! i)))) = Inr (items ! i)"
    using map_res_nth [OF its] c(1) by (simp add: sliced_def)
  then show "items ! i = \<lparr>ki_address = kd_item (ds ! i), ki_data = acct_data (chain slot (kd_item (ds ! i)))\<rparr>"
    by (rule item_from_account_Inr(1))
qed

lemma client_assets_keys:
  assumes chain: "reads_chain node chain" and got: "client_assets node keys minimum log = (Inr assets, log')"
  shows "map ka_address assets = keys"
proof (cases "keys = []")
  case True
  then show ?thesis using got by (simp add: client_assets_def)
next
  case False
  then obtain s acc log1 where "client_read node keys minimum (Some 66) log = (Inr (s, acc), log1)"
    and m: "map_res (\<lambda>(key, owner, data). asset_from_account key owner data) (zip keys acc) = Inr assets"
    using got by (auto simp: client_assets_def)
  then have len: "length acc = length keys" using client_read_chain(1) [OF chain] by fastforce
  show ?thesis
  proof (rule nth_equalityI)
    fix i assume "i < length (map ka_address assets)"
    then have i: "i < length keys" "i < length assets" using map_res_nth [OF m] len by simp_all
    then have "asset_from_account (keys ! i) (fst (acc ! i)) (snd (acc ! i)) = Inr (assets ! i)"
      using map_res_nth [OF m] len by (simp add: case_prod_beta)
    then show "map ka_address assets ! i = keys ! i" using i(2) asset_from_account_Inr by simp
  qed (use map_res_nth [OF m] len in simp)
qed

lemma client_settle_chain:
  assumes chain: "reads_chain node chain" and r: "client_settle node K U proof_bytes payer log = (Inr groups, log')"
  shows "\<exists>A slot P u S later items assets.
    pool_from_account K A (acct_owner (chain slot A)) (acct_data (chain slot A)) = Inr P \<and>
    pull_from_account K U (acct_owner (chain slot U)) (acct_data (chain slot U)) = Inr u \<and>
    sdk_settle K P u proof_bytes = Inr S \<and> slot \<le> later \<and>
    items = map (\<lambda>d. \<lparr>ki_address = kd_item d, ki_data = acct_data (chain later (kd_item d))\<rparr>) (ks_draws S) \<and>
    map ka_address assets = map (\<lambda>item. item_asset (sdk_item_header item)) items \<and>
    settlement_instructions K S items assets payer = Inr groups"
proof -
  from r obtain P u slot log1 S later acc log2 items assets log3 where
    s: "client_snapshot node K U True log = (Inr (P, u, slot), log1)" and S: "sdk_settle K P u proof_bytes = Inr S" and
    rd: "client_read node (map kd_item (ks_draws S)) (Some slot) None log1 = (Inr (later, acc), log2)" and
    its: "map_res (\<lambda>(key, owner, data). item_from_account K key owner data) (zip (map kd_item (ks_draws S)) acc) = Inr items" and
    ass: "client_assets node (map (\<lambda>item. item_asset (sdk_item_header item)) items) (Some later) log2 = (Inr assets, log3)" and
    g: "settlement_instructions K S items assets payer = Inr groups"
    by (auto simp: client_settle_def Let_def)
  note c = client_read_chain [OF chain rd]
  from client_snapshot_chain [OF chain s] obtain A where
    "pool_from_account K A (acct_owner (chain slot A)) (acct_data (chain slot A)) = Inr P"
    "pull_from_account K U (acct_owner (chain slot U)) (acct_data (chain slot U)) = Inr u" by blast
  then show ?thesis
    using S c(3) client_items [OF chain rd its] client_assets_keys [OF chain ass] g
    by (intro exI [of _ A] exI [of _ slot] exI [of _ P] exI [of _ u] exI [of _ S] exI [of _ later] exI [of _ items]
        exI [of _ assets]) (simp add: slot_order)
qed

subsection \<open>The returned settlement executes\<close>

lemma settlement_first:
  assumes "settlement_instructions K S items assets payer = Inr groups"
  shows "\<exists>rest. concat groups = settlement_instruction S # rest"
proof -
  obtain deliveries where "batches K [settlement_instruction S] deliveries payer = Inr groups"
    using assms by (auto simp: settlement_instructions_def split: if_splits)
  then show ?thesis using batches_Inr(1) by fastforce
qed

text \<open>An accepted complete pool and an accepted pull are what the program loads.\<close>

lemma accepted_loads:
  assumes P: "pool_from_account K A (acct_owner (L A)) (acct_data (L A)) = Inr P"
    and u: "pull_from_account K U (acct_owner (L U)) (acct_data (L U)) = Inr u"
    and full: "length (kp_data P) = POOL_LEN + inventory_space (pool_inventory_version (sdk_header P))"
  shows "load_pool L (changed A) = Inr (sdk_header P)" "load_pull L (changed U) = Inr (sdk_pull_header u)"
    "P = \<lparr>kp_address = A, kp_data = acct_data (L A)\<rparr>" "u = \<lparr>ku_address = U, ku_data = acct_data (L U)\<rparr>"
proof -
  note iff = P [unfolded pool_from_account_iff]
  from iff show P': "P = \<lparr>kp_address = A, kp_data = acct_data (L A)\<rparr>" by blast
  note U = pull_from_account_Inr [OF u]
  show "u = \<lparr>ku_address = U, ku_data = acct_data (L U)\<rparr>" by (rule U(1))
  show "load_pool L (changed A) = Inr (sdk_header P)"
    using iff full by (auto simp: load_pool_Inr acct_def data_of_def pool_at_def sdk_header_def pool_view_def)
  show "load_pull L (changed U) = Inr (sdk_pull_header u)"
    using U by (simp add: load_pull_Inr acct_def data_of_def pull_at_def sdk_pull_header_def)
qed

lemma same_at_account: "same_at k L L' \<Longrightarrow> acct_owner (L' k) = acct_owner (L k) \<and> acct_data (L' k) = acct_data (L k)"
  by (simp add: same_at_def)

lemma plan_executes:
  assumes ok: "runtime_ok E" "closes E" "emits E (shown EVENT_AUTHORITY) (shown ID)" and K: "host_agrees K E"
    and P: "pool_from_account K A (acct_owner (L A)) (acct_data (L A)) = Inr P"
    and u: "pull_from_account K U (acct_owner (L U)) (acct_data (L U)) = Inr u"
    and S: "sdk_settle K P u proof_bytes = Inr S"
    and len: "length proof_bytes = 80" "\<And>key alpha beta. env_proof_verify E proof_bytes key alpha = Some beta \<Longrightarrow> length beta = 64"
    and clock: "env_clock E = Inr clock" "clock_slot clock \<le> pull_deadline_slot (sdk_pull_header u)"
    and so: "sound L" "canonical_items K L A"
    and rent: "acct_owner (L (pool_operator (sdk_header P))) \<noteq> ID" "\<forall>k. unat (acct_lamports (L k)) \<le> 10 ^ 18"
  shows "\<exists>L'. execute E (settlement_instruction S) L = Inr L'"
proof -
  let ?p = "sdk_header P" and ?v = "sdk_pull_header u"
  obtain x where x: "sdk_pending P u = Inr x" using S by (cases "sdk_pending P u") (simp_all add: sdk_settle_def)
  note pend = sdk_pendingD [OF x]
  obtain beta where full: "length (kp_data P) = POOL_LEN + inventory_space (pool_inventory_version ?p)"
    and beta: "sk_proof_verify K proof_bytes (pool_operator ?p) (sdk_alpha K u) = Some beta"
    using S x by (auto simp: sdk_settle_def Let_def ok_or_def split: if_splits option.splits)
  note loads = accepted_loads [OF P u full]
  have addr: "kp_address P = A" "ku_address u = U" by (simp_all only: loads(3,4) sdk_pool.simps sdk_pull.simps)
  have alpha: "sdk_alpha K u = env_sha256 E (to_le U @ to_le (pull_client_seed ?v))"
    using host_agreesD(2) [OF K] by (simp add: sdk_alpha_def addr)
  have vrf: "env_proof_verify E proof_bytes (pool_operator ?p) (env_sha256 E (to_le U @ to_le (pull_client_seed ?v))) = Some beta"
    using beta host_agreesD(3) [OF K] alpha by simp
  have head: "pull_pool ?v = A" "pull_status ?v = STATUS_PENDING" "pull_index ?v = pool_next_settle ?p"
    using pend addr by (auto simp: sdk_pull_status_def split: if_splits)
  from settlement_lives [OF ok K so loads(1,2) head clock vrf len(1) len(2) [OF vrf] rent] obtain S' L' where
    "sdk_settle K \<lparr>kp_address = A, kp_data = acct_data (L A)\<rparr> \<lparr>ku_address = U, ku_data = acct_data (L U)\<rparr> proof_bytes = Inr S'"
    "execute E (settlement_instruction S') L = Inr L'" by blast
  moreover from this(1) have "sdk_settle K P u proof_bytes = Inr S'" unfolding loads(3) [symmetric] loads(4) [symmetric] .
  ultimately show ?thesis using S by auto
qed

lemma client_settlement:
  assumes ok: "runtime_ok E" "closes E" "emits E (shown EVENT_AUTHORITY) (shown ID)" and K: "host_agrees K E"
    and chain: "reads_chain node chain" and r: "client_settle node K U proof_bytes payer log = (Inr groups, log')"
    and len: "length proof_bytes = 80" "\<And>key alpha beta. env_proof_verify E proof_bytes key alpha = Some beta \<Longrightarrow> length beta = 64"
    and clock: "env_clock E = Inr clock"
  shows "\<exists>A slot later P u S rest.
    pool_from_account K A (acct_owner (chain slot A)) (acct_data (chain slot A)) = Inr P \<and>
    pull_from_account K U (acct_owner (chain slot U)) (acct_data (chain slot U)) = Inr u \<and>
    sdk_settle K P u proof_bytes = Inr S \<and> slot \<le> later \<and>
    (\<exists>items assets. items = map (\<lambda>d. \<lparr>ki_address = kd_item d, ki_data = acct_data (chain later (kd_item d))\<rparr>) (ks_draws S) \<and>
      settlement_instructions K S items assets payer = Inr groups) \<and>
    concat groups = settlement_instruction S # rest \<and>
    (\<forall>L. same_at A (chain slot) L \<and> same_at U (chain slot) L \<and> sound L \<and> canonical_items K L A \<and>
       clock_slot clock \<le> pull_deadline_slot (sdk_pull_header u) \<and>
       acct_owner (L (pool_operator (sdk_header P))) \<noteq> ID \<and> (\<forall>k. unat (acct_lamports (L k)) \<le> 10 ^ 18) \<longrightarrow>
       (\<exists>L'. execute E (settlement_instruction S) L = Inr L'))"
proof -
  from client_settle_chain [OF chain r] obtain A slot P u S later items assets where
    P: "pool_from_account K A (acct_owner (chain slot A)) (acct_data (chain slot A)) = Inr P" and
    u: "pull_from_account K U (acct_owner (chain slot U)) (acct_data (chain slot U)) = Inr u" and
    S: "sdk_settle K P u proof_bytes = Inr S" "slot \<le> later"
      "items = map (\<lambda>d. \<lparr>ki_address = kd_item d, ki_data = acct_data (chain later (kd_item d))\<rparr>) (ks_draws S)" and
    g: "settlement_instructions K S items assets payer = Inr groups" by blast
  obtain rest where rest: "concat groups = settlement_instruction S # rest" using settlement_first [OF g] by blast
  have "\<exists>L'. execute E (settlement_instruction S) L = Inr L'"
    if L: "same_at A (chain slot) L" "same_at U (chain slot) L" "sound L" "canonical_items K L A"
      "clock_slot clock \<le> pull_deadline_slot (sdk_pull_header u)" "acct_owner (L (pool_operator (sdk_header P))) \<noteq> ID"
      "\<forall>k. unat (acct_lamports (L k)) \<le> 10 ^ 18" for L
  proof -
    have PL: "pool_from_account K A (acct_owner (L A)) (acct_data (L A)) = Inr P" using P same_at_account [OF L(1)] by simp
    have uL: "pull_from_account K U (acct_owner (L U)) (acct_data (L U)) = Inr u" using u same_at_account [OF L(2)] by simp
    show ?thesis by (rule plan_executes [OF ok K PL uL S(1) len clock L(5,3,4,6,7)])
  qed
  then show ?thesis using P u S g rest by blast
qed

text \<open>
  The program takes the bump of a pull from the buyer and accepts every bump that derives the pull's
  address; the SDK accepts only the address that its search finds. A purchase at another address is
  refused by every view of the SDK, so its client can neither settle nor refund it.
\<close>

lemma foreign_pull_refused:
  assumes ok: "runtime_ok E" and P: "pool_ok L P tags"
    and b: "buy E [buyer, P, U, buyer_ata, V, token_program, system_program, event_authority, program] data L = Inr L'"
    and foreign: "info_key U \<noteq> fst (pull_address_for K (info_key P) (from_le (slice 1 32 data)))"
  shows "pull_from_account K (info_key U) owner (data_of L' U) \<noteq> Inr u"
    and "reads_chain node (\<lambda>_. L') \<Longrightarrow> client_settle node K (info_key U) proof_bytes payer log \<noteq> (Inr groups, log')"
proof -
  obtain v where v: "load_pull L' U = Inr v" "pull_pool v = info_key P" "pull_client_seed v = from_le (slice 1 32 data)"
    using buy_Inr [OF ok P b] by blast
  then have d: "decode_pull (data_of L' U) = v" by (simp add: load_pull_Inr pull_at_def)
  have refused: "pull_from_account K (info_key U) owner (data_of L' U) \<noteq> Inr u" for owner u
    using pull_from_account_Inr(5) [of K "info_key U" owner "data_of L' U" u] foreign v(2,3) unfolding d by auto
  then show "pull_from_account K (info_key U) owner (data_of L' U) \<noteq> Inr u" .
  show "client_settle node K (info_key U) proof_bytes payer log \<noteq> (Inr groups, log')" if "reads_chain node (\<lambda>_. L')"
    using client_settle_chain [OF that] refused by (fastforce simp: data_of_def)
qed

text \<open>
  C11: what the client returns can be executed. If \<open>Client::settle\<close> returns instruction groups, then
  the pool and the pull it used are accounts of one slot, accepted by the SDK's checks, and the Items
  are those of the plan at a slot that is not older; the first instruction is the settlement of that
  plan; and it succeeds on every sound ledger in which those two accounts are unchanged, the deadline
  has not passed and the Items are at their derived addresses. This holds for a node that answers
  every request with accounts of any slot it likes, or with an error.
\<close>

theorem client_settlement_executes:
  assumes ok: "runtime_ok E" "closes E" "emits E (shown EVENT_AUTHORITY) (shown ID)" and K: "host_agrees K E"
    and chain: "reads_chain node chain" and r: "client_settle node K U proof_bytes payer log = (Inr groups, log')"
    and len: "length proof_bytes = 80" "\<forall>key alpha beta. env_proof_verify E proof_bytes key alpha = Some beta \<longrightarrow> length beta = 64"
    and clock: "env_clock E = Inr clock"
  shows "\<exists>A slot later P u S rest.
    pool_from_account K A (acct_owner (chain slot A)) (acct_data (chain slot A)) = Inr P \<and>
    pull_from_account K U (acct_owner (chain slot U)) (acct_data (chain slot U)) = Inr u \<and>
    sdk_settle K P u proof_bytes = Inr S \<and> slot \<le> later \<and>
    (\<exists>items assets. items = map (\<lambda>d. \<lparr>ki_address = kd_item d, ki_data = acct_data (chain later (kd_item d))\<rparr>) (ks_draws S) \<and>
      settlement_instructions K S items assets payer = Inr groups) \<and>
    concat groups = settlement_instruction S # rest \<and>
    (\<forall>L. same_at A (chain slot) L \<and> same_at U (chain slot) L \<and> sound L \<and> canonical_items K L A \<and>
       clock_slot clock \<le> pull_deadline_slot (sdk_pull_header u) \<and>
       acct_owner (L (pool_operator (sdk_header P))) \<noteq> ID \<and> (\<forall>k. unat (acct_lamports (L k)) \<le> 10 ^ 18) \<longrightarrow>
       (\<exists>L'. execute E (settlement_instruction S) L = Inr L'))"
  by (rule client_settlement [OF ok K chain r len(1) _ clock]) (use len(2) in blast)

end
