(* ===== verification/Sdk_Witnesses.thy ===== *)
theory Sdk_Witnesses
  imports System_Witnesses Client_Correct
begin

section \<open>The SDK on concrete ledgers\<close>

text \<open>
  A host whose library agrees with a runtime, a ledger whose Items are at their derived addresses and
  whose prizes are Core assets of the pool, and a node that reads it: the properties of the SDK and of
  the client are applied to them.
\<close>

subsection \<open>The host and the runtime\<close>

text \<open>Item addresses are told apart by the position, the others by the length of their seeds.\<close>

definition host_address :: "seeds \<Rightarrow> pubkey" where
  "host_address seeds =
     (if length seeds = 5 then 30 + word_of_nat (le_nat (seeds ! 3)) else word_of_nat (1000 + length (concat seeds)))"

definition host_env :: env where
  "host_env = example_env\<lparr>env_create_program_address := (\<lambda>seeds program. Some (host_address seeds))\<rparr>"

definition example_sdk :: sdk_env where
  "example_sdk = \<lparr>
     sk_sha256 = env_sha256 example_env,
     sk_find_program_address = (\<lambda>seeds program. (host_address (seeds @ [[0]]), 0)),
     sk_valid_key = (\<lambda>_. True),
     sk_proof_verify = env_proof_verify example_env,
     sk_token_address = (\<lambda>_ _ _. 2000),
     sk_create_token_account = (\<lambda>_ _ _ _. \<lparr>ins_program = 6, ins_accounts = [], ins_data = []\<rparr>),
     sk_message = (\<lambda>_ _. (1, []))\<rparr>"

lemma emit_host: "emit host_env = emit example_env"
  by (simp add: fun_eq_iff emit_def emit_data_def host_env_def)

lemma host_env_simps [simp]:
  "env_invoke host_env = example_invoke" "env_clock host_env = Inr \<lparr>clock_slot = 100, clock_unix_timestamp = 1000\<rparr>"
  "env_system_id host_env = 0" "env_token_id host_env = 5" "env_close host_env a = Inr system_account"
  "env_create_program_address host_env seeds program = Some (host_address seeds)"
  "env_sha256 host_env = env_sha256 example_env" "env_proof_verify host_env = env_proof_verify example_env"
  "env_realloc host_env = env_realloc example_env" "ata host_env owner mint = 2000"
  by (simp_all add: host_env_def ata_def) (simp_all add: example_env_def)

lemma host_runtime_ok: "runtime_ok host_env"
proof -
  have "runtime_ok host_env \<longleftrightarrow> runtime_ok example_env"
    by (simp only: runtime_ok_def invoke_law_def owner_law_def event_law_def create_law_def transfer_law_def allocate_law_def
        assign_law_def token_law_def core_law_def realloc_law_def close_law_def emit_host host_env_simps example_env_simps)
  then show ?thesis using example_runtime_ok by simp
qed

lemma host_agrees_example: "host_agrees example_sdk host_env"
  by (simp add: host_agrees_def example_sdk_def sdk_ata_def)

lemma host_laws: "closes host_env" "emits host_env (shown EVENT_AUTHORITY) (shown ID)"
  by (simp_all add: closes_def emits_def emit_host)

lemma example_sdk_simps [simp]:
  "sk_find_program_address example_sdk seeds program = (host_address (seeds @ [[0]]), 0)" "sk_valid_key example_sdk k"
  "sdk_ata example_sdk owner mint = 2000" "transaction_size example_sdk is payer = 65"
  by (simp_all add: example_sdk_def sdk_ata_def transaction_size_def)

lemma host_addresses [simp]:
  "host_address [POOL_SEED, to_le (a :: pubkey), to_le (n :: u64), [b]] = 1045"
  "host_address [PULL_SEED, to_le (p :: pubkey), to_le (s :: bytes32), [b]] = 1069"
  "host_address [ITEM_SEED, to_le (p :: pubkey), [t], to_le (q :: u32), [b]] = 30 + ucast q"
  by (simp_all add: host_address_def POOL_SEED_def PULL_SEED_def to_le_def le_nat_nat_le unsigned_of_nat)

subsection \<open>The ledger\<close>

definition prize_asset :: account where
  "prize_asset = \<lparr>acct_owner = CORE_ID, acct_lamports = 500, acct_data = core_header 1045 No_Authority\<rparr>"

definition host_ledger :: ledger where
  "host_ledger = full_ledger(40 := prize_asset, 41 := prize_asset, 42 := prize_asset)"

lemma host_keeps: "keeps {} full_ledger host_ledger"
  using program_ids
  by (auto simp: keeps_def host_ledger_def same_at_def full_ledger_def example_ledger_def prize_asset_def system_account_def)

lemma host_sound: "sound host_ledger"
  using program_step_protocol [OF program_step.external [OF host_keeps] full_sound] by blast

lemma host_same: "k \<notin> {40, 41, 42} \<Longrightarrow> same_at k full_ledger host_ledger"
  by (simp add: host_ledger_def same_at_def)

lemma host_reads:
  "info_key a = 1045 \<Longrightarrow> load_pool host_ledger a = Inr pool_a" "info_key a = 1045 \<Longrightarrow> pool_at host_ledger a = pool_a"
  "info_key a = 1045 \<Longrightarrow> pool_ok host_ledger a [1, 2, 1]" "info_key a = 1069 \<Longrightarrow> load_pull host_ledger a = Inr example_pull"
proof -
  have P: "same_at (info_key (info 1045)) full_ledger host_ledger" and U: "same_at (info_key (info 1069)) full_ledger host_ledger"
    by (simp_all add: host_same)
  note P' = same_at_views [OF P] pool_ok_same [OF P] and U' = same_at_views [OF U]
  show "info_key a = 1045 \<Longrightarrow> load_pool host_ledger a = Inr pool_a" "info_key a = 1045 \<Longrightarrow> pool_at host_ledger a = pool_a"
    "info_key a = 1045 \<Longrightarrow> pool_ok host_ledger a [1, 2, 1]"
    using views_key [of a "info 1045"] P' full_views by simp_all
  show "info_key a = 1069 \<Longrightarrow> load_pull host_ledger a = Inr example_pull"
    using views_key [of a "info 1069"] U' full_views by simp
qed

definition host_pool :: sdk_pool where
  "host_pool = \<lparr>kp_address = 1045, kp_data = acct_data (host_ledger 1045)\<rparr>"

definition host_pull :: sdk_pull where
  "host_pull = \<lparr>ku_address = 1069, ku_data = acct_data (host_ledger 1069)\<rparr>"

lemma host_views [simp]:
  "kp_address host_pool = 1045" "ku_address host_pull = 1069" "sdk_header host_pool = pool_a" "sdk_pull_header host_pull = example_pull"
proof -
  have "pool_at host_ledger (info 1045) = pool_a" "load_pull host_ledger (info 1069) = Inr example_pull"
    by (simp_all add: host_reads)
  then have "decode_pool (acct_data (host_ledger 1045)) = pool_a" "decode_pull (acct_data (host_ledger 1069)) = example_pull"
    by (simp_all only: load_pull_Inr pool_at_def pull_at_def data_of_def info_simps)
  then show "kp_address host_pool = 1045" "ku_address host_pull = 1069" "sdk_header host_pool = pool_a"
    "sdk_pull_header host_pull = example_pull"
    by (simp_all only: host_pool_def host_pull_def sdk_header_def sdk_pull_header_def sdk_pool.simps sdk_pull.simps)
qed

lemma host_current: "current host_ledger host_pool" "current_pull host_ledger host_pull"
  unfolding current_def current_pull_def by (simp_all add: host_reads)

lemma host_items: "load_item host_ledger I = Inr i \<longleftrightarrow> item_keys (info_key I) = Some i"
proof -
  have "pr_items (protocol_of host_ledger) = item_keys" by (simp only: protocol_external [OF host_keeps] protocol_of_full protocol.simps)
  then have "loaded (load_item host_ledger I) = item_keys (info_key I)" using protocol_of_loaded(2) [of host_ledger I] by simp
  then show ?thesis by (cases "load_item host_ledger I") (auto simp: loaded_def)
qed

lemma host_canonical: "canonical_items example_sdk host_ledger 1045"
  by (auto simp: canonical_items_def host_items item_keys_def item_address_for_def example_item split: if_splits)

lemma host_rent:
  "acct_owner (host_ledger (pool_operator pool_a)) \<noteq> ID" "\<forall>k. unat (acct_lamports (host_ledger k)) \<le> 10 ^ 18"
  using program_ids
  by (simp_all add: pool_a host_ledger_def full_ledger_def example_ledger_def system_account_def prize_account_def prize_asset_def)

lemma host_head:
  "pull_pool example_pull = 1045" "pull_status example_pull = STATUS_PENDING" "pull_index example_pull = pool_next_settle pool_a"
  "env_clock host_env = Inr \<lparr>clock_slot = 100, clock_unix_timestamp = 1000\<rparr>"
  "clock_slot \<lparr>clock_slot = 100, clock_unix_timestamp = 1000\<rparr> \<le> pull_deadline_slot example_pull"
  by (simp_all add: example_pull pool_a)

lemma host_vrf: "env_proof_verify host_env (replicate 80 1) k a = Some (replicate 64 0)"
  by (simp add: example_env_def)

theorem sdk_settlement_runs_witness:
  "\<exists>S L'. sdk_settle example_sdk host_pool host_pull (replicate 80 1) = Inr S \<and>
    execute host_env (settlement_instruction S) host_ledger = Inr L' \<and> length (ks_draws S) = 1"
proof -
  have P: "load_pool host_ledger (changed 1045) = Inr pool_a" and U: "load_pull host_ledger (changed 1069) = Inr example_pull"
    by (simp_all add: host_reads)
  have len: "length (replicate 80 1 :: bytes) = 80" "length (replicate 64 0 :: bytes) = 64" by simp_all
  note run = sdk_settlement_runs [OF host_runtime_ok host_laws host_agrees_example host_sound host_canonical P U host_head
      host_vrf len host_rent]
  have "unat (pull_count example_pull) = 1" by (simp add: example_pull)
  then show ?thesis using run unfolding host_pool_def host_pull_def by auto
qed

subsection \<open>The replay\<close>

lemma host_snapshot: "snapshot host_pool pool_a [1, 2, 1]"
proof -
  have "kp_data host_pool = data_of host_ledger (info 1045)" by (simp add: host_pool_def data_of_def)
  from snapshot_of_ledger [OF host_reads(3) this] host_reads(2) [of "info 1045"] show ?thesis by simp
qed

lemma host_pending: "sdk_pending host_pool host_pull = Inr ()"
  by (simp add: sdk_pending_def sdk_pull_status_def example_pull pool_a)

theorem sdk_settle_replays_witness:
  "\<exists>ds. reference_draws host_env pool_a (replicate 64 0) 3 [1, 2, 1] 0 1 = Inr ds \<and>
    sdk_settle example_sdk host_pool host_pull (replicate 80 1) = Inr \<lparr>ks_pool = 1045, ks_pull = 1069, ks_buyer = 20,
      ks_operator = 8, ks_proof = replicate 80 1, ks_draws = map (plan example_sdk 1045) ds\<rparr>"
proof -
  have sha: "env_sha256 example_env (replicate 64 0 @ [0]) = 0" by (simp add: example_env_def from_le_def)
  have words: "prefix_words [1, 2, 1] 3 = [2, 1, 0, 0, 0, 0, 0, 0]" by code_simp
  have ds: "\<exists>ds. reference_draws host_env pool_a (replicate 64 0) 3 [1, 2, 1] 0 1 = Inr ds"
    unfolding One_nat_def by (simp add: sha words sample_draw)
  have hash: "sk_sha256 example_sdk x = env_sha256 host_env x" for x by (simp add: example_sdk_def)
  have vrf: "sk_proof_verify example_sdk (replicate 80 1) k a = Some (replicate 64 0)" for k a
    by (simp add: example_sdk_def example_env_def)
  have "unat (pull_count example_pull) = 1" "unat (pull_inventory_version example_pull) = 3" "pull_buyer example_pull = 20"
    by (simp_all add: example_pull_def)
  then show ?thesis
    using ds sdk_settle_replays [OF hash host_snapshot, of host_pull "replicate 80 1"]
    by (auto simp: host_pending vrf pool_a)
qed

theorem host_plan_matches_chain_witness:
  "\<exists>S it. sdk_settle example_sdk \<lparr>kp_address = 1045, kp_data = data_of (example_ledger pool_a (encode_pull example_pull)) (info 1045)\<rparr>
      \<lparr>ku_address = 1069, ku_data = data_of (example_ledger pool_a (encode_pull example_pull)) (info 1069)\<rparr> (replicate 80 1) = Inr S \<and>
    length (ks_draws S) = 1 \<and> load_item (example_ledger pool_a (encode_pull example_pull)) (info 30) = Inr it \<and>
    item_position it = kd_position (ks_draws S ! 0)"
proof -
  let ?L = "example_ledger pool_a (encode_pull example_pull)"
  obtain L' where "settle example_env (map info [8, 1045, 1069, 30, 2, 3]) (replicate 80 1) ?L = Inr L'" using settle_run ..
  then have run: "settle example_env (info 8 # info 1045 # info 1069 # [info 30] @ [info 2, info 3]) (replicate 80 1) ?L = Inr L'"
    by simp
  have "pull_at ?L (info 1069) = example_pull" by (simp add: example_views [OF pool_a(2)] example_pull)
  then have pinned: "unat (pull_inventory_version (pull_at ?L (info 1069))) \<le> length [1, 2, 1 :: u8]" by (simp add: example_pull)
  have same: "sk_sha256 example_sdk x = env_sha256 example_env x" "sk_proof_verify example_sdk = env_proof_verify example_env" for x
    by (simp_all add: example_sdk_def)
  from host_plan_matches_chain [OF example_runtime_ok example_views(4) [OF pool_a(2)] pinned run same]
  show ?thesis by auto
qed

subsection \<open>Transactions and purchases\<close>

theorem batches_fit_witness:
  "\<exists>groups. batches example_sdk [token_transfer 1 2 3 4] [token_transfer 1 2 3 5] 7 = Inr groups \<and>
    concat groups = [token_transfer 1 2 3 4, token_transfer 1 2 3 5]"
  using batches_fit [of example_sdk "[token_transfer 1 2 3 4]" "[token_transfer 1 2 3 5]" 7] by auto

lemma example_current: "current (example_ledger pool_a d) host_pool"
  unfolding current_def using views_key(1) [of _ "info 1045"] by (simp add: example_views [OF pool_a(2)])

theorem available_draws_exact_witness:
  "\<exists>r. buy_reserve example_env \<lparr>buy_buyer = info 20, buy_pool = info 1045, buy_pull = info 1069, buy_buyer_ata = info 21,
      buy_vault = info 2000, buy_event_authority = info 2, buy_program = info 3\<rparr>
      \<lparr>buy_count = 2, buy_client_seed = 77, buy_inventory_version = 3, buy_bump = 0\<rparr> (example_ledger pool_a []) = Inr r"
proof -
  let ?t = "\<lparr>token_mint = 9, token_owner = 1045, token_amount = 1000\<rparr>"
  have st: "sdk_status host_pool = Active" by (simp add: sdk_status_def pool_a)
  have "remaining_total pool_a = Inr 3"
    by (simp add: remaining_total_def pool_tiers_def pool_a sample_tiers_def sum_ov_def add_ov_def)
  then have n: "sdk_available_draws host_pool (token_amount ?t) = Inr 2"
    by (simp add: sdk_available_draws_def st Let_def sdk_total_def sdk_err_def sdk_spendable_balance_def refund_amount_def pool_a
        checked_add_def checked_mul_def checked_sub_def saturating_sub_def)
  note cond = available_draws_exact [OF n st, of "example_ledger pool_a []"
      "\<lparr>buy_buyer = info 20, buy_pool = info 1045, buy_pull = info 1069, buy_buyer_ata = info 21,
        buy_vault = info 2000, buy_event_authority = info 2, buy_program = info 3\<rparr>" example_env
      "\<lparr>buy_count = 2, buy_client_seed = 77, buy_inventory_version = 3, buy_bump = 0\<rparr>"]
  show ?thesis
    by (subst cond) (simp_all add: example_views [OF pool_a(2)] pool_a PULL_SEED_def)
qed

theorem sdk_buy_runs_witness:
  "\<exists>r a d. sdk_buy example_sdk host_pool \<lparr>kb_buyer = 20, kb_count = 2, kb_client_seed = 77\<rparr> = Inr r \<and>
    execute host_env (kr_instruction r) (example_ledger pool_a []) = buy_process host_env a d (example_ledger pool_a []) \<and>
    info_key (buy_pull a) = 1069 \<and> buy_count d = 2"
proof -
  obtain r where r: "sdk_buy example_sdk host_pool \<lparr>kb_buyer = 20, kb_count = 2, kb_client_seed = 77\<rparr> = Inr r" "kr_pull r = 1069"
    by (simp add: sdk_buy_def sdk_status_def pool_a pull_address_for_def Let_def)
  have "unused_address host_env (example_ledger pool_a []) (kr_pull r)"
    unfolding r(2) by (simp add: unused_address_def example_ledger_def)
  from sdk_buy_runs [OF host_agrees_example example_current r(1) this] r show ?thesis by auto
qed

definition create_order :: sdk_create_pool where
  "create_order = \<lparr>kc_id = 0, kc_price = 100, kc_deadline_slots = 50, kc_bond_per_draw = 10, kc_bond = 0, kc_weights = [3, 5]\<rparr>"

theorem sdk_create_pool_runs_witness:
  "\<exists>is a d. sdk_create_pool_instructions example_sdk create_order 7 8 9 = Inr is \<and>
    execute host_env (is ! 1) empty_ledger = create_pool_process host_env a d empty_ledger \<and>
    info_key (cp_pool a) = 1045 \<and> take (unat (cp_tier_count d)) (cp_weights d) = [3, 5]"
proof -
  obtain i where i: "sdk_create_pool_instructions example_sdk create_order 7 8 9 = Inr i"
    by (simp add: sdk_create_pool_instructions_def create_order_def checked_add_def checked_mul_def Let_def pool_address_for_def)
  have "fst (pool_address_for example_sdk 7 (kc_id create_order)) = 1045" by (simp add: pool_address_for_def)
  moreover have "unused_address host_env empty_ledger 1045"
    by (simp add: unused_address_def empty_ledger_def system_account_def)
  ultimately show ?thesis
    using sdk_create_pool_runs [OF host_agrees_example i, of empty_ledger] i by (auto simp: create_order_def)
qed

subsection \<open>The authority, the seller and the buyer\<close>

theorem sdk_authority_runs_witness:
  "\<exists>i. sdk_set_status host_pool Retired = Inr i \<and> (\<exists>L'. execute host_env i host_ledger = Inr L') \<and>
    execute host_env (sdk_withdraw host_pool 21 50) host_ledger = withdraw_process host_env
      \<lparr>wd_authority = signer_of 7, wd_pool = shown 1045, wd_vault = changed 2000, wd_destination = changed 21,
       wd_event_authority = shown EVENT_AUTHORITY, wd_program = shown ID\<rparr> 50 host_ledger"
proof -
  obtain i where i: "sdk_set_status host_pool Retired = Inr i" by (simp add: sdk_set_status_def)
  have st: "pool_status (sdk_header host_pool) \<le> POOL_RETIRED" by (simp add: pool_a)
  have run: "\<exists>L'. set_status_process host_env \<lparr>ss_authority = signer_of 7, ss_pool = changed 1045,
      ss_event_authority = shown EVENT_AUTHORITY, ss_program = shown ID\<rparr> 2 host_ledger = Inr L'"
    by (simp add: set_status_process_def host_reads emit_host)
  from sdk_authority_runs [OF host_agrees_example host_sound host_current(1) st, of Retired 21 50] i run
  show ?thesis by (auto simp: pool_a)
qed

definition seller_ledger :: ledger where
  "seller_ledger = host_ledger(2000 := \<lparr>acct_owner = 5, acct_lamports = 1, acct_data = token_data 9 20 1000\<rparr>)"

definition example_quote :: sdk_quote where
  "example_quote = \<lparr>kq_pool = 1045, kq_asset = 43, kq_price = 60, kq_expires_at = 2000, kq_tier = 1\<rparr>"

theorem sdk_buyback_runs_witness:
  "\<exists>is a d. sdk_buyback example_sdk host_pool example_quote (replicate 64 9)
      \<lparr>ka_address = 43, ka_owner = 20, ka_collection = None\<rparr> 20 = Inr is \<and>
    execute host_env (is ! 1) seller_ledger = buyback_process host_env a d seller_ledger \<and> bb_price d = 60 \<and>
    sdk_quote_message example_quote = buyback_message 1045 43 60 2000 1"
proof -
  obtain i where i: "sdk_buyback example_sdk host_pool example_quote (replicate 64 9)
      \<lparr>ka_address = 43, ka_owner = 20, ka_collection = None\<rparr> 20 = Inr i"
    by (simp add: sdk_buyback_def sdk_status_def pool_a example_quote_def Let_def item_address_for_def word_le_nat_alt)
  have same: "same_at (info_key (info 1045)) host_ledger seller_ledger" by (simp add: seller_ledger_def same_at_def)
  have "load_pool seller_ledger a = Inr pool_a" if "info_key a = 1045" for a
    using same_at_views(1) [OF same] views_key(1) [of a "info 1045" seller_ledger] that host_reads(1) [of "info 1045"] by simp
  then have cur: "current seller_ledger host_pool" unfolding current_def by simp
  have tok: "load_token host_env seller_ledger (changed 2000) = Inr \<lparr>token_mint = 9, token_owner = 20, token_amount = 1000\<rparr>"
    by (simp add: load_token_def acct_def data_of_def seller_ledger_def)
  have live: "env_clock host_env = Inr \<lparr>clock_slot = 100, clock_unix_timestamp = 1000\<rparr>"
    "sint (clock_unix_timestamp \<lparr>clock_slot = 100, clock_unix_timestamp = 1000\<rparr>) < sint (kq_expires_at example_quote)"
    by (simp_all add: example_quote_def)
  have tok': "load_token host_env seller_ledger
      (changed (ata host_env (ka_owner \<lparr>ka_address = 43, ka_owner = 20, ka_collection = None\<rparr>) (pool_payment_mint (sdk_header host_pool)))) =
      Inr \<lparr>token_mint = 9, token_owner = 20, token_amount = 1000\<rparr>" using tok by simp
  have sig: "length (replicate 64 9 :: bytes) = 64" by simp
  obtain a bump where run: "execute host_env (i ! 1) seller_ledger = buyback_process host_env a
      \<lparr>bb_tier = 1, bb_price = 60, bb_expires_at = 2000, bb_signature = replicate 64 9, bb_bump = bump\<rparr> seller_ledger"
    and msg: "sdk_quote_message example_quote = buyback_message 1045 43 60 2000 1"
    using sdk_buyback_runs [OF host_agrees_example cur i sig live tok'] by (auto simp: example_quote_def)
  show ?thesis
    using i run msg by (intro exI [of _ i] exI [of _ a] exI) (auto intro: run)
qed

definition half_delivered :: pull where
  "half_delivered = won_pull\<lparr>pull_outcomes := (pull_outcomes won_pull)[0 := \<lparr>outcome_tier = DELIVERED, outcome_asset = 40\<rparr>]\<rparr>"

definition half_pull :: sdk_pull where
  "half_pull = \<lparr>ku_address = 1069, ku_data = encode_pull half_delivered\<rparr>"

lemma half_header: "sdk_pull_header half_pull = half_delivered"
proof -
  have "pull_wf half_delivered" by (simp add: half_delivered_def pull_wf_def won_pull)
  then show ?thesis using pull_layout.dec_enc [of half_delivered "[]"] by (simp add: sdk_pull_header_def half_pull_def)
qed

lemma half_fields:
  "pull_status half_delivered = STATUS_SETTLED" "unat (pull_count half_delivered) = 2" "pull_pool half_delivered = 1045"
  "pull_buyer half_delivered = 20" "pull_outcomes half_delivered = [\<lparr>outcome_tier = DELIVERED, outcome_asset = 40\<rparr>,
    \<lparr>outcome_tier = 1, outcome_asset = 41\<rparr>] @ replicate 8 \<lparr>outcome_tier = 0, outcome_asset = 0\<rparr>"
  by (simp_all add: half_delivered_def won_pull)

theorem sdk_deliver_runs_witness:
  "\<exists>i. sdk_deliver example_sdk half_pull [\<lparr>ka_address = 41, ka_owner = 1045, ka_collection = None\<rparr>] 4 = Inr [[i]] \<and>
    undelivered half_delivered = [1] \<and>
    execute host_env i ((example_ledger pool_a (encode_pull half_delivered))) = deliver_process host_env
      \<lparr>dl_payer = payer_of 4, dl_pool = shown 1045, dl_pull = changed 1069, dl_buyer = changed 20, dl_asset = changed 41,
       dl_collection = shown CORE_ID, dl_core_program = shown CORE_ID, dl_system_program = shown SYSTEM,
       dl_event_authority = shown EVENT_AUTHORITY, dl_program = shown ID\<rparr> 1 (example_ledger pool_a (encode_pull half_delivered))"
proof -
  let ?L = "example_ledger pool_a (encode_pull half_delivered)"
  let ?a = "\<lparr>ka_address = 41, ka_owner = 1045, ka_collection = None\<rparr>"
  have two: "[0..<2] = [0, 1 :: nat]" by (simp add: upt_rec)
  have outs: "sdk_outcomes half_pull = Inr [\<lparr>ko_asset = 40, ko_tier = None\<rparr>, \<lparr>ko_asset = 41, ko_tier = Some 1\<rparr>]"
    by (simp add: sdk_outcomes_def sdk_pull_status_def half_header half_fields two pull_outcome_def sdk_total_def Let_def)
  obtain i where i: "sdk_deliver example_sdk half_pull [?a] 4 = Inr [[i]]"
    by (simp add: sdk_deliver_def outs half_header half_fields Let_def sdk_deliver_one_def batches_def)
  have todo: "undelivered half_delivered = [1]" by (simp add: undelivered_def half_fields two)
  have wf: "pull_wf half_delivered" "pull_version half_delivered = 1" by (simp_all add: half_delivered_def pull_wf_def won_pull)
  have P: "load_pool ?L (shown 1045) = Inr pool_a"
    using views_key(1) [of "shown 1045" "info 1045" ?L] by (simp add: example_views [OF pool_a(2)])
  have U: "load_pull ?L (changed 1069) = Inr half_delivered"
    using views_key(2) [of "changed 1069" "info 1069" ?L] by (simp add: example_views [OF pool_a(2)] wf)
  have addr: "ku_address half_pull = 1069" by (simp add: half_pull_def)
  have "execute host_env i ?L = deliver_process host_env
      \<lparr>dl_payer = payer_of 4, dl_pool = shown 1045, dl_pull = changed 1069, dl_buyer = changed 20, dl_asset = changed 41,
       dl_collection = shown CORE_ID, dl_core_program = shown CORE_ID, dl_system_program = shown SYSTEM,
       dl_event_authority = shown EVENT_AUTHORITY, dl_program = shown ID\<rparr> 1 ?L"
    using sdk_deliver_runs [OF i] P U
    by (simp add: half_header half_fields todo addr collection_or_core_def)
  then show ?thesis using i todo by blast
qed

subsection \<open>The client\<close>

text \<open>A node that reads \<open>host_ledger\<close>, always at slot 5.\<close>

fun host_node :: rpc_node where
  "host_node [] = Inl Transport"
| "host_node (q # log) = Inr \<lparr>rs_slot = 5, rs_value = map (\<lambda>k. Some \<lparr>ra_owner = Some (acct_owner (host_ledger k)),
     ra_data = Some (sliced (rq_length q) (acct_data (host_ledger k)))\<rparr>) (rq_keys q)\<rparr>"

lemma host_node_chain: "reads_chain host_node (\<lambda>_. host_ledger)"
  by (auto simp: reads_chain_def in_set_zip)

lemma read_all: "map_res read_account (zip keys (map (\<lambda>k. Some \<lparr>ra_owner = Some (f k), ra_data = Some (g k)\<rparr>) keys)) =
  Inr (map (\<lambda>k. (f k, g k)) keys)"
  by (induction keys) (simp_all add: read_account_def)

lemma host_read:
  "\<not> too_old minimum 5 \<Longrightarrow> client_read host_node keys minimum len log =
    (Inr (5, map (\<lambda>k. (acct_owner (host_ledger k), sliced len (acct_data (host_ledger k)))) keys),
     \<lparr>rq_keys = keys, rq_minimum = minimum, rq_length = len\<rparr> # log)"
  by (simp add: client_read_def Let_def read_all)

lemma host_pull_bytes:
  "acct_owner (host_ledger 1069) = ID" "length (acct_data (host_ledger 1069)) = 450" "acct_data (host_ledger 1069) ! 0 = 1"
  "acct_data (host_ledger 1069) ! 2 = 0" "acct_data (host_ledger 1069) ! 3 = 1"
proof -
  have d: "acct_data (host_ledger 1069) = encode_pull example_pull" "acct_owner (host_ledger 1069) = ID"
    using host_reads(4) [of "info 1069"]
    by (simp_all add: load_pull_Inr acct_def) (simp add: host_ledger_def full_ledger_def example_ledger_def)
  show "acct_owner (host_ledger 1069) = ID" by (rule d(2))
  show "length (acct_data (host_ledger 1069)) = 450" unfolding d using length_encode_pull [OF example_pull(1)] .
  show "acct_data (host_ledger 1069) ! 0 = 1" "acct_data (host_ledger 1069) ! 2 = 0" "acct_data (host_ledger 1069) ! 3 = 1"
    unfolding d by code_simp+
qed

lemma host_pull_accepted:
  "pull_from_account example_sdk 1069 (acct_owner (host_ledger 1069)) (acct_data (host_ledger 1069)) = Inr host_pull"
proof -
  have "sdk_pull_header \<lparr>ku_address = 1069, ku_data = acct_data (host_ledger 1069)\<rparr> = example_pull"
    using host_views(4) by (simp add: host_pull_def)
  moreover have "pull_bump example_pull = 0" by (simp add: example_pull_def)
  ultimately show ?thesis
    by (simp add: pull_from_account_def sdk_check_def host_pull_bytes Let_def pull_address_for_def sdk_pull_status_def
        example_pull host_pull_def)
qed

lemma host_pool_accepted:
  "pool_from_account example_sdk 1045 (acct_owner (host_ledger 1045)) (acct_data (host_ledger 1045)) = Inr host_pool"
proof -
  have at: "pool_at host_ledger (info 1045) = pool_a" and ok: "pool_ok host_ledger (info 1045) [1, 2, 1]"
    by (simp_all add: host_reads)
  have "pool_bump pool_a = 0" by (simp add: pool_a_def sample_pool_def)
  then have "pool_view example_sdk (info_key (info 1045)) (data_of host_ledger (info 1045)) (pool_at host_ledger (info 1045))"
    using pool_okD(7) [OF ok] unfolding at
    by (simp add: pool_view_def pool_a pool_address_for_def tiers_of_def sample_tiers_def pool_valid_def)
  from ledger_pool_accepted [OF ok this] pool_okD(5) [OF ok] show ?thesis
    by (simp add: host_pool_def data_of_def acct_def)
qed

definition host_plan_of :: sdk_settlement where
  "host_plan_of = \<lparr>ks_pool = 1045, ks_pull = 1069, ks_buyer = 20, ks_operator = 8, ks_proof = replicate 80 1,
     ks_draws = [\<lparr>kd_tier = 0, kd_position = 0, kd_item = 30\<rparr>]\<rparr>"

lemma host_settle: "sdk_settle example_sdk host_pool host_pull (replicate 80 1) = Inr host_plan_of"
proof -
  have sha: "env_sha256 example_env (replicate 64 0 @ [0]) = 0" by (simp add: example_env_def from_le_def)
  have words: "prefix_words [1, 2, 1] 3 = [2, 1, 0, 0, 0, 0, 0, 0]" by code_simp
  have first: "available [1, 2, 1] 0 ! 0 = 0" by code_simp
  have hash: "sk_sha256 example_sdk x = env_sha256 host_env x" for x by (simp add: example_sdk_def)
  have vrf: "sk_proof_verify example_sdk (replicate 80 1) k a = Some (replicate 64 0)" for k a
    by (simp add: example_sdk_def example_env_def)
  have "unat (pull_count example_pull) = Suc 0" "unat (pull_inventory_version example_pull) = 3" "pull_buyer example_pull = 20"
    by (simp_all add: example_pull_def)
  then show ?thesis
    unfolding sdk_settle_exact [OF hash host_snapshot]
    by (simp add: host_pending vrf sha words sample_draw first pool_a plan_def item_address_for_def host_plan_of_def)
qed

lemma host_item_accepted:
  "item_from_account example_sdk 30 (acct_owner (host_ledger 30)) (acct_data (host_ledger 30)) =
    Inr \<lparr>ki_address = 30, ki_data = encode_item example_item\<rparr>"
proof -
  have d: "acct_data (host_ledger 30) = encode_item example_item" "acct_owner (host_ledger 30) = ID"
    by (simp_all add: host_ledger_def full_ledger_def example_ledger_def)
  have bytes: "encode_item example_item ! 0 = 1" "encode_item example_item ! 2 = 0" by code_simp+
  have dec: "decode_item (encode_item example_item) = example_item" using item_layout.dec_enc [of example_item "[]"] by simp
  have "item_bump example_item = 0" by (simp add: example_item_def)
  then show ?thesis
    using length_encode_item [of example_item]
    by (simp add: item_from_account_def sdk_check_def d bytes Let_def sdk_item_header_def dec item_address_for_def example_item)
qed

lemma host_asset_accepted:
  "asset_from_account 40 (acct_owner (host_ledger 40)) (sliced (Some 66) (acct_data (host_ledger 40))) =
    Inr \<lparr>ka_address = 40, ka_owner = 1045, ka_collection = None\<rparr>"
  by (simp add: asset_from_account_def core_asset_from_account_def host_ledger_def prize_asset_def core_header_def sliced_def
      Let_def nth_append slice_def)

lemma host_client:
  "\<exists>groups log'. client_settle host_node example_sdk 1069 (replicate 80 1) 4 [] = (Inr groups, log')"
proof -
  have order: "\<not> too_old (Some 5) 5" "\<not> too_old None 5" by (simp_all add: too_old_def)
  have asset: "item_asset (sdk_item_header \<lparr>ki_address = 30, ki_data = encode_item example_item\<rparr>) = 40"
    using item_layout.dec_enc [of example_item "[]"] by (simp add: sdk_item_header_def example_item)
  have snap: "client_snapshot host_node example_sdk 1069 True [] = (Inr (host_pool, host_pull, 5),
      [\<lparr>rq_keys = [1045, 1069], rq_minimum = Some 5, rq_length = None\<rparr>, \<lparr>rq_keys = [1069], rq_minimum = None, rq_length = None\<rparr>])"
    using host_pull_accepted host_pool_accepted
    by (simp add: client_snapshot_def client_bind_def host_read order sliced_def account_at_def lift_sdk_def lift_rpc_def
        Let_def example_pull del: host_node.simps)
  show ?thesis
    using host_item_accepted host_asset_accepted asset
    by (simp add: client_settle_def snap host_settle host_plan_of_def host_read order sliced_def
        client_bind_def lift_sdk_def lift_rpc_def Let_def client_assets_def settlement_instructions_def sdk_deliver_one_def batches_def)
qed

theorem client_settlement_executes_witness:
  "\<exists>groups S L'. fst (client_settle host_node example_sdk 1069 (replicate 80 1) 4 []) = Inr groups \<and>
    hd (concat groups) = settlement_instruction S \<and> execute host_env (hd (concat groups)) host_ledger = Inr L'"
proof -
  obtain groups log' where r: "client_settle host_node example_sdk 1069 (replicate 80 1) 4 [] = (Inr groups, log')"
    using host_client by blast
  have len: "length (replicate 80 1 :: bytes) = 80"
    and len': "\<forall>k a beta. env_proof_verify host_env (replicate 80 1) k a = Some beta \<longrightarrow> length beta = 64"
    unfolding host_vrf by auto
  from client_settlement_executes [OF host_runtime_ok host_laws host_agrees_example host_node_chain r len len' host_head(4)]
  obtain A slot P u S rest where
    P: "pool_from_account example_sdk A (acct_owner (host_ledger A)) (acct_data (host_ledger A)) = Inr P" and
    u: "pull_from_account example_sdk 1069 (acct_owner (host_ledger 1069)) (acct_data (host_ledger 1069)) = Inr u" and
    S: "sdk_settle example_sdk P u (replicate 80 1) = Inr S" "concat groups = settlement_instruction S # rest" and
    run: "same_at A host_ledger host_ledger \<and> same_at 1069 host_ledger host_ledger \<and> sound host_ledger \<and>
       canonical_items example_sdk host_ledger A \<and>
       clock_slot \<lparr>clock_slot = 100, clock_unix_timestamp = 1000\<rparr> \<le> pull_deadline_slot (sdk_pull_header u) \<and>
       acct_owner (host_ledger (pool_operator (sdk_header P))) \<noteq> ID \<and> (\<forall>k. unat (acct_lamports (host_ledger k)) \<le> 10 ^ 18) \<longrightarrow>
       (\<exists>L'. execute host_env (settlement_instruction S) host_ledger = Inr L')"
    by blast
  have u': "u = host_pull" using u host_pull_accepted by simp
  have "kp_address P = pull_pool (sdk_pull_header u)"
    using S(1) by (cases "sdk_pending P u") (auto simp: sdk_settle_def dest: sdk_pendingD(1))
  moreover have "kp_address P = A" using P by (auto simp: pool_from_account_iff)
  ultimately have A: "A = 1045" by (simp add: u' example_pull)
  then have P': "P = host_pool" using P host_pool_accepted by simp
  have "\<exists>L'. execute host_env (settlement_instruction S) host_ledger = Inr L'"
    using run host_sound host_canonical host_rent host_head(5) unfolding A P' u' by simp
  then show ?thesis using r S(2) by auto
qed

end
