(* ===== verification/Spec2Isabelle.thy ===== *)
theory Spec2Isabelle
  imports Core_Asset Availability Witnesses System_Witnesses Sdk_Witnesses
begin

section \<open>Verification of solana-gacha\<close>

text \<open>
  The repository is a Solana program that sells random draws from pools of Metaplex Core assets, and
  the Rust SDK of its clients. An authority creates a pool with a price, weighted tiers and a bond per
  draw and deposits prizes; each prize is one position of the pool's inventory with its own Item
  account. A buyer pays for up to ten draws and gets a pull, which pins the inventory of that moment.
  The operator settles the pulls of a pool in the order of purchase from a verified VRF proof; the
  awards are delivered one by one. A pull that is not settled by its deadline is refunded with the
  bond. A prize can be sold back against a quote that the authority signed.

  \<^bold>\<open>Parts and theories.\<close> The model follows the directories of the source.

  \<^item> \<open>Prelude\<close>: words, little-endian codecs, checked arithmetic, the result type. \<open>error + 'a\<close> is a
    Rust \<open>Result\<close>; every panic (an index out of bounds, an overflow of a plain operator, which the
    build's overflow checks make a panic) is the error \<open>Panic\<close>, so that "no panic" is a statement.
  \<^item> \<open>packages/gacha-core\<close>: \<open>Core_Errors\<close> (errors, constants, seeds), \<open>Layout\<close> (\<open>state.rs\<close>: Pool,
    Tier, Item, Pull over account bytes, and the contract \<open>layout\<close> of an overlaid struct), \<open>Draw\<close>
    (prices and \<open>Pool::draw\<close>), \<open>Core_Asset\<close> (\<open>asset.rs\<close> and the buyback message).
  \<^item> \<open>program/src/inventory.rs\<close>: \<open>Inventory\<close> (the Fenwick index over the bytes of the account),
    \<open>Fenwick\<close>, \<open>Inventory_Correct\<close>, \<open>Inventory_Refine\<close>, \<open>Inventory_Take\<close> (its arithmetic and
    correctness), \<open>Availability\<close> (the contract of the index as a locale on lists of tags, interpreted
    on the byte-level operations); \<open>Stock\<close> and \<open>Stock_Correct\<close> (\<open>draw\<close>, \<open>restock\<close>), \<open>Draw_Correct\<close>
    (the draws of a settlement as a reference function).
  \<^item> \<open>program/src\<close>, the rest: \<open>Runtime\<close> (\<open>state.rs\<close>, \<open>helpers.rs\<close>, \<open>assets.rs\<close> and the runtime's
    interface), \<open>Events\<close> (\<open>events.rs\<close>), \<open>Admin\<close>, \<open>Player\<close>, \<open>Operator\<close> (the ten instructions, each
    with its accounts, its data and \<open>process\<close>), \<open>Program\<close> (the entrypoint). \<open>Frames\<close>, \<open>Keeps\<close> and
    \<open>Vault\<close> say what an operation leaves alone; \<open>Admin_Correct\<close>, \<open>Player_Correct\<close>,
    \<open>Operator_Correct\<close> and \<open>Buyback_Correct\<close> give the effect of every successful instruction.
  \<^item> the whole program: \<open>Protocol\<close> (an abstract state machine of pools, queues of pulls and Items with
    its inductive step relation and its invariant), \<open>Abstraction\<close> (reading a ledger as a protocol
    state), \<open>Simulation\<close> (every instruction is a step), \<open>System\<close> (transactions, reachable ledgers,
    histories), \<open>Progress\<close> (the head of the queue can be settled), \<open>Crank\<close> (and so the whole queue),
    \<open>Refund_Progress\<close> (an overdue head can be refunded), \<open>Fairness\<close> (the outcome of the head is fixed).
  \<^item> \<open>packages/gacha-rust\<close>: \<open>Sdk\<close> and \<open>Sdk_Pool\<close> (\<open>lib.rs\<close>: snapshots, instruction builders, the replay
    of a settlement, transactions), \<open>Client\<close> (\<open>rpc.rs\<close>); \<open>Sdk_Replay\<close> (the host's scan is the draw of
    the chain), \<open>Sdk_Correct\<close> (transaction sizes, available draws), \<open>Sdk_View\<close> (what a decoded pool
    guarantees), \<open>Sdk_Accept\<close> (the entrypoint runs what the SDK builds), \<open>Client_Correct\<close> (coherent
    reads, and the execution of what the client returns).
  \<^item> \<open>Example\<close>, \<open>Witnesses\<close>, \<open>System_Witnesses\<close>, \<open>Sdk_Witnesses\<close>: an executable runtime that satisfies
    the laws below, ledgers, a host and a node, on which every property with hypotheses is applied.

  \<^bold>\<open>State.\<close> A ledger maps addresses to accounts (owner, lamports, bytes). A handler is a function from
  the accounts of the instruction, its data and the ledger to an error or the new ledger, with the
  checks in the order of the source; an error leaves the ledger as it was, as a transaction does. A
  loaded view of an account is decoded from its current bytes at each read and written back at each
  store, so aliased accounts behave as in the source. The functions of an SDK value take its bytes.

  \<^bold>\<open>What is a parameter.\<close> The record \<open>env\<close> holds what the program calls and does not contain: SHA-256,
  address derivation, the VRF, Ed25519, the clock and rent sysvars, reallocation, closing and the
  invocation of other programs. \<open>runtime_ok\<close> (in \<open>Frames\<close>) collects the documented behaviour that the
  proofs use: other programs cannot write the accounts of this program, creating, allocating and
  assigning give zeroed data, a token transfer moves exactly its amount or fails, a Core transfer
  moves no tokens, closing leaves an empty system account. \<open>closes\<close> and \<open>emits\<close> say that closing and
  recording an event succeed, \<open>pays\<close> (in \<open>Refund_Progress\<close>) that a signed transfer between open token
  accounts succeeds when the amount is there; only the liveness properties need them. \<open>sdk_env\<close> holds
  the host's libraries; \<open>host_agrees\<close> says that they compute the same functions as the chain's and that an
  address found with a bump is derived by that bump. The RPC node is arbitrary; \<open>reads_chain\<close> says
  that an answer shows accounts as they are at the slot it names.

  \<^bold>\<open>What is shown.\<close> Each property is stated after a text that carries its number.

  \<^item> Components: events and quotes determine their terms, and a Core asset is accepted exactly when it
    has an AssetV1 header; \<open>append\<close>, \<open>take\<close>, \<open>remove\<close> and \<open>counts\<close> of the byte-level Fenwick index are
    the operations on the list of tags, errors included; a tier is drawn by exactly its weight; the draw
    is total.
  \<^item> Instructions: for every instruction, the checks that a success implies, the complete change of
    pool, pull, Items, index and vault, and the Core transfer that takes or gives the asset.
  \<^item> The program: every instruction refines a step of the protocol; in every reachable ledger the index,
    the counts, the Items and the queues agree and every waiting pull is covered by the positions it
    pinned; pools keep their terms, retirement is final, positions never come back; a pull is settled
    or refunded at the head of its queue only, and delivered once per award; the next pull can always
    be settled before its deadline, whatever the VRF outputs, and refunded after it; no transaction can
    change what the next pull will be awarded for a VRF output; and a run of settlements lasts exactly
    as long as the queue, which it leaves empty.
  \<^item> The SDK: \<open>Pool::from_account\<close> accepts exactly the consistent accounts; the replay of a settlement is
    the draw of the chain; the draws on offer are the draws a purchase accepts; the groups of
    instructions fit transactions; the instructions that the SDK builds reach \<open>process\<close> with what the
    caller meant; a planned settlement executes; what the client returns was read coherently and
    executes on every sound ledger in which the two accounts are unchanged.

  \<^bold>\<open>Bounds.\<close> No fuel is used. Machine integers are words of their width, with the checks of the source
  written out. The loops of the index recurse on a decreasing measure (the block number or the bits
  that are left), the others on lists or on the positions below a bound. The liveness properties
  assume that no account holds more than 10^18 lamports, a billion SOL, which is more than exist; the
  run over a queue assumes that the rent it gives back fits the operator's balance.

  \<^bold>\<open>Not modelled.\<close> Compute budgets, the heap and the account borrow flags of the runtime; logging and
  \<open>Display\<close>; the transport, authentication and asynchrony of the RPC client; the TypeScript SDK
  \<open>packages/gacha-kit\<close>, which mirrors the Rust one; the tests and benchmarks. The cryptographic
  strength of the VRF and of the signatures is outside the model: a property that mentions a proof or
  a signature is about what was verified, not about who could have produced it.
\<close>

end
